(* ===== verification/Aegis_Prelude.thy ===== *)
theory Aegis_Prelude
  imports Complex_Main "HOL-Library.Word" "HOL-Library.AList"
begin

text \<open>
  Shared ground of the AegisAI development: the parts of Go and of its standard library that the
  platform's packages use.

  \<^item> \<open>int\<close> and \<open>int64\<close> are \<^typ>\<open>int\<close> with the wrap-around of every operation that can overflow
    written out by \<open>i64\<close>; division and remainder truncate towards zero.
  \<^item> A Go \<open>string\<close> is a byte sequence, so it is an Isabelle \<^typ>\<open>string\<close>; \<open>len\<close> is \<^const>\<open>length\<close>.
  \<^item> \<open>time.Time\<close> is the number of nanoseconds since Go's zero time, \<open>time.Duration\<close> an \<open>int64\<close>
    number of nanoseconds.
  \<^item> An \<open>error\<close> value is a \<open>go_error\<close>; a function returning only \<open>error\<close> returns a
    \<open>go_error option\<close> (\<^const>\<open>None\<close> is \<open>nil\<close>), and one returning a value and an \<open>error\<close> returns
    \<open>go_error + 'a\<close>.
\<close>

named_theorems go_arith \<open>facts on Go integers inside their range\<close>
named_theorems go_errors \<open>classification of error chains\<close>

subsection \<open>Integers\<close>

definition max_int64 :: int where
  "max_int64 = 9223372036854775807"

definition in_i64 :: "int \<Rightarrow> bool" where
  "in_i64 x \<longleftrightarrow> - 9223372036854775808 \<le> x \<and> x \<le> 9223372036854775807"

definition i64 :: "int \<Rightarrow> int" where
  "i64 x = (x + 9223372036854775808) mod 18446744073709551616 - 9223372036854775808"

definition go_quo :: "int \<Rightarrow> int \<Rightarrow> int" where
  "go_quo a b = sgn a * sgn b * (\<bar>a\<bar> div \<bar>b\<bar>)"

definition go_rem :: "int \<Rightarrow> int \<Rightarrow> int" where
  "go_rem a b = a - b * go_quo a b"

lemma i64_id [simp, go_arith]: "in_i64 x \<Longrightarrow> i64 x = x"
  by (simp add: in_i64_def i64_def)

lemma in_i64_i64 [simp, go_arith]: "in_i64 (i64 x)"
proof -
  have "0 \<le> (x + 9223372036854775808) mod 18446744073709551616"
    and "(x + 9223372036854775808) mod 18446744073709551616 < 18446744073709551616"
    by simp_all
  then show ?thesis unfolding in_i64_def i64_def by linarith
qed

lemma add_mod_cancel: "(x + h) mod m = (y + h) mod m \<longleftrightarrow> x mod m = y mod (m::int)"
  by (simp add: mod_eq_dvd_iff)

lemma i64_cong: "i64 x = i64 y \<longleftrightarrow> x mod 18446744073709551616 = y mod 18446744073709551616"
  unfolding i64_def by (simp only: diff_left_imp_eq add_mod_cancel diff_eq_eq diff_add_cancel)

lemma i64_mod: "i64 x mod 18446744073709551616 = x mod 18446744073709551616"
  by (rule i64_cong [THEN iffD1]) (rule i64_id [OF in_i64_i64])

lemma i64_add_left [simp, go_arith]: "i64 (i64 x + y) = i64 (x + y)"
  unfolding i64_cong by (rule mod_add_cong [OF i64_mod refl])

lemma i64_add_right [simp, go_arith]: "i64 (x + i64 y) = i64 (x + y)"
  unfolding i64_cong by (rule mod_add_cong [OF refl i64_mod])

lemma i64_minus_right [simp, go_arith]: "i64 (x - i64 y) = i64 (x - y)"
  unfolding i64_cong by (rule mod_diff_cong [OF refl i64_mod])

lemma i64_minus_left [simp, go_arith]: "i64 (i64 x - y) = i64 (x - y)"
  unfolding i64_cong by (rule mod_diff_cong [OF i64_mod refl])

lemma go_quo_nonneg [go_arith]: "0 \<le> a \<Longrightarrow> 0 < b \<Longrightarrow> go_quo a b = a div b"
  by (auto simp: go_quo_def sgn_if)

lemma go_rem_nonneg [go_arith]: "0 \<le> a \<Longrightarrow> 0 < b \<Longrightarrow> go_rem a b = a mod b"
  by (simp add: go_rem_def go_quo_nonneg minus_mult_div_eq_mod)

lemma go_rem_bound: "0 < b \<Longrightarrow> go_rem a b < b"
proof -
  assume b: "0 < b"
  show ?thesis
  proof (cases "0 \<le> a")
    case True
    with b show ?thesis by (simp add: go_rem_nonneg)
  next
    case False
    then have "go_rem a b = - ((- a) mod b)"
      using b by (simp add: go_rem_def go_quo_def sgn_if minus_mult_div_eq_mod [symmetric] algebra_simps)
    moreover have "0 \<le> (- a) mod b" using b by simp
    ultimately show ?thesis using b by linarith
  qed
qed

subsection \<open>Time\<close>

type_synonym go_time = int
type_synonym duration = int

definition nanosecond :: duration where "nanosecond = 1"
definition millisecond :: duration where "millisecond = 1000000"
definition second :: duration where "second = 1000000000"
definition minute :: duration where "minute = 60000000000"

definition time_is_zero :: "go_time \<Rightarrow> bool" where
  "time_is_zero t \<longleftrightarrow> t = 0"

text \<open>\<open>Time.Sub\<close> saturates at the range of \<open>Duration\<close>.\<close>

definition time_sub :: "go_time \<Rightarrow> go_time \<Rightarrow> duration" where
  "time_sub t u = max (- 9223372036854775808) (min 9223372036854775807 (t - u))"

definition time_add :: "go_time \<Rightarrow> duration \<Rightarrow> go_time" where
  "time_add t d = t + d"

definition duration_milliseconds :: "duration \<Rightarrow> int" where
  "duration_milliseconds d = go_quo d 1000000"

lemma time_sub_ge_iff:
  "in_i64 d \<Longrightarrow> 0 < d \<Longrightarrow> d \<le> time_sub t u \<longleftrightarrow> u + d \<le> t"
  by (auto simp: time_sub_def in_i64_def)

subsection \<open>Strings\<close>

fun is_prefix_of :: "string \<Rightarrow> string \<Rightarrow> bool" where
  "is_prefix_of [] s = True"
| "is_prefix_of (p # ps) [] = False"
| "is_prefix_of (p # ps) (c # cs) = (p = c \<and> is_prefix_of ps cs)"

lemma is_prefix_of_iff: "is_prefix_of p s \<longleftrightarrow> (\<exists>t. s = p @ t)"
  by (induction p s rule: is_prefix_of.induct) auto

text \<open>
  \<open>strings.TrimSpace\<close> removes the code points of \<open>unicode.IsSpace\<close> at both ends. On a byte
  sequence that is: drop leading (and trailing) UTF-8 encodings of these code points.
\<close>

definition space_encodings :: "string list" where
  "space_encodings =
     [[CHR 0x09], [CHR 0x0A], [CHR 0x0B], [CHR 0x0C], [CHR 0x0D], [CHR 0x20],
      [CHR 0xC2, CHR 0x85], [CHR 0xC2, CHR 0xA0], [CHR 0xE1, CHR 0x9A, CHR 0x80]]
     @ map (\<lambda>b. [CHR 0xE2, CHR 0x80, b])
         [CHR 0x80, CHR 0x81, CHR 0x82, CHR 0x83, CHR 0x84, CHR 0x85, CHR 0x86, CHR 0x87,
          CHR 0x88, CHR 0x89, CHR 0x8A, CHR 0xA8, CHR 0xA9, CHR 0xAF]
     @ [[CHR 0xE2, CHR 0x81, CHR 0x9F], [CHR 0xE3, CHR 0x80, CHR 0x80]]"

function trim_left_of :: "string list \<Rightarrow> string \<Rightarrow> string" where
  "trim_left_of encs s =
     (case find (\<lambda>e. e \<noteq> [] \<and> is_prefix_of e s) encs of
        None \<Rightarrow> s
      | Some e \<Rightarrow> trim_left_of encs (drop (length e) s))"
  by pat_completeness auto
termination
proof (relation "measure (\<lambda>(encs, s). length s)")
  fix encs s e
  assume "find (\<lambda>e. e \<noteq> [] \<and> is_prefix_of e s) encs = Some e"
  then have "e \<noteq> []" and "is_prefix_of e s" by (auto simp: find_Some_iff)
  then show "((encs, drop (length e) s), (encs, s)) \<in> measure (\<lambda>(encs, s). length s)"
    by (auto simp: is_prefix_of_iff)
qed simp

declare trim_left_of.simps [simp del]

definition trim_space :: "string \<Rightarrow> string" where
  "trim_space s =
     rev (trim_left_of (map rev space_encodings) (rev (trim_left_of space_encodings s)))"

lemma trim_left_of_suffix: "\<exists>p. s = p @ trim_left_of encs s"
proof (induction encs s rule: trim_left_of.induct)
  case (1 encs s)
  show ?case
  proof (cases "find (\<lambda>e. e \<noteq> [] \<and> is_prefix_of e s) encs")
    case None
    then show ?thesis by (simp add: trim_left_of.simps [of encs s])
  next
    case (Some e)
    let ?r = "trim_left_of encs (drop (length e) s)"
    from Some "1.IH" obtain p where p: "drop (length e) s = p @ ?r" by blast
    have "s = take (length e) s @ drop (length e) s" by simp
    also have "\<dots> = (take (length e) s @ p) @ ?r" by (subst p) simp
    finally have "\<exists>q. s = q @ ?r" by blast
    moreover have "trim_left_of encs s = ?r"
      using Some by (simp add: trim_left_of.simps [of encs s])
    ultimately show ?thesis by simp
  qed
qed

lemma length_trim_left_of: "length (trim_left_of encs s) \<le> length s"
proof -
  obtain p where "s = p @ trim_left_of encs s" using trim_left_of_suffix by blast
  then have "length s = length p + length (trim_left_of encs s)"
    by (simp only: length_append [symmetric])
  then show ?thesis by simp
qed

lemma length_trim_space: "length (trim_space s) \<le> length s"
  unfolding trim_space_def
  by (metis le_trans length_rev length_trim_left_of)

lemma trim_space_Nil [simp]: "trim_space [] = []"
  using length_trim_space [of "[]"] by simp

text \<open>\<open>strings.SplitN\<close> for a one-byte separator and a positive bound.\<close>

fun split_n :: "nat \<Rightarrow> char \<Rightarrow> string \<Rightarrow> string list" where
  "split_n 0 c s = []"
| "split_n (Suc 0) c s = [s]"
| "split_n (Suc (Suc n)) c s =
     (if c \<in> set s
      then takeWhile (\<lambda>x. x \<noteq> c) s # split_n (Suc n) c (tl (dropWhile (\<lambda>x. x \<noteq> c) s))
      else [s])"

text \<open>Decimal rendering, for \<open>%d\<close>.\<close>

fun show_nat :: "nat \<Rightarrow> string" where
  "show_nat n =
     (if n < 10 then [''0123456789'' ! n] else show_nat (n div 10) @ [''0123456789'' ! (n mod 10)])"

declare show_nat.simps [simp del]

definition show_int :: "int \<Rightarrow> string" where
  "show_int i = (if i < 0 then ''-'' @ show_nat (nat (- i)) else show_nat (nat i))"

lemma digit_inj: "m < 10 \<Longrightarrow> n < 10 \<Longrightarrow> ''0123456789'' ! m = ''0123456789'' ! n \<Longrightarrow> m = n"
  by (subst (asm) nth_eq_iff_index_eq) simp_all

lemma show_nat_Nil [simp]: "show_nat n \<noteq> []"
  by (subst show_nat.simps) simp

lemma show_nat_digits: "set (show_nat n) \<subseteq> set ''0123456789''"
proof (induction n rule: show_nat.induct)
  case (1 n)
  have d: "''0123456789'' ! m \<in> set ''0123456789''" if "m < 10" for m
    using that by (intro nth_mem) simp
  show ?case
  proof (cases "n < 10")
    case True
    then show ?thesis using d [of n] by (subst show_nat.simps) simp
  next
    case False
    then show ?thesis using 1 d [of "n mod 10"] by (subst show_nat.simps) simp
  qed
qed

lemma show_nat_inj: "show_nat m = show_nat n \<Longrightarrow> m = n"
proof (induction m arbitrary: n rule: show_nat.induct)
  case (1 m)
  show ?case
  proof (cases "m < 10 \<or> n < 10")
    case True
    have one: "show_nat k = [''0123456789'' ! k]" if "k < 10" for k
      using that by (subst show_nat.simps) simp
    have two: "show_nat k \<noteq> [c]" if "\<not> k < 10" for k c
      using that by (subst show_nat.simps) simp
    have "m < 10" using True one [of n] two [of m] 1(2) by (cases "m < 10") auto
    moreover have "n < 10" using True one [of m] two [of n] 1(2) by (cases "n < 10") auto
    ultimately show ?thesis using one [of m] one [of n] 1(2) digit_inj [of m n] by simp
  next
    case False
    have step: "show_nat k = show_nat (k div 10) @ [''0123456789'' ! (k mod 10)]" if "\<not> k < 10" for k
      using that by (subst show_nat.simps) simp
    have "show_nat (m div 10) = show_nat (n div 10)" "''0123456789'' ! (m mod 10) = ''0123456789'' ! (n mod 10)"
      using 1(2) step [of m] step [of n] False by simp_all
    then have "m div 10 = n div 10" "m mod 10 = n mod 10"
      using 1(1) [of "n div 10"] False digit_inj [of "m mod 10" "n mod 10"] by simp_all
    then show ?thesis by (metis div_mult_mod_eq)
  qed
qed

lemma show_int_inj: "show_int i = show_int j \<Longrightarrow> i = j"
proof -
  assume eq: "show_int i = show_int j"
  have no: "show_nat n \<noteq> CHR ''-'' # s" for n s
  proof
    assume "show_nat n = CHR ''-'' # s"
    then have "CHR ''-'' \<in> set (show_nat n)" by simp
    with show_nat_digits [of n] have "CHR ''-'' \<in> set ''0123456789''" by (rule subsetD)
    then show False by simp
  qed
  show "i = j"
    using eq no [of "nat i"] not_sym [OF no [of "nat j"]] by (auto simp: show_int_def dest!: show_nat_inj split: if_splits)
qed

lemma show_int_no_colon: "CHR '':'' \<notin> set (show_int i)"
  using show_nat_digits [of "nat i"] show_nat_digits [of "nat (- i)"] by (auto simp: show_int_def)

lemma split_at_last:
  assumes "xs @ c # ys = xs' @ c # ys'" "c \<notin> set ys" "c \<notin> set ys'"
  shows "xs = xs' \<and> ys = ys'"
  using assms by (auto simp: append_eq_append_conv2 Cons_eq_append_conv append_eq_Cons_conv)

text \<open>\<open>encoding/hex\<close>.\<close>

definition hex_digit :: "nat \<Rightarrow> char" where
  "hex_digit n = ''0123456789abcdef'' ! n"

definition hex_encode :: "string \<Rightarrow> string" where
  "hex_encode bs = concat (map (\<lambda>b. [hex_digit (of_char b div 16), hex_digit (of_char b mod 16)]) bs)"

subsection \<open>Error values\<close>

text \<open>
  Every sentinel of the platform is a constructor, as is the provider error struct; \<open>errors.New\<close> and
  \<open>fmt.Errorf\<close> without \<open>%w\<close> make an \<open>ErrMsg\<close>, \<open>fmt.Errorf("prefix: %w", err)\<close> an \<open>ErrWrap\<close>.
  A run-time panic that unwinds the calling function is the value \<open>GoPanic\<close>.
\<close>

datatype go_error =
    ErrMsg string
  | ErrWrap string go_error
  | ErrNotFound
  | ErrConflict
  | ErrAlreadyFinal
  | ErrModelForbidden
  | ErrExceeded
  | ErrNoEligibleProvider
  | ErrInvalidKey
  | ErrExpiredKey
  | ErrRevokedKey
  | ErrScope
  | ErrNotRetryable
  | CtxCanceled
  | CtxDeadlineExceeded
  | NetError bool
  | ProviderError (pe_provider: string) (pe_category: string) (pe_status: int)
      (pe_retryable: bool) (pe_partial: bool) (pe_cause: "go_error option")
  | GoPanic string

text \<open>\<open>errors.Is\<close> and \<open>errors.As\<close> walk the \<open>Unwrap\<close> chain.\<close>

fun errors_is :: "go_error \<Rightarrow> go_error \<Rightarrow> bool" where
  "errors_is (ErrWrap m e) t = (ErrWrap m e = t \<or> errors_is e t)"
| "errors_is (ProviderError p c s r pa (Some e)) t =
     (ProviderError p c s r pa (Some e) = t \<or> errors_is e t)"
| "errors_is e t = (e = t)"

fun errors_as_provider :: "go_error \<Rightarrow> go_error option" where
  "errors_as_provider (ProviderError p c s r pa e) = Some (ProviderError p c s r pa e)"
| "errors_as_provider (ErrWrap m e) = errors_as_provider e"
| "errors_as_provider e = None"

text \<open>\<open>errors.As\<close> for \<open>net.Error\<close>: the \<open>Timeout()\<close> of the first network error of the chain.\<close>

fun errors_as_net :: "go_error \<Rightarrow> bool option" where
  "errors_as_net (NetError timeout) = Some timeout"
| "errors_as_net CtxDeadlineExceeded = Some True"
| "errors_as_net (ErrWrap m e) = errors_as_net e"
| "errors_as_net (ProviderError p c s r pa (Some e)) = errors_as_net e"
| "errors_as_net e = None"

fun error_text :: "go_error \<Rightarrow> string" where
  "error_text (ErrMsg m) = m"
| "error_text (ErrWrap m e) = m @ '': '' @ error_text e"
| "error_text ErrNotFound = ''record not found''"
| "error_text ErrConflict = ''idempotency key payload conflict''"
| "error_text ErrAlreadyFinal = ''request already finalized''"
| "error_text ErrModelForbidden = ''model is not enabled for tenant''"
| "error_text ErrExceeded = ''tenant budget exceeded''"
| "error_text ErrNoEligibleProvider = ''no eligible provider''"
| "error_text ErrInvalidKey = ''invalid API key''"
| "error_text ErrExpiredKey = ''API key expired''"
| "error_text ErrRevokedKey = ''API key revoked''"
| "error_text ErrScope = ''API key scope denied''"
| "error_text ErrNotRetryable = ''evaluation job is not retryable''"
| "error_text CtxCanceled = ''context canceled''"
| "error_text CtxDeadlineExceeded = ''context deadline exceeded''"
| "error_text (NetError t) = ''network error''"
| "error_text (ProviderError p c s r pa e) = ''provider '' @ p @ '': '' @ c"
| "error_text (GoPanic m) = m"

fun is_panic :: "go_error \<Rightarrow> bool" where
  "is_panic (GoPanic m) = True"
| "is_panic e = False"

lemma errors_is_refl [simp, go_errors]: "errors_is e e"
  by (cases "(e, e)" rule: errors_is.cases) auto

end
