(* ===== verification/Budget.thy ===== *)
theory Budget
  imports Aegis_Prelude
begin

text \<open>
  The package \<open>internal/budget\<close>: the price of a call in micro-USD (\<open>cost_micro_usd\<close>) and the
  reservation decision (\<open>can_reserve\<close>). The lemmas give the exact arithmetic of both: the cost is the
  price rounded up, with overflow reported and never wrapped, and it is monotone in usage and price;
  a reservation is granted exactly when the sum fits in the limit, although the code only subtracts.
\<close>

definition tokens_per_price_unit :: int where
  "tokens_per_price_unit = 1000000"

definition cost_micro_usd :: "int \<Rightarrow> int \<Rightarrow> int \<Rightarrow> int \<Rightarrow> go_error + int" where
  "cost_micro_usd prompt_tokens completion_tokens input_price output_price =
     (if prompt_tokens < 0 \<or> completion_tokens < 0 \<or> input_price < 0 \<or> output_price < 0
      then Inl (ErrMsg ''tokens and prices must not be negative'')
      else
        let input = prompt_tokens * input_price;
            output = completion_tokens * output_price;
            tot = input + output;
            quotient = go_quo tot tokens_per_price_unit;
            remainder = go_rem tot tokens_per_price_unit;
            quotient' = (if remainder > 0 then quotient + 1 else quotient)
        in if \<not> in_i64 quotient' then Inl (ErrMsg ''calculated cost exceeds supported range'')
           else Inr quotient')"

definition can_reserve :: "int \<Rightarrow> int \<Rightarrow> int \<Rightarrow> int \<Rightarrow> go_error option" where
  "can_reserve limit committed active_reservations requested =
     (if limit = 0 then None
      else if limit < 0 \<or> committed < 0 \<or> active_reservations < 0 \<or> requested < 0
      then Some (ErrMsg ''budget values must not be negative'')
      else if requested > limit \<or> committed > i64 (limit - requested)
           \<or> active_reservations > i64 (i64 (limit - requested) - committed)
      then Some ErrExceeded
      else None)"

subsection \<open>The specification of a price\<close>

text \<open>The exact price in millionths of a micro-USD, and its ceiling.\<close>

definition exact_price :: "int \<Rightarrow> int \<Rightarrow> int \<Rightarrow> int \<Rightarrow> int" where
  "exact_price p c ip op = p * ip + c * op"

definition ceil_price :: "int \<Rightarrow> int" where
  "ceil_price tot = (tot + 999999) div 1000000"

lemma ceil_div_round_up:
  assumes "0 < (d::int)"
  shows "(if t mod d > 0 then t div d + 1 else t div d) = (t + (d - 1)) div d"
proof -
  have "t + (d - 1) = (t mod d + (d - 1)) + (t div d) * d"
    using div_mult_mod_eq [of t d] by linarith
  then have "(t + (d - 1)) div d = ((t mod d + (d - 1)) + (t div d) * d) div d"
    by (rule arg_cong)
  also have "\<dots> = t div d + (t mod d + (d - 1)) div d"
    using assms by (intro div_mult_self1) simp
  also have "(t mod d + (d - 1)) div d = (if t mod d > 0 then 1 else 0)"
    using assms pos_mod_bound [OF assms, of t] pos_mod_sign [OF assms, of t]
    by (auto simp: div_pos_pos_trivial int_div_pos_eq)
  finally show ?thesis by simp
qed

lemma ceil_div_bounds:
  assumes "0 < (d::int)"
  shows "t \<le> (t + (d - 1)) div d * d" "((t + (d - 1)) div d - 1) * d < t"
proof -
  let ?q = "(t + (d - 1)) div d"
  have "?q * d + (t + (d - 1)) mod d = t + (d - 1)" by simp
  moreover have "0 \<le> (t + (d - 1)) mod d" "(t + (d - 1)) mod d < d" using assms by simp_all
  ultimately show "t \<le> ?q * d" "(?q - 1) * d < t"
    unfolding left_diff_distrib by linarith+
qed

lemma ceil_price_round_up:
  "(if tot mod 1000000 > 0 then tot div 1000000 + 1 else tot div 1000000) = ceil_price tot"
  using ceil_div_round_up [of 1000000 tot] by (simp add: ceil_price_def)

lemma ceil_price_nonneg: "0 \<le> tot \<Longrightarrow> 0 \<le> ceil_price tot"
  by (simp add: ceil_price_def)

lemma ceil_price_mono: "a \<le> b \<Longrightarrow> ceil_price a \<le> ceil_price b"
  unfolding ceil_price_def by (intro zdiv_mono1) simp_all

lemma ceil_price_bounds:
  "tot \<le> ceil_price tot * 1000000" "(ceil_price tot - 1) * 1000000 < tot"
  using ceil_div_bounds [of 1000000 tot] by (simp_all add: ceil_price_def)

lemma exact_price_nonneg:
  "0 \<le> p \<Longrightarrow> 0 \<le> c \<Longrightarrow> 0 \<le> ip \<Longrightarrow> 0 \<le> op \<Longrightarrow> 0 \<le> exact_price p c ip op"
  by (simp add: exact_price_def)

lemma exact_price_mono:
  assumes "0 \<le> p" "p \<le> p'" "0 \<le> c" "c \<le> c'" "0 \<le> ip" "ip \<le> ip'" "0 \<le> op" "op \<le> op'"
  shows "exact_price p c ip op \<le> exact_price p' c' ip' op'"
  unfolding exact_price_def using assms by (intro add_mono mult_mono) auto

lemma cost_micro_usd_eq:
  "cost_micro_usd p c ip op =
     (if p < 0 \<or> c < 0 \<or> ip < 0 \<or> op < 0
      then Inl (ErrMsg ''tokens and prices must not be negative'')
      else if ceil_price (exact_price p c ip op) \<le> max_int64
      then Inr (ceil_price (exact_price p c ip op))
      else Inl (ErrMsg ''calculated cost exceeds supported range''))"
proof (cases "p < 0 \<or> c < 0 \<or> ip < 0 \<or> op < 0")
  case True
  then show ?thesis by (simp add: cost_micro_usd_def)
next
  case False
  define tot where "tot = exact_price p c ip op"
  have nonneg: "0 \<le> tot" using False by (simp add: tot_def exact_price_nonneg)
  have rounded: "(if go_rem tot 1000000 > 0 then go_quo tot 1000000 + 1 else go_quo tot 1000000)
      = ceil_price tot"
    using nonneg by (simp add: go_rem_nonneg go_quo_nonneg flip: ceil_price_round_up)
  have "in_i64 (ceil_price tot) \<longleftrightarrow> ceil_price tot \<le> max_int64"
    using ceil_price_nonneg [OF nonneg] by (auto simp: in_i64_def max_int64_def)
  moreover have "cost_micro_usd p c ip op =
      (if \<not> in_i64 (ceil_price tot) then Inl (ErrMsg ''calculated cost exceeds supported range'')
       else Inr (ceil_price tot))"
    unfolding cost_micro_usd_def tokens_per_price_unit_def Let_def
      exact_price_def [symmetric] tot_def [symmetric] rounded
    using False by (simp only: if_False)
  ultimately show ?thesis using False by (simp add: tot_def)
qed

lemma cost_micro_usd_InrD:
  assumes "cost_micro_usd p c ip op = Inr v"
  shows "0 \<le> p" "0 \<le> c" "0 \<le> ip" "0 \<le> op" "v = ceil_price (exact_price p c ip op)" "0 \<le> v"
    "v \<le> max_int64"
  using assms by (auto simp: cost_micro_usd_eq ceil_price_nonneg exact_price_nonneg split: if_splits)

lemma cost_micro_usd_dominates:
  assumes "cost_micro_usd p' c' ip' op' = Inr v'"
    and "0 \<le> p" "p \<le> p'" "0 \<le> c" "c \<le> c'" "0 \<le> ip" "ip \<le> ip'" "0 \<le> op" "op \<le> op'"
  shows "\<exists>v. cost_micro_usd p c ip op = Inr v \<and> v \<le> v'"
proof -
  have "ceil_price (exact_price p c ip op) \<le> ceil_price (exact_price p' c' ip' op')"
    using assms(2-9) by (intro ceil_price_mono exact_price_mono)
  with cost_micro_usd_InrD [OF assms(1)] assms(2-9) show ?thesis
    by (auto simp: cost_micro_usd_eq)
qed

subsection \<open>The specification of a reservation\<close>

lemma can_reserve_eq:
  assumes "in_i64 limit" "in_i64 committed" "in_i64 active" "in_i64 requested"
  shows "can_reserve limit committed active requested =
     (if limit = 0 then None
      else if limit < 0 \<or> committed < 0 \<or> active < 0 \<or> requested < 0
      then Some (ErrMsg ''budget values must not be negative'')
      else if committed + active + requested \<le> limit then None
      else Some ErrExceeded)"
proof (cases "limit \<le> 0 \<or> committed < 0 \<or> active < 0 \<or> requested < 0 \<or> requested > limit")
  case True
  then show ?thesis by (auto simp: can_reserve_def)
next
  case False
  then have "in_i64 (limit - requested)" "in_i64 (limit - requested - committed)"
    using assms by (auto simp: in_i64_def)
  with False show ?thesis by (auto simp: can_reserve_def)
qed

text \<open>
  C20. The price of a call is its exact price \<open>prompt * inputPrice + completion * outputPrice\<close> divided by
  one million and rounded up: an accepted cost \<open>v\<close> satisfies \<open>(v - 1) * 10^6 < exact \<le> v * 10^6\<close>. It
  is returned whenever no argument is negative and the rounded price is an \<open>int64\<close>, and it is an error
  in every other case; the arithmetic never wraps.
\<close>

theorem cost_is_rounded_up_price:
  "(\<exists>v. cost_micro_usd p c ip op = Inr v
      \<and> (v - 1) * 1000000 < exact_price p c ip op \<and> exact_price p c ip op \<le> v * 1000000
      \<and> 0 \<le> v \<and> v \<le> max_int64
      \<and> 0 \<le> p \<and> 0 \<le> c \<and> 0 \<le> ip \<and> 0 \<le> op)
   \<or> ((\<exists>e. cost_micro_usd p c ip op = Inl e)
      \<and> (p < 0 \<or> c < 0 \<or> ip < 0 \<or> op < 0 \<or> max_int64 * 1000000 < exact_price p c ip op))"
proof (cases "cost_micro_usd p c ip op")
  case (Inr v)
  note facts = cost_micro_usd_InrD [OF Inr]
  show ?thesis
    using Inr facts ceil_price_bounds [of "exact_price p c ip op"] by simp
next
  case (Inl e)
  show ?thesis
  proof (cases "p < 0 \<or> c < 0 \<or> ip < 0 \<or> op < 0")
    case True
    with Inl show ?thesis by auto
  next
    case False
    with Inl have "max_int64 < ceil_price (exact_price p c ip op)"
      by (auto simp: cost_micro_usd_eq split: if_splits)
    then have "max_int64 * 1000000 \<le> (ceil_price (exact_price p c ip op) - 1) * 1000000" by simp
    also note ceil_price_bounds(2) [of "exact_price p c ip op"]
    finally have "max_int64 * 1000000 < exact_price p c ip op" .
    with Inl show ?thesis by simp
  qed
qed

text \<open>
  C37. For a tenant with a positive limit and \<open>int64\<close> arguments, a reservation is admitted exactly when
  committed usage, active reservations and the request are non-negative and together fit in the limit,
  and is refused with \<open>ErrExceeded\<close> exactly when they are non-negative and do not fit: the three
  comparisons of the code, which never add, decide the sum without overflow.
\<close>

theorem can_reserve_decides_sum:
  assumes "in_i64 limit" "in_i64 committed" "in_i64 active" "in_i64 requested" "0 < limit"
  shows "(can_reserve limit committed active requested = None \<longleftrightarrow>
            0 \<le> committed \<and> 0 \<le> active \<and> 0 \<le> requested \<and> committed + active + requested \<le> limit)
       \<and> (can_reserve limit committed active requested = Some ErrExceeded \<longleftrightarrow>
            0 \<le> committed \<and> 0 \<le> active \<and> 0 \<le> requested \<and> limit < committed + active + requested)"
  using assms(5) by (auto simp: can_reserve_eq [OF assms(1-4)])

theorem can_reserve_decides_sum_witness:
  "can_reserve 100 40 30 30 = None
   \<and> can_reserve 9223372036854775807 9223372036854775807 9223372036854775807 9223372036854775807
       = Some ErrExceeded"
proof -
  have "can_reserve 100 40 30 30 = None"
    using can_reserve_decides_sum [of 100 40 30 30] by (simp add: in_i64_def)
  moreover have "can_reserve 9223372036854775807 9223372036854775807 9223372036854775807
      9223372036854775807 = Some ErrExceeded"
    using can_reserve_decides_sum
      [of 9223372036854775807 9223372036854775807 9223372036854775807 9223372036854775807]
    by (simp add: in_i64_def)
  ultimately show ?thesis ..
qed

end
