(* ===== verification/Go_Text.thy ===== *)
theory Go_Text
  imports Aegis_Prelude
begin

text \<open>
  Text processing of Go's standard library beyond the prelude: \<open>strings.Fields\<close>, the UTF-8 conversion
  between a string and its \<open>[]rune\<close>, \<open>strings.ToLower\<close>, \<open>strings.Contains\<close> and \<open>strings.HasSuffix\<close>. The
  Unicode table of \<open>unicode.ToLower\<close> is a parameter; on ASCII text it is not consulted.
\<close>

text \<open>\<open>strings.Fields\<close>: the maximal runs of bytes between encodings of white space.\<close>

function fields_from :: "string \<Rightarrow> string \<Rightarrow> string list" where
  "fields_from cur [] = (if cur = [] then [] else [rev cur])"
| "fields_from cur (c # cs) =
     (case find (\<lambda>e. e \<noteq> [] \<and> is_prefix_of e (c # cs)) space_encodings of
        None \<Rightarrow> fields_from (c # cur) cs
      | Some e \<Rightarrow> (if cur = [] then [] else [rev cur]) @ fields_from [] (drop (length e) (c # cs)))"
  by pat_completeness auto
termination
proof (relation "measure (\<lambda>(cur, s). length s)")
  fix cur c cs e
  assume "find (\<lambda>e. e \<noteq> [] \<and> is_prefix_of e (c # cs)) space_encodings = Some e"
  then have "e \<noteq> []" by (auto simp: find_Some_iff)
  then show "(([], drop (length e) (c # cs)), (cur, c # cs)) \<in> measure (\<lambda>(cur, s). length s)"
    by (cases e) auto
qed simp_all

declare fields_from.simps [simp del]

definition str_fields :: "string \<Rightarrow> string list" where
  "str_fields s = fields_from [] s"

subsection \<open>Runes\<close>

type_synonym rune = nat

definition rune_error :: rune where "rune_error = 0xFFFD"

definition continuation :: "nat \<Rightarrow> nat \<Rightarrow> nat \<Rightarrow> bool" where
  "continuation lo hi b \<longleftrightarrow> lo \<le> b \<and> b \<le> hi"

text \<open>
  \<open>utf8.DecodeRune\<close> of a non-empty byte sequence: the code point and its width. Whatever is not the
  shortest encoding of a code point outside the surrogates is \<open>RuneError\<close> of width one.
\<close>

definition second_byte_range :: "nat \<Rightarrow> nat \<times> nat" where
  "second_byte_range b =
     (if b = 0xE0 then (0xA0, 0xBF) else if b = 0xED then (0x80, 0x9F)
      else if b = 0xF0 then (0x90, 0xBF) else if b = 0xF4 then (0x80, 0x8F) else (0x80, 0xBF))"

fun decode_rune :: "nat list \<Rightarrow> rune \<times> nat" where
  "decode_rune [] = (rune_error, 0)"
| "decode_rune (b # bs) =
     (if b < 0x80 then (b, 1)
      else if 0xC2 \<le> b \<and> b \<le> 0xDF then
        (case bs of
           c1 # _ \<Rightarrow> if continuation 0x80 0xBF c1 then ((b - 0xC0) * 64 + (c1 - 0x80), 2) else (rune_error, 1)
         | _ \<Rightarrow> (rune_error, 1))
      else if 0xE0 \<le> b \<and> b \<le> 0xEF then
        (case bs of
           c1 # c2 # _ \<Rightarrow>
             if continuation (fst (second_byte_range b)) (snd (second_byte_range b)) c1 \<and> continuation 0x80 0xBF c2
             then ((b - 0xE0) * 4096 + (c1 - 0x80) * 64 + (c2 - 0x80), 3) else (rune_error, 1)
         | _ \<Rightarrow> (rune_error, 1))
      else if 0xF0 \<le> b \<and> b \<le> 0xF4 then
        (case bs of
           c1 # c2 # c3 # _ \<Rightarrow>
             if continuation (fst (second_byte_range b)) (snd (second_byte_range b)) c1
               \<and> continuation 0x80 0xBF c2 \<and> continuation 0x80 0xBF c3
             then ((b - 0xF0) * 262144 + (c1 - 0x80) * 4096 + (c2 - 0x80) * 64 + (c3 - 0x80), 4) else (rune_error, 1)
         | _ \<Rightarrow> (rune_error, 1))
      else (rune_error, 1))"

declare decode_rune.simps [simp del]

lemma decode_rune_width: "bs \<noteq> [] \<Longrightarrow> 0 < snd (decode_rune bs)"
  by (cases bs) (auto simp: decode_rune.simps split: list.splits if_splits)

text \<open>The conversion \<open>[]rune(s)\<close>, on the bytes of the string.\<close>

function runes_of :: "nat list \<Rightarrow> rune list" where
  "runes_of [] = []"
| "runes_of (b # bs) = fst (decode_rune (b # bs)) # runes_of (drop (snd (decode_rune (b # bs))) (b # bs))"
  by pat_completeness auto
termination
proof (relation "measure length")
  fix b :: nat and bs
  show "(drop (snd (decode_rune (b # bs))) (b # bs), b # bs) \<in> measure length"
    using decode_rune_width [of "b # bs"] by simp
qed simp

declare runes_of.simps(2) [simp del]

definition runes :: "string \<Rightarrow> rune list" where
  "runes s = runes_of (map of_char s)"

definition encode_rune :: "rune \<Rightarrow> nat list" where
  "encode_rune r =
     (if r < 0x80 then [r]
      else if r < 0x800 then [0xC0 + r div 64, 0x80 + r mod 64]
      else if r < 0x10000 \<and> \<not> (0xD800 \<le> r \<and> r \<le> 0xDFFF)
        then [0xE0 + r div 4096, 0x80 + r div 64 mod 64, 0x80 + r mod 64]
      else if 0x10000 \<le> r \<and> r \<le> 0x10FFFF
        then [0xF0 + r div 262144, 0x80 + r div 4096 mod 64, 0x80 + r div 64 mod 64, 0x80 + r mod 64]
      else [0xEF, 0xBF, 0xBD])"

definition string_of_runes :: "rune list \<Rightarrow> string" where
  "string_of_runes rs = map char_of (concat (map encode_rune rs))"

text \<open>The code points that have an encoding.\<close>

definition valid_rune :: "rune \<Rightarrow> bool" where
  "valid_rune r \<longleftrightarrow> r \<le> 0x10FFFF \<and> \<not> (0xD800 \<le> r \<and> r \<le> 0xDFFF)"

lemma decode_rune_valid: "bs \<noteq> [] \<Longrightarrow> valid_rune (fst (decode_rune bs))"
  by (cases bs)
    (auto simp: decode_rune.simps valid_rune_def rune_error_def continuation_def second_byte_range_def
      split: list.splits if_splits)

lemma runes_of_valid: "r \<in> set (runes_of bs) \<Longrightarrow> valid_rune r"
proof (induction bs rule: runes_of.induct)
  case (2 b bs)
  then show ?case using decode_rune_valid [of "b # bs"] by (auto simp: runes_of.simps)
qed simp

lemma runes_valid: "r \<in> set (runes s) \<Longrightarrow> valid_rune r"
  by (auto simp: runes_def intro: runes_of_valid)

lemma runes_of_append:
  assumes "bs \<noteq> []" "\<And>rest. decode_rune (bs @ rest) = (r, length bs)"
  shows "runes_of (bs @ rest) = r # runes_of rest"
  using assms by (cases bs) (simp_all add: runes_of.simps)

lemma base64_digits:
  fixes r :: nat
  obtains a b c d where "r mod 64 = d" "r div 64 mod 64 = c" "r div 4096 mod 64 = b" "r div 4096 = a * 64 + b"
    "r div 262144 = a" "r = a * 262144 + b * 4096 + c * 64 + d" "b < 64" "c < 64" "d < 64" "r div 64 = a * 4096 + b * 64 + c"
proof -
  have 1: "r = r div 64 * 64 + r mod 64" "r div 64 = r div 4096 * 64 + r div 64 mod 64"
    "r div 4096 = r div 262144 * 64 + r div 4096 mod 64"
    using div_mult_mod_eq [of r 64] div_mult_mod_eq [of "r div 64" 64] div_mult_mod_eq [of "r div 4096" 64]
    by (simp_all flip: div_mult2_eq)
  then have 2: "r = r div 262144 * 262144 + r div 4096 mod 64 * 4096 + r div 64 mod 64 * 64 + r mod 64"
    "r div 64 = r div 262144 * 4096 + r div 4096 mod 64 * 64 + r div 64 mod 64" by linarith+
  show thesis by (rule that [OF refl refl refl 1(3) refl 2(1) _ _ _ 2(2)]) simp_all
qed

lemma decode_encode_rune:
  assumes "valid_rune r"
  shows "decode_rune (encode_rune r @ rest) = (r, length (encode_rune r))"
proof -
  obtain a b c d where dig: "r mod 64 = d" "r div 64 mod 64 = c" "r div 4096 mod 64 = b" "r div 4096 = a * 64 + b"
    "r div 262144 = a" "r = a * 262144 + b * 4096 + c * 64 + d" "b < 64" "c < 64" "d < 64" "r div 64 = a * 4096 + b * 64 + c"
    by (rule base64_digits)
  consider "r < 0x80" | "0x80 \<le> r" "r < 0x800" | "0x800 \<le> r" "r < 0x10000" | "0x10000 \<le> r" by linarith
  then show ?thesis
  proof cases
    case 1
    then show ?thesis by (simp add: encode_rune_def decode_rune.simps)
  next
    case 2
    then have ab: "a = 0" "b = 0" using dig(6) by linarith+
    with 2 dig(6,9) have "2 \<le> c" "c \<le> 31" by linarith+
    with ab 2 dig show ?thesis by (simp add: encode_rune_def decode_rune.simps continuation_def)
  next
    case 3
    then have a: "a = 0" using dig(6) by linarith
    with 3 dig(6,8,9) assms have "b \<le> 15" "b = 0 \<Longrightarrow> 32 \<le> c" "b = 13 \<Longrightarrow> c \<le> 31"
      unfolding valid_rune_def by linarith+
    with a 3 assms dig(1-4,7-9) dig(6) [symmetric] show ?thesis
      by (auto simp: encode_rune_def decode_rune.simps continuation_def second_byte_range_def valid_rune_def)
  next
    case 4
    then have "a \<le> 4" "a = 0 \<Longrightarrow> 16 \<le> b" "a = 4 \<Longrightarrow> b \<le> 15"
      using dig(6-9) assms unfolding valid_rune_def by linarith+
    with 4 assms dig(1-3,5,7-9) dig(6) [symmetric] show ?thesis
      by (auto simp: encode_rune_def decode_rune.simps continuation_def second_byte_range_def valid_rune_def)
  qed
qed

lemma encode_rune_bytes: "\<forall>b \<in> set (encode_rune r). b < 256"
proof -
  consider "r < 0x80" | "0x80 \<le> r" "r < 0x800" | "0x800 \<le> r" "r < 0x10000" | "0x10000 \<le> r" "r \<le> 0x10FFFF" | "0x10FFFF < r"
    by linarith
  then show ?thesis
  proof cases
    case 4
    then have "r div 262144 \<le> 4" using div_le_mono [of r "0x10FFFF" 262144] by simp
    with 4 show ?thesis by (auto simp: encode_rune_def)
  qed (auto simp: encode_rune_def)
qed

lemma runes_of_encode: "\<forall>r \<in> set rs. valid_rune r \<Longrightarrow> runes_of (concat (map encode_rune rs)) = rs"
proof (induction rs)
  case (Cons r rs)
  have "encode_rune r \<noteq> []" by (simp add: encode_rune_def)
  with Cons show ?case by (simp add: runes_of_append [OF _ decode_encode_rune])
qed simp

text \<open>Converting runes to a string and back gives the runes.\<close>

lemma runes_string_of_runes:
  assumes "\<forall>r \<in> set rs. valid_rune r"
  shows "runes (string_of_runes rs) = rs"
proof -
  have "map (of_char \<circ> char_of) (concat (map encode_rune rs)) = concat (map encode_rune rs)"
    using encode_rune_bytes by (intro map_idI) (auto simp: of_char_of)
  then show ?thesis
    using runes_of_encode [OF assms] by (simp add: runes_def string_of_runes_def)
qed

subsection \<open>Case, substrings and suffixes\<close>

definition lower_ascii :: "rune \<Rightarrow> rune" where
  "lower_ascii r = (if 65 \<le> r \<and> r \<le> 90 then r + 32 else r)"

text \<open>\<open>strings.ToLower\<close>; \<open>lower\<close> is \<open>unicode.ToLower\<close> outside ASCII.\<close>

definition to_lower :: "(rune \<Rightarrow> rune) \<Rightarrow> string \<Rightarrow> string" where
  "to_lower lower s =
     (if \<forall>c \<in> set s. of_char c < (128::nat) then map (\<lambda>c. char_of (lower_ascii (of_char c))) s
      else string_of_runes (map (\<lambda>r. if r < 128 then lower_ascii r else lower r) (runes s)))"

fun contains :: "string \<Rightarrow> string \<Rightarrow> bool" where
  "contains [] sub = (sub = [])"
| "contains (c # s) sub = (is_prefix_of sub (c # s) \<or> contains s sub)"

lemma contains_iff: "contains s sub \<longleftrightarrow> (\<exists>a b. s = a @ sub @ b)"
proof (induction s)
  case (Cons c s)
  have "(\<exists>a b. c # s = a @ sub @ b) \<longleftrightarrow> (\<exists>b. c # s = sub @ b) \<or> (\<exists>a b. s = a @ sub @ b)"
    by (auto simp: Cons_eq_append_conv)
  with Cons show ?case by (simp add: is_prefix_of_iff)
qed auto

definition has_suffix :: "string \<Rightarrow> string \<Rightarrow> bool" where
  "has_suffix s suffix \<longleftrightarrow> is_prefix_of (rev suffix) (rev s)"

end
