(* ===== verification/Go_Json.thy ===== *)
theory Go_Json
  imports Go_Text
begin

text \<open>
  JSON values and how \<open>encoding/json\<close> decodes an object into a struct. A document is the value it denotes; a
  \<open>json.RawMessage\<close> is an optional value, \<^const>\<open>None\<close> for a text that is not valid JSON. An integer literal
  is a \<open>JInt\<close>, a literal with a fraction or an exponent a \<open>JFloat\<close>.
\<close>

datatype json =
    JNull
  | JBool bool
  | JInt int
  | JFloat rat
  | JString string
  | JArray "json list"
  | JObject "(string \<times> json) list"

type_synonym raw_message = "json option"

text \<open>
  A member sets the field whose name its key equals up to simple case folding; among the runes outside
  ASCII only the long s and the Kelvin sign fold to an ASCII letter.
\<close>

definition fold_rune :: "rune \<Rightarrow> rune" where
  "fold_rune r = (if r = 0x17F then 115 else if r = 0x212A then 107 else lower_ascii r)"

definition same_key :: "string \<Rightarrow> string \<Rightarrow> bool" where
  "same_key a b \<longleftrightarrow> map fold_rune (runes a) = map fold_rune (runes b)"

text \<open>
  Decoding one member into a variable of Go type \<open>int64\<close>, \<open>string\<close> or \<open>[]string\<close>: \<open>null\<close> leaves it alone, a
  value of another kind or out of range is an error.
\<close>

definition set_int :: "json \<Rightarrow> int \<Rightarrow> go_error + int" where
  "set_int v old =
     (case v of
        JNull \<Rightarrow> Inr old
      | JInt i \<Rightarrow> if in_i64 i then Inr i else Inl (ErrMsg ''json: cannot unmarshal number into int64'')
      | _ \<Rightarrow> Inl (ErrMsg ''json: cannot unmarshal into int64''))"

definition set_string :: "json \<Rightarrow> string \<Rightarrow> go_error + string" where
  "set_string v old =
     (case v of
        JNull \<Rightarrow> Inr old
      | JString s \<Rightarrow> Inr s
      | _ \<Rightarrow> Inl (ErrMsg ''json: cannot unmarshal into string''))"

text \<open>
  The members of an object that set the field \<open>name\<close>, applied in order from the value \<open>old\<close>. An ill-typed
  member is skipped and its error reported at the end.
\<close>

fun set_field :: "(json \<Rightarrow> 'a \<Rightarrow> go_error + 'a) \<Rightarrow> string \<Rightarrow> (string \<times> json) list \<Rightarrow> 'a \<Rightarrow> 'a \<times> go_error option" where
  "set_field setter name [] old = (old, None)"
| "set_field setter name ((key, v) # members) old =
     (if same_key key name
      then case setter v old of
             Inr new \<Rightarrow> set_field setter name members new
           | Inl e \<Rightarrow> (case set_field setter name members old of (x, _) \<Rightarrow> (x, Some e))
      else set_field setter name members old)"

text \<open>The members of the value that is decoded into a struct; \<open>null\<close> has none.\<close>

definition members_of :: "json \<Rightarrow> go_error + (string \<times> json) list" where
  "members_of v =
     (case v of
        JNull \<Rightarrow> Inr []
      | JObject ms \<Rightarrow> Inr ms
      | _ \<Rightarrow> Inl (ErrMsg ''json: cannot unmarshal into struct''))"

lemma set_field_single: "same_key key name \<Longrightarrow> setter v old = Inr new \<Longrightarrow> set_field setter name [(key, v)] old = (new, None)"
  by simp

lemma same_key_refl [simp]: "same_key a a"
  by (simp add: same_key_def)

text \<open>Keys of lower case ASCII letters, digits and signs fold to themselves.\<close>

definition plain_char :: "char \<Rightarrow> bool" where
  "plain_char c \<longleftrightarrow> of_char c < (128 :: nat) \<and> \<not> (65 \<le> (of_char c :: nat) \<and> of_char c \<le> (90 :: nat))"

lemma runes_ascii: "\<forall>c \<in> set s. of_char c < (128 :: nat) \<Longrightarrow> runes s = map of_char s"
proof (induction s)
  case (Cons c s)
  then show ?case by (simp add: runes_def runes_of.simps(2) decode_rune.simps)
qed (simp add: runes_def)

lemma fold_plain: "list_all plain_char s \<Longrightarrow> map fold_rune (runes s) = map of_char s"
  by (subst runes_ascii) (auto simp: list_all_iff plain_char_def fold_rune_def lower_ascii_def)

lemma same_key_plain:
  assumes "list_all plain_char a" "list_all plain_char b"
  shows "same_key a b \<longleftrightarrow> a = b"
  using assms by (simp add: same_key_def fold_plain inj_map_eq_map inj_def)

end
