(* ===== verification/Request.thy ===== *)
theory Request
  imports Go_Json
begin

text \<open>
  The package \<open>internal/request\<close>: the states of a logical request and its transition table, the chat
  input with its validation, and the response and record types; and \<open>internal/idempotency\<close>, the
  canonical hash of a chat input. \<open>encoding/json\<close>'s encoder of a chat input and the digest
  \<open>sha256.Sum256\<close> are parameters of \<open>hash_chat\<close>.
\<close>

subsection \<open>The state machine\<close>

datatype req_state =
    Received | Validated | Routing | InProgress
  | Completed | Failed | Cancelled | BudgetRejected

fun state_text :: "req_state \<Rightarrow> string" where
  "state_text Received = ''RECEIVED''"
| "state_text Validated = ''VALIDATED''"
| "state_text Routing = ''ROUTING''"
| "state_text InProgress = ''IN_PROGRESS''"
| "state_text Completed = ''COMPLETED''"
| "state_text Failed = ''FAILED''"
| "state_text Cancelled = ''CANCELLED''"
| "state_text BudgetRejected = ''BUDGET_REJECTED''"

fun allowed_transitions :: "req_state \<Rightarrow> req_state list" where
  "allowed_transitions Received = [Validated, Failed, Cancelled]"
| "allowed_transitions Validated = [Routing, BudgetRejected, Failed, Cancelled]"
| "allowed_transitions Routing = [InProgress, Failed, Cancelled]"
| "allowed_transitions InProgress = [Completed, Failed, Cancelled]"
| "allowed_transitions _ = []"

definition can_transition :: "req_state \<Rightarrow> req_state \<Rightarrow> bool" where
  "can_transition current next \<longleftrightarrow> next \<in> set (allowed_transitions current)"

definition transition :: "req_state \<Rightarrow> req_state \<Rightarrow> go_error option" where
  "transition current next =
     (if \<not> can_transition current next
      then Some (ErrMsg (''invalid request transition '' @ state_text current @ '' -> '' @ state_text next))
      else None)"

definition terminal :: "req_state \<Rightarrow> bool" where
  "terminal s \<longleftrightarrow> s \<in> {Completed, Failed, Cancelled, BudgetRejected}"

subsection \<open>Chat input\<close>

record message =
  msg_role :: string
  msg_content :: string

record chat_input =
  ci_model :: string
  ci_messages :: "message list"
  ci_temperature :: "rat option"
  ci_max_tokens :: int
  ci_stream :: bool
  ci_metadata :: "(string \<times> json) list option"

fun validate_messages :: "nat \<Rightarrow> message list \<Rightarrow> go_error option" where
  "validate_messages index [] = None"
| "validate_messages index (m # ms) =
     (if msg_role m \<notin> {''system'', ''user'', ''assistant'', ''tool''}
      then Some (ErrMsg (''messages['' @ show_nat index @ ''].role is unsupported''))
      else if trim_space (msg_content m) = ''''
      then Some (ErrMsg (''messages['' @ show_nat index @ ''].content is required''))
      else if length (msg_content m) > 65536
      then Some (ErrMsg (''messages['' @ show_nat index @ ''].content is too long''))
      else validate_messages (Suc index) ms)"

definition validate :: "chat_input \<Rightarrow> go_error option" where
  "validate inp =
     (if trim_space (ci_model inp) = '''' then Some (ErrMsg ''model is required'')
      else if length (ci_model inp) > 128 then Some (ErrMsg ''model is too long'')
      else if length (ci_messages inp) = 0 \<or> length (ci_messages inp) > 100
      then Some (ErrMsg ''messages must contain between 1 and 100 items'')
      else case validate_messages 0 (ci_messages inp) of
        Some e \<Rightarrow> Some e
      | None \<Rightarrow>
          if (case ci_temperature inp of None \<Rightarrow> False | Some t \<Rightarrow> t < 0 \<or> t > 2)
          then Some (ErrMsg ''temperature must be between 0 and 2'')
          else if ci_max_tokens inp < 0 \<or> ci_max_tokens inp > 32768
          then Some (ErrMsg ''max_tokens must be between 0 and 32768'')
          else None)"

subsection \<open>Responses and records\<close>

record usage =
  prompt_tokens :: int
  completion_tokens :: int
  total_tokens :: int

record choice =
  ch_index :: int
  ch_message :: message
  ch_finish_reason :: string

record response_meta =
  rm_request_id :: string
  rm_status :: req_state

record chat_response =
  cr_id :: string
  cr_object :: string
  cr_created :: int
  cr_model :: string
  cr_choices :: "choice list"
  cr_usage :: usage
  cr_aegis :: response_meta

record req_record =
  rec_id :: string
  rec_tenant :: string
  rec_api_key :: string
  rec_idempotency_key :: string
  rec_hash :: string
  rec_model :: string
  rec_state :: req_state
  rec_stream :: bool
  rec_partial :: bool
  rec_response :: "chat_response option"
  rec_failure :: string
  rec_correlation :: string
  rec_created_at :: go_time
  rec_updated_at :: go_time
  rec_completed_at :: "go_time option"
  rec_prompt_tokens :: int
  rec_completion_tokens :: int
  rec_cost :: int

subsection \<open>The canonical hash\<close>

definition hash_chat ::
  "(chat_input \<Rightarrow> go_error + string) \<Rightarrow> (string \<Rightarrow> string) \<Rightarrow> chat_input \<Rightarrow> go_error + string" where
  "hash_chat marshal sum256 inp =
     (case marshal inp of
        Inl e \<Rightarrow> Inl (ErrWrap ''marshal canonical chat request'' e)
      | Inr canonical \<Rightarrow> Inr (sum256 canonical))"

subsection \<open>Lemmas on the state machine\<close>

lemma can_transition_simps [simp]:
  "can_transition Received t \<longleftrightarrow> t \<in> {Validated, Failed, Cancelled}"
  "can_transition Validated t \<longleftrightarrow> t \<in> {Routing, BudgetRejected, Failed, Cancelled}"
  "can_transition Routing t \<longleftrightarrow> t \<in> {InProgress, Failed, Cancelled}"
  "can_transition InProgress t \<longleftrightarrow> t \<in> {Completed, Failed, Cancelled}"
  "\<not> can_transition Completed t" "\<not> can_transition Failed t"
  "\<not> can_transition Cancelled t" "\<not> can_transition BudgetRejected t"
  by (auto simp: can_transition_def)

lemma transition_None_iff [simp]: "transition s t = None \<longleftrightarrow> can_transition s t"
  by (simp add: transition_def)

lemma terminal_iff_stuck: "terminal s \<longleftrightarrow> (\<forall>t. \<not> can_transition s t)"
  by (cases s) (auto simp: terminal_def)

text \<open>How far a state is from the end: every transition moves strictly closer.\<close>

fun remaining_steps :: "req_state \<Rightarrow> nat" where
  "remaining_steps Received = 4"
| "remaining_steps Validated = 3"
| "remaining_steps Routing = 2"
| "remaining_steps InProgress = 1"
| "remaining_steps _ = 0"

lemma transition_decreases: "can_transition s t \<Longrightarrow> remaining_steps t < remaining_steps s"
  by (cases s) auto

lemma terminal_iff_remaining: "terminal s \<longleftrightarrow> remaining_steps s = 0"
  by (cases s) (auto simp: terminal_def)

text \<open>A run of the machine: each state is an allowed successor of the one before.\<close>

fun legal_run :: "req_state \<Rightarrow> req_state list \<Rightarrow> bool" where
  "legal_run s [] = True"
| "legal_run s (t # ts) = (transition s t = None \<and> legal_run t ts)"

lemma legal_run_bound: "legal_run s ts \<Longrightarrow> length ts + remaining_steps (last (s # ts)) \<le> remaining_steps s"
proof (induction ts arbitrary: s)
  case Nil
  then show ?case by simp
next
  case (Cons t ts)
  then have "length ts + remaining_steps (last (t # ts)) \<le> remaining_steps t"
    and "remaining_steps t < remaining_steps s"
    by (auto dest: transition_decreases)
  then show ?case by simp
qed

text \<open>Reaching \<open>Completed\<close> from \<open>Received\<close> forces the whole pipeline.\<close>

lemma legal_run_pipeline:
  assumes "legal_run Received ts" and "last (Received # ts) = Completed"
  shows "ts = [Validated, Routing, InProgress, Completed]"
proof -
  have dead: "legal_run s us \<Longrightarrow> terminal s \<Longrightarrow> us = []" for s us
    by (cases us) (auto simp: terminal_iff_stuck)
  from assms obtain t1 r1 where 1: "ts = t1 # r1" "legal_run t1 r1" "last (t1 # r1) = Completed"
      "can_transition Received t1"
    by (cases ts) auto
  then have "t1 = Validated" using dead [of t1 r1] by (auto simp: terminal_def)
  with 1 obtain t2 r2 where 2: "r1 = t2 # r2" "legal_run t2 r2" "last (t2 # r2) = Completed"
      "can_transition Validated t2"
    by (cases r1) auto
  then have "t2 = Routing" using dead [of t2 r2] by (auto simp: terminal_def)
  with 2 obtain t3 r3 where 3: "r2 = t3 # r3" "legal_run t3 r3" "last (t3 # r3) = Completed"
      "can_transition Routing t3"
    by (cases r2) auto
  then have "t3 = InProgress" using dead [of t3 r3] by (auto simp: terminal_def)
  with 3 obtain t4 r4 where 4: "r3 = t4 # r4" "legal_run t4 r4" "last (t4 # r4) = Completed"
      "can_transition InProgress t4"
    by (cases r3) auto
  then have "r4 = []" "t4 = Completed" using dead [of t4 r4] by (auto simp: terminal_def)
  with 1 2 3 4 \<open>t1 = Validated\<close> \<open>t2 = Routing\<close> \<open>t3 = InProgress\<close> show ?thesis by simp
qed

subsection \<open>Lemmas on validation\<close>

text \<open>What a valid message and a valid chat input are, without the order of the checks.\<close>

definition valid_message :: "message \<Rightarrow> bool" where
  "valid_message m \<longleftrightarrow>
     msg_role m \<in> {''system'', ''user'', ''assistant'', ''tool''}
     \<and> trim_space (msg_content m) \<noteq> '''' \<and> length (msg_content m) \<le> 65536"

definition valid_chat :: "chat_input \<Rightarrow> bool" where
  "valid_chat inp \<longleftrightarrow>
     trim_space (ci_model inp) \<noteq> '''' \<and> length (ci_model inp) \<le> 128
     \<and> 1 \<le> length (ci_messages inp) \<and> length (ci_messages inp) \<le> 100
     \<and> list_all valid_message (ci_messages inp)
     \<and> (case ci_temperature inp of None \<Rightarrow> True | Some t \<Rightarrow> 0 \<le> t \<and> t \<le> 2)
     \<and> 0 \<le> ci_max_tokens inp \<and> ci_max_tokens inp \<le> 32768"

lemma validate_messages_None: "validate_messages k ms = None \<longleftrightarrow> list_all valid_message ms"
  by (induction k ms rule: validate_messages.induct) (auto simp: valid_message_def)

lemma validate_None_iff: "validate inp = None \<longleftrightarrow> valid_chat inp"
proof (cases "validate_messages 0 (ci_messages inp)")
  case None
  then have "list_all valid_message (ci_messages inp)" by (simp add: validate_messages_None)
  with None show ?thesis
    by (auto simp: validate_def valid_chat_def not_less Suc_le_eq split: option.splits)
next
  case (Some e)
  then have "\<not> list_all valid_message (ci_messages inp)"
    by (simp flip: validate_messages_None [of 0])
  with Some show ?thesis by (auto simp: validate_def valid_chat_def)
qed

lemma sum_list_bounded: "(\<And>x. x \<in> set xs \<Longrightarrow> f x \<le> (b::nat)) \<Longrightarrow> sum_list (map f xs) \<le> length xs * b"
  by (induction xs) (auto simp: add_mono)

lemma valid_chat_total_content:
  assumes "valid_chat inp"
  shows "sum_list (map (\<lambda>m. length (msg_content m)) (ci_messages inp)) \<le> 6553600"
proof -
  have "sum_list (map (\<lambda>m. length (msg_content m)) (ci_messages inp)) \<le> length (ci_messages inp) * 65536"
    using assms by (intro sum_list_bounded) (auto simp: valid_chat_def valid_message_def list_all_iff)
  also have "\<dots> \<le> 100 * 65536" using assms by (auto simp: valid_chat_def)
  finally show ?thesis by simp
qed

text \<open>
  C32. Along any sequence of transitions that \<open>Transition\<close> accepts, a request makes at most four moves;
  once it is in a terminal state (completed, failed, cancelled or budget-rejected) it makes none; and a
  run from \<open>RECEIVED\<close> that ends in \<open>COMPLETED\<close> has gone through \<open>VALIDATED\<close>, \<open>ROUTING\<close> and
  \<open>IN_PROGRESS\<close>, in this order and nothing else.
\<close>

theorem request_runs_are_bounded_and_ordered:
  assumes "legal_run s ts"
  shows "length ts \<le> remaining_steps s \<and> remaining_steps s \<le> 4
    \<and> (terminal s \<longrightarrow> ts = [])
    \<and> (s = Received \<and> last (s # ts) = Completed \<longrightarrow> ts = [Validated, Routing, InProgress, Completed])"
proof -
  have len: "length ts \<le> remaining_steps s" using legal_run_bound [OF assms] by linarith
  moreover have "remaining_steps s \<le> 4" by (cases s) simp_all
  moreover have "terminal s \<Longrightarrow> ts = []" using len by (simp add: terminal_iff_remaining)
  ultimately show ?thesis using assms legal_run_pipeline by blast
qed

theorem request_runs_are_bounded_and_ordered_witness:
  "legal_run Received [Validated, Routing, InProgress, Completed]
   \<and> length [Validated, Routing, InProgress, Completed] \<le> remaining_steps Received"
proof -
  have run: "legal_run Received [Validated, Routing, InProgress, Completed]" by simp
  show ?thesis using run request_runs_are_bounded_and_ordered [OF run] by simp
qed

text \<open>
  C36. \<open>ChatInput.Validate\<close> accepts exactly the inputs that satisfy every stated bound (model of 1 to 128
  bytes that is not blank, 1 to 100 messages each with a known role and non-blank content of at most
  65536 bytes, temperature between 0 and 2 when given, 0 to 32768 tokens), whatever the order of its
  checks; and an accepted input carries at most 6553600 bytes of content.
\<close>

theorem validate_decides_valid_chat:
  "(validate inp = None) = valid_chat inp
   \<and> (validate inp \<noteq> None \<or> sum_list (map (\<lambda>m. length (msg_content m)) (ci_messages inp)) \<le> 6553600)"
  using validate_None_iff [of inp] valid_chat_total_content [of inp] by blast

theorem validate_decides_valid_chat_witness:
  "validate \<lparr>ci_model = ''aegis-small'', ci_messages = [\<lparr>msg_role = ''user'', msg_content = ''hi''\<rparr>],
      ci_temperature = Some 1, ci_max_tokens = 0, ci_stream = False, ci_metadata = None\<rparr> = None"
proof -
  let ?inp = "\<lparr>ci_model = ''aegis-small'', ci_messages = [\<lparr>msg_role = ''user'', msg_content = ''hi''\<rparr>],
      ci_temperature = Some 1, ci_max_tokens = 0, ci_stream = False, ci_metadata = None\<rparr>"
  have "trim_space ''aegis-small'' = ''aegis-small''" "trim_space ''hi'' = ''hi''"
    by (simp_all add: trim_space_def trim_left_of.simps space_encodings_def)
  then have "valid_chat ?inp" by (simp add: valid_chat_def valid_message_def)
  then show ?thesis using validate_decides_valid_chat [of ?inp] by simp
qed

end
