(* ===== verification/Circuit_Breaker.thy ===== *)
theory Circuit_Breaker
  imports Aegis_Prelude
begin

text \<open>
  The package \<open>internal/circuitbreaker\<close>. Every method holds the mutex for its whole body, so a method
  call is one atomic step on the breaker and a concurrent history is a sequence of calls; \<open>cb_call\<close>
  and \<open>cb_run\<close> execute such a sequence. The invariant \<open>cb_inv\<close> holds after any history.
\<close>

datatype cb_state = Closed | Open | HalfOpen

record cb_config =
  failure_threshold :: int
  window :: duration
  open_duration :: duration
  half_open_probes :: int

record breaker =
  cb_config :: cb_config
  cb_state :: cb_state
  cb_failures :: "go_time list"
  cb_opened_at :: go_time
  cb_half_open_active :: int

definition new_breaker :: "cb_config \<Rightarrow> breaker" where
  "new_breaker config =
     (let c1 = (if failure_threshold config \<le> 0 then config\<lparr>failure_threshold := 5\<rparr> else config);
          c2 = (if window c1 \<le> 0 then c1\<lparr>window := 30 * second\<rparr> else c1);
          c3 = (if open_duration c2 \<le> 0 then c2\<lparr>open_duration := 15 * second\<rparr> else c2);
          c4 = (if half_open_probes c3 \<le> 0 then c3\<lparr>half_open_probes := 1\<rparr> else c3)
      in \<lparr>cb_config = c4, cb_state = Closed, cb_failures = [], cb_opened_at = 0, cb_half_open_active = 0\<rparr>)"

definition cb_open :: "go_time \<Rightarrow> breaker \<Rightarrow> breaker" where
  "cb_open now b = b\<lparr>cb_state := Open, cb_opened_at := now, cb_half_open_active := 0\<rparr>"

definition recovery_due :: "go_time \<Rightarrow> breaker \<Rightarrow> bool" where
  "recovery_due now b \<longleftrightarrow>
     cb_state b = Open \<and> time_sub now (cb_opened_at b) \<ge> open_duration (cb_config b)"

definition cb_allow :: "go_time \<Rightarrow> breaker \<Rightarrow> bool \<times> breaker" where
  "cb_allow now b =
     (let b' = (if recovery_due now b then b\<lparr>cb_state := HalfOpen, cb_half_open_active := 0\<rparr> else b)
      in case cb_state b' of
           Closed \<Rightarrow> (True, b')
         | HalfOpen \<Rightarrow>
             if cb_half_open_active b' \<ge> half_open_probes (cb_config b') then (False, b')
             else (True, b'\<lparr>cb_half_open_active := cb_half_open_active b' + 1\<rparr>)
         | Open \<Rightarrow> (False, b'))"

definition cb_success :: "breaker \<Rightarrow> breaker" where
  "cb_success b = b\<lparr>cb_state := Closed, cb_failures := [], cb_half_open_active := 0\<rparr>"

definition cb_failure :: "go_time \<Rightarrow> breaker \<Rightarrow> breaker" where
  "cb_failure now b =
     (if cb_state b = HalfOpen then cb_open now b
      else
        let cutoff = time_add now (- window (cb_config b));
            retained = filter (\<lambda>occurred. occurred > cutoff) (cb_failures b);
            b' = b\<lparr>cb_failures := retained @ [now]\<rparr>
        in if int (length (cb_failures b')) \<ge> failure_threshold (cb_config b') then cb_open now b'
           else b')"

definition cb_release :: "breaker \<Rightarrow> breaker" where
  "cb_release b =
     (if cb_state b = HalfOpen \<and> cb_half_open_active b > 0
      then b\<lparr>cb_half_open_active := cb_half_open_active b - 1\<rparr> else b)"

definition cb_state_at :: "go_time \<Rightarrow> breaker \<Rightarrow> cb_state" where
  "cb_state_at now b = (if recovery_due now b then HalfOpen else cb_state b)"

subsection \<open>Histories of calls\<close>

datatype cb_event = Allow go_time | Success | Failure go_time | Release

fun cb_call :: "cb_event \<Rightarrow> breaker \<Rightarrow> bool option \<times> breaker" where
  "cb_call (Allow now) b = (case cb_allow now b of (r, b') \<Rightarrow> (Some r, b'))"
| "cb_call Success b = (None, cb_success b)"
| "cb_call (Failure now) b = (None, cb_failure now b)"
| "cb_call Release b = (None, cb_release b)"

text \<open>The answers of the \<open>Allow\<close> calls of a history, and the final breaker.\<close>

fun cb_run :: "cb_event list \<Rightarrow> breaker \<Rightarrow> bool list \<times> breaker" where
  "cb_run [] b = ([], b)"
| "cb_run (ev # evs) b =
     (case cb_call ev b of (r, b') \<Rightarrow>
        case cb_run evs b' of (rs, b'') \<Rightarrow> ((case r of None \<Rightarrow> rs | Some a \<Rightarrow> a # rs), b''))"

subsection \<open>The invariant\<close>

definition cb_inv :: "breaker \<Rightarrow> bool" where
  "cb_inv b \<longleftrightarrow>
     0 < failure_threshold (cb_config b) \<and> 0 < window (cb_config b)
     \<and> 0 < open_duration (cb_config b) \<and> 0 < half_open_probes (cb_config b)
     \<and> 0 \<le> cb_half_open_active b \<and> cb_half_open_active b \<le> half_open_probes (cb_config b)
     \<and> (cb_state b \<noteq> HalfOpen \<longrightarrow> cb_half_open_active b = 0)
     \<and> (cb_state b = Closed \<longrightarrow> int (length (cb_failures b)) < failure_threshold (cb_config b))"

lemma cb_inv_new [simp]: "cb_inv (new_breaker config)"
  by (simp add: cb_inv_def new_breaker_def Let_def second_def)

lemma cb_inv_open: "cb_inv b \<Longrightarrow> cb_inv (cb_open now b)"
  by (simp add: cb_inv_def cb_open_def)

lemma cb_inv_allow: "cb_inv b \<Longrightarrow> cb_inv (snd (cb_allow now b))"
  by (auto simp: cb_inv_def cb_allow_def recovery_due_def Let_def split: cb_state.splits)

lemma cb_inv_success: "cb_inv b \<Longrightarrow> cb_inv (cb_success b)"
  by (simp add: cb_inv_def cb_success_def)

lemma cb_inv_failure: "cb_inv b \<Longrightarrow> cb_inv (cb_failure now b)"
  by (auto simp: cb_inv_def cb_failure_def cb_open_def Let_def)

lemma cb_inv_release: "cb_inv b \<Longrightarrow> cb_inv (cb_release b)"
  by (auto simp: cb_inv_def cb_release_def)

lemmas cb_inv_ops = cb_inv_allow cb_inv_success cb_inv_failure cb_inv_release

lemma cb_inv_call: "cb_inv b \<Longrightarrow> cb_inv (snd (cb_call ev b))"
  by (cases ev) (auto simp: split_beta cb_inv_ops)

lemma cb_run_Cons_snd: "snd (cb_run (ev # evs) b) = snd (cb_run evs (snd (cb_call ev b)))"
  by (simp add: split_beta)

lemma cb_inv_run: "cb_inv b \<Longrightarrow> cb_inv (snd (cb_run evs b))"
  by (induction evs arbitrary: b) (simp_all only: cb_run.simps(1) snd_conv cb_run_Cons_snd cb_inv_call)

lemma cb_config_ops [simp]:
  "cb_config (cb_open now b) = cb_config b" "cb_config (cb_success b) = cb_config b"
  "cb_config (cb_release b) = cb_config b" "cb_config (cb_failure now b) = cb_config b"
  "cb_config (snd (cb_allow now b)) = cb_config b"
  by (simp_all add: cb_open_def cb_success_def cb_release_def cb_failure_def cb_allow_def Let_def
      split: cb_state.splits)

lemma cb_config_call [simp]: "cb_config (snd (cb_call ev b)) = cb_config b"
  by (cases ev) (simp_all add: split_beta)

lemma cb_config_run [simp]: "cb_config (snd (cb_run evs b)) = cb_config b"
  by (induction evs arbitrary: b) (simp_all only: cb_run.simps(1) snd_conv cb_run_Cons_snd cb_config_call)

lemma cb_run_append:
  "cb_run (xs @ ys) b =
     (case cb_run xs b of (rs, b') \<Rightarrow> case cb_run ys b' of (qs, b'') \<Rightarrow> (rs @ qs, b''))"
  by (induction xs arbitrary: b) (auto simp: split_beta split: option.splits)

subsection \<open>An open breaker\<close>

fun event_within :: "go_time \<Rightarrow> go_time \<Rightarrow> cb_event \<Rightarrow> bool" where
  "event_within lo hi (Allow t) = (lo \<le> t \<and> t < hi)"
| "event_within lo hi (Failure t) = (lo \<le> t \<and> t < hi)"
| "event_within lo hi Success = False"
| "event_within lo hi Release = True"

definition open_until :: "go_time \<Rightarrow> breaker \<Rightarrow> bool" where
  "open_until hi b \<longleftrightarrow> cb_state b = Open \<and> hi \<le> cb_opened_at b + open_duration (cb_config b)"

lemma not_recovery_due:
  assumes "cb_inv b" "in_i64 (open_duration (cb_config b))" "open_until hi b" "t < hi"
  shows "\<not> recovery_due t b"
  using assms by (auto simp: recovery_due_def open_until_def cb_inv_def time_sub_ge_iff)

lemma open_call_rejects:
  assumes inv: "cb_inv b" and dur: "in_i64 (open_duration (cb_config b))"
    and opn: "open_until (lo + open_duration (cb_config b)) b"
    and ev: "event_within lo (lo + open_duration (cb_config b)) ev"
  shows "fst (cb_call ev b) \<noteq> Some True
    \<and> open_until (lo + open_duration (cb_config b)) (snd (cb_call ev b))"
proof (cases ev)
  case (Allow t)
  with ev not_recovery_due [OF inv dur opn, of t] have "\<not> recovery_due t b" by simp
  with Allow opn show ?thesis by (simp add: cb_allow_def open_until_def)
next
  case (Failure t)
  with ev opn show ?thesis
    by (auto simp: cb_failure_def open_until_def Let_def cb_open_def)
qed (use ev opn in \<open>auto simp: open_until_def cb_release_def\<close>)

lemma open_run_rejects:
  assumes "cb_inv b" "in_i64 (open_duration (cb_config b))"
    and "open_until (lo + open_duration (cb_config b)) b"
    and "list_all (event_within lo (lo + open_duration (cb_config b))) evs"
  shows "list_all (\<lambda>a. \<not> a) (fst (cb_run evs b)) \<and> cb_state (snd (cb_run evs b)) = Open"
  using assms
proof (induction evs arbitrary: b)
  case Nil
  then show ?case by (simp add: open_until_def)
next
  case (Cons ev evs)
  let ?b' = "snd (cb_call ev b)"
  have step: "fst (cb_call ev b) \<noteq> Some True"
      "open_until (lo + open_duration (cb_config b)) ?b'"
    using open_call_rejects [OF Cons.prems(1-3)] Cons.prems(4) by simp_all
  have "list_all (\<lambda>a. \<not> a) (fst (cb_run evs ?b')) \<and> cb_state (snd (cb_run evs ?b')) = Open"
    using Cons.prems step(2) by (intro Cons.IH) (simp_all add: cb_inv_call)
  with step(1) show ?case by (auto simp: split_beta split: option.splits)
qed

subsection \<open>Tripping\<close>

text \<open>The failures a closed breaker has recorded, and the failures still inside the window at \<open>now\<close>.\<close>

definition in_window :: "breaker \<Rightarrow> go_time \<Rightarrow> go_time list" where
  "in_window b now = filter (\<lambda>t. t > now - window (cb_config b)) (cb_failures b)"

lemma closed_failure_cases:
  assumes "cb_state b = Closed"
  shows "cb_state (cb_failure now b) =
           (if int (length (in_window b now)) + 1 \<ge> failure_threshold (cb_config b) then Open else Closed)"
    and "cb_failures (cb_failure now b) = in_window b now @ [now]"
  using assms by (simp_all add: cb_failure_def Let_def cb_open_def in_window_def time_add_def)

lemma failures_accumulate:
  assumes "cb_state b = Closed" "cb_inv b"
    and "\<forall>t\<in>set (cb_failures b). \<forall>u\<in>set ts. u - window (cb_config b) < t"
    and "\<forall>t\<in>set ts. \<forall>u\<in>set ts. u - window (cb_config b) < t"
  shows "(let b' = snd (cb_run (map Failure ts) b) in
     if int (length (cb_failures b) + length ts) < failure_threshold (cb_config b)
     then cb_state b' = Closed \<and> cb_failures b' = cb_failures b @ ts
     else cb_state b' = Open)"
  using assms
proof (induction ts arbitrary: b)
  case Nil
  then show ?case by (simp add: cb_inv_def)
next
  case (Cons t ts)
  let ?b' = "cb_failure t b"
  have "in_window b t = cb_failures b"
    using Cons.prems(3) by (auto simp: in_window_def filter_id_conv)
  then have fails: "cb_failures ?b' = cb_failures b @ [t]"
    and st: "cb_state ?b' = (if int (length (cb_failures b)) + 1 \<ge> failure_threshold (cb_config b)
                             then Open else Closed)"
    using closed_failure_cases [OF Cons.prems(1), of t] by simp_all
  have run: "snd (cb_run (map Failure (t # ts)) b) = snd (cb_run (map Failure ts) ?b')"
    by (simp only: list.map cb_run_Cons_snd cb_call.simps snd_conv)
  show ?case
  proof (cases "cb_state ?b' = Closed")
    case True
    have "\<forall>x\<in>set (cb_failures ?b'). \<forall>u\<in>set ts. u - window (cb_config ?b') < x"
      using Cons.prems(3,4) by (auto simp: fails)
    then have "(let b' = snd (cb_run (map Failure ts) ?b') in
        if int (length (cb_failures ?b') + length ts) < failure_threshold (cb_config ?b')
        then cb_state b' = Closed \<and> cb_failures b' = cb_failures ?b' @ ts
        else cb_state b' = Open)"
      using Cons.prems True by (intro Cons.IH) (auto simp: cb_inv_failure)
    then show ?thesis by (simp add: run fails Let_def)
  next
    case False
    then have opn: "cb_state ?b' = Open" using st by (simp split: if_splits)
    have keep: "cb_state (snd (cb_run (map Failure us) c)) = Open" if "cb_state c = Open" for us c
      using that
      by (induction us arbitrary: c) (auto simp: split_beta cb_failure_def Let_def cb_open_def)
    from False st have "int (length (cb_failures b)) + 1 \<ge> failure_threshold (cb_config b)"
      by (simp split: if_splits)
    then show ?thesis using keep [OF opn, of ts] by (simp add: run Let_def)
  qed
qed

subsection \<open>Probes\<close>

text \<open>
  The calls a history admits while the breaker is half-open and stays so. Each admitted call takes a
  probe, and only \<open>Release\<close> gives one back.
\<close>

fun count_releases :: "cb_event list \<Rightarrow> nat" where
  "count_releases [] = 0"
| "count_releases (Release # evs) = Suc (count_releases evs)"
| "count_releases (ev # evs) = count_releases evs"

fun probing :: "cb_event \<Rightarrow> bool" where
  "probing (Allow t) = True"
| "probing Release = True"
| "probing ev = False"

lemma half_open_run_probes:
  assumes "cb_inv b" "cb_state b = HalfOpen" "list_all probing evs"
  shows "cb_state (snd (cb_run evs b)) = HalfOpen
    \<and> int (length (filter (\<lambda>a. a) (fst (cb_run evs b)))) + cb_half_open_active b
        \<le> cb_half_open_active (snd (cb_run evs b)) + int (count_releases evs)"
  using assms
proof (induction evs arbitrary: b)
  case Nil
  then show ?case by simp
next
  case (Cons ev evs)
  show ?case
  proof (cases ev)
    case (Allow t)
    let ?b' = "snd (cb_allow t b)"
    have b': "cb_state ?b' = HalfOpen"
        "cb_half_open_active ?b' = cb_half_open_active b + (if fst (cb_allow t b) then 1 else 0)"
      using Cons.prems(2) by (auto simp: cb_allow_def recovery_due_def Let_def)
    moreover have "cb_inv ?b'" using Cons.prems(1) by (rule cb_inv_allow)
    ultimately have IH: "cb_state (snd (cb_run evs ?b')) = HalfOpen
        \<and> int (length (filter (\<lambda>a. a) (fst (cb_run evs ?b')))) + cb_half_open_active ?b'
            \<le> cb_half_open_active (snd (cb_run evs ?b')) + int (count_releases evs)"
      using Cons.prems(3) by (intro Cons.IH) simp_all
    then show ?thesis using Allow b'(2) by (auto simp: split_beta)
  next
    case Release
    let ?b' = "cb_release b"
    have b': "cb_state ?b' = HalfOpen" "cb_half_open_active b \<le> cb_half_open_active ?b' + 1"
      using Cons.prems(2) by (auto simp: cb_release_def)
    have IH: "cb_state (snd (cb_run evs ?b')) = HalfOpen
        \<and> int (length (filter (\<lambda>a. a) (fst (cb_run evs ?b')))) + cb_half_open_active ?b'
            \<le> cb_half_open_active (snd (cb_run evs ?b')) + int (count_releases evs)"
      using Cons.prems b' by (intro Cons.IH) (simp_all add: cb_inv_release)
    then show ?thesis using Release b'(2) by (auto simp: split_beta)
  qed (use Cons.prems in simp_all)
qed





text \<open>
  C31. While a breaker is half-open it never has more than \<open>HalfOpenProbes\<close> calls in flight: over any
  history of admissions and releases from a half-open breaker, the calls admitted minus the probes given
  back never exceed the probes that were still free at the start.
\<close>

theorem half_open_admits_at_most_probes:
  assumes "cb_inv b" "cb_state b = HalfOpen" "list_all probing evs"
  shows "int (length (filter (\<lambda>a. a) (fst (cb_run evs b))))
    \<le> half_open_probes (cb_config b) - cb_half_open_active b + int (count_releases evs)"
proof -
  have "cb_half_open_active (snd (cb_run evs b)) \<le> half_open_probes (cb_config b)"
    using cb_inv_run [OF assms(1), of evs] by (simp add: cb_inv_def)
  then show ?thesis using half_open_run_probes [OF assms] by linarith
qed

theorem half_open_admits_at_most_probes_witness:
  "int (length (filter (\<lambda>a. a) (fst (cb_run [Allow 60, Allow 61, Allow 62]
     ((new_breaker \<lparr>failure_threshold = 1, window = 10, open_duration = 50, half_open_probes = 2\<rparr>)
        \<lparr>cb_state := HalfOpen\<rparr>))))) \<le> 2"
proof -
  let ?b = "(new_breaker \<lparr>failure_threshold = 1, window = 10, open_duration = 50, half_open_probes = 2\<rparr>)
        \<lparr>cb_state := HalfOpen\<rparr>"
  have "cb_inv ?b" by (simp add: cb_inv_def new_breaker_def Let_def)
  moreover have "cb_state ?b = HalfOpen" "half_open_probes (cb_config ?b) = 2" "cb_half_open_active ?b = 0"
    by (simp_all add: new_breaker_def Let_def)
  ultimately show ?thesis
    using half_open_admits_at_most_probes [of ?b "[Allow 60, Allow 61, Allow 62]"] by simp
qed

end
