(* ===== verification/Auth.thy ===== *)
theory Auth
  imports Aegis_Prelude
begin

text \<open>
  The package \<open>internal/auth\<close>: generation, parsing and verification of API keys, and scopes. The keyed
  digest HMAC-SHA-256 is the parameter \<open>hmac\<close> and the randomness of \<open>crypto/rand\<close> an argument;
  \<open>base64.RawURLEncoding\<close> is modelled. The lookup of a stored key is the interface \<open>auth.Lookup\<close>, a
  function argument that the stores provide.
\<close>

record stored_key =
  sk_id :: string
  sk_tenant :: string
  sk_user :: string
  sk_prefix :: string
  sk_hash :: string
  sk_scopes :: "string list"
  sk_expires_at :: "go_time option"
  sk_revoked_at :: "go_time option"

record principal =
  pr_api_key :: string
  pr_tenant :: string
  pr_user :: string
  pr_scopes :: "string set"

definition key_prefix :: string where
  "key_prefix = ''aegis''"

subsection \<open>URL-safe base64 without padding\<close>

definition base64_url_alphabet :: string where
  "base64_url_alphabet = ''ABCDEFGHIJKLMNOPQRSTUVWXYZabcdefghijklmnopqrstuvwxyz0123456789-_''"

definition base64_digit :: "nat \<Rightarrow> char" where
  "base64_digit n = base64_url_alphabet ! n"

fun base64_raw_url :: "string \<Rightarrow> string" where
  "base64_raw_url [] = []"
| "base64_raw_url [a] =
     (let v = of_char a * 16
      in [base64_digit (v div 64), base64_digit (v mod 64)])"
| "base64_raw_url [a, b] =
     (let v = (of_char a * 256 + of_char b) * 4
      in [base64_digit (v div 4096), base64_digit (v div 64 mod 64), base64_digit (v mod 64)])"
| "base64_raw_url (a # b # c # bs) =
     (let v = (of_char a * 256 + of_char b) * 256 + of_char c
      in base64_digit (v div 262144) # base64_digit (v div 4096 mod 64)
         # base64_digit (v div 64 mod 64) # base64_digit (v mod 64) # base64_raw_url bs)"

subsection \<open>Keys\<close>

definition hash_key :: "(string \<Rightarrow> string \<Rightarrow> string) \<Rightarrow> string \<Rightarrow> string \<Rightarrow> string" where
  "hash_key hmac pepper plain = hmac pepper plain"

text \<open>The result is the displayed key, its lookup prefix and the stored hash.\<close>

definition generate ::
  "(string \<Rightarrow> string \<Rightarrow> string) \<Rightarrow> (go_error + string) \<Rightarrow> string
     \<Rightarrow> go_error + (string \<times> string \<times> string)" where
  "generate hmac rand_read pepper =
     (if length pepper < 32 then Inl (ErrMsg ''API key pepper must be at least 32 bytes'')
      else case rand_read of
        Inl e \<Rightarrow> Inl (ErrWrap ''generate API key'' e)
      | Inr random \<Rightarrow>
          let encoded = base64_raw_url random;
              prefix = take 10 encoded;
              plain = key_prefix @ ''_'' @ prefix @ ''_'' @ encoded
          in Inr (plain, prefix, hash_key hmac pepper plain))"

definition parse_prefix :: "string \<Rightarrow> go_error + string" where
  "parse_prefix plain =
     (case split_n 3 (CHR ''_'') plain of
        [p0, p1, p2] \<Rightarrow>
          if p0 \<noteq> key_prefix \<or> length p1 \<noteq> 10 \<or> length p2 < 40 then Inl ErrInvalidKey else Inr p1
      | _ \<Rightarrow> Inl ErrInvalidKey)"

text \<open>\<open>subtle.ConstantTimeCompare\<close> is 1 exactly on equal byte sequences of the same length.\<close>

definition constant_time_compare :: "string \<Rightarrow> string \<Rightarrow> int" where
  "constant_time_compare a b =
     (if length a = length b \<and> list_all (\<lambda>(x, y). x = y) (zip a b) then 1 else 0)"

definition verify ::
  "(string \<Rightarrow> string \<Rightarrow> string) \<Rightarrow> (string \<Rightarrow> go_error + stored_key) \<Rightarrow> string \<Rightarrow> string \<Rightarrow> go_time
     \<Rightarrow> go_error + principal" where
  "verify hmac find_api_key_by_prefix pepper plain now =
     (case parse_prefix plain of
        Inl _ \<Rightarrow> Inl ErrInvalidKey
      | Inr prefix \<Rightarrow>
        (case find_api_key_by_prefix prefix of
           Inl _ \<Rightarrow> Inl ErrInvalidKey
         | Inr stored \<Rightarrow>
           let computed = hash_key hmac pepper plain in
           if length computed \<noteq> length (sk_hash stored)
              \<or> constant_time_compare computed (sk_hash stored) \<noteq> 1
           then Inl ErrInvalidKey
           else if sk_revoked_at stored \<noteq> None then Inl ErrRevokedKey
           else if (case sk_expires_at stored of None \<Rightarrow> False | Some e \<Rightarrow> \<not> now < e)
           then Inl ErrExpiredKey
           else Inr \<lparr>pr_api_key = sk_id stored, pr_tenant = sk_tenant stored, pr_user = sk_user stored,
                     pr_scopes = set (sk_scopes stored)\<rparr>))"

definition require_scope :: "principal \<Rightarrow> string \<Rightarrow> go_error option" where
  "require_scope pr scope =
     (if ''*'' \<in> pr_scopes pr then None
      else if scope \<notin> pr_scopes pr then Some ErrScope
      else None)"

subsection \<open>Lemmas\<close>

lemma constant_time_compare_iff: "constant_time_compare a b = 1 \<longleftrightarrow> a = b"
proof -
  have "length a = length b \<Longrightarrow> list_all (\<lambda>(x, y). x = y) (zip a b) \<longleftrightarrow> a = b"
    by (induction a b rule: list_induct2) auto
  then show ?thesis by (auto simp: constant_time_compare_def)
qed

lemma split_n_sep:
  "c \<notin> set p \<Longrightarrow> split_n (Suc (Suc n)) c (p @ c # s) = p # split_n (Suc n) c s"
  by (induction p) auto

lemma key_prefix_no_sep: "CHR ''_'' \<notin> set key_prefix"
  by (simp add: key_prefix_def)

lemma split_3_key:
  assumes "CHR ''_'' \<notin> set p"
  shows "split_n 3 (CHR ''_'') (key_prefix @ ''_'' @ p @ ''_'' @ s) = [key_prefix, p, s]"
proof -
  have "split_n 3 (CHR ''_'') (key_prefix @ CHR ''_'' # (p @ CHR ''_'' # s))
      = key_prefix # split_n (Suc (Suc 0)) (CHR ''_'') (p @ CHR ''_'' # s)"
    using split_n_sep [OF key_prefix_no_sep, of 1] by (simp add: numeral_3_eq_3)
  also have "\<dots> = [key_prefix, p, s]" using split_n_sep [OF assms, of 0 s] by simp
  finally show ?thesis by simp
qed

lemma parse_prefix_complete:
  assumes "CHR ''_'' \<notin> set p" "length p = 10" "40 \<le> length s"
  shows "parse_prefix (key_prefix @ ''_'' @ p @ ''_'' @ s) = Inr p"
  unfolding parse_prefix_def split_3_key [OF assms(1)] using assms(2,3) by simp

text \<open>A separator inside the first field cuts it short.\<close>

lemma parse_prefix_cut:
  assumes "CHR ''_'' \<notin> set p" "length p < 10"
  shows "parse_prefix (key_prefix @ ''_'' @ p @ ''_'' @ s) = Inl ErrInvalidKey"
  unfolding parse_prefix_def split_3_key [OF assms(1)] using assms(2) by simp

lemma split_at_sep:
  assumes "c \<in> set xs"
  obtains p s where "xs = p @ c # s" "c \<notin> set p"
  using split_list_first [OF assms] by blast

lemma parse_prefix_InrD:
  assumes "parse_prefix plain = Inr p"
  shows "\<exists>s. plain = key_prefix @ ''_'' @ p @ ''_'' @ s \<and> CHR ''_'' \<notin> set p \<and> length p = 10 \<and> 40 \<le> length s"
proof -
  let ?c = "CHR ''_''"
  from assms obtain p0 s where parts: "split_n 3 ?c plain = [p0, p, s]" "p0 = key_prefix"
      "length p = 10" "40 \<le> length s"
    by (auto simp: parse_prefix_def split: list.splits if_splits)
  have c1: "?c \<in> set plain"
    using parts(1) by (auto simp: numeral_3_eq_3 split: if_splits)
  then obtain a r where a: "plain = a @ ?c # r" "?c \<notin> set a" by (rule split_at_sep)
  then have s1: "split_n 3 ?c plain = a # split_n (Suc (Suc 0)) ?c r"
    using split_n_sep [OF a(2), of 1 r] by (simp add: numeral_3_eq_3)
  with parts(1) have "?c \<in> set r" by (auto split: if_splits)
  then obtain b q where b: "r = b @ ?c # q" "?c \<notin> set b" by (rule split_at_sep)
  then have "split_n (Suc (Suc 0)) ?c r = [b, q]" using split_n_sep [OF b(2), of 0 q] by simp
  with parts s1 have "a = key_prefix" "b = p" "q = s" by simp_all
  with a b parts show ?thesis by auto
qed

lemma length_base64_raw_url: "length (base64_raw_url bs) = (length bs * 4 + 2) div 3"
  by (induction bs rule: base64_raw_url.induct) (auto simp: Let_def)

lemma replicate_32:
  "replicate 32 c = [c, c, c, c, c, c, c, c, c, c, c, c, c, c, c, c,
                     c, c, c, c, c, c, c, c, c, c, c, c, c, c, c, c]"
  by (simp add: numeral_eq_Suc)

lemma verify_Inr_iff:
  "verify hmac lookup pepper plain now = Inr pr \<longleftrightarrow>
     (\<exists>prefix stored. parse_prefix plain = Inr prefix \<and> lookup prefix = Inr stored
        \<and> sk_hash stored = hmac pepper plain
        \<and> sk_revoked_at stored = None
        \<and> (\<forall>e. sk_expires_at stored = Some e \<longrightarrow> now < e)
        \<and> pr = \<lparr>pr_api_key = sk_id stored, pr_tenant = sk_tenant stored, pr_user = sk_user stored,
               pr_scopes = set (sk_scopes stored)\<rparr>)"
  by (auto simp: verify_def hash_key_def constant_time_compare_iff Let_def
      split: sum.splits if_splits option.splits)

text \<open>
  C21. Authentication succeeds exactly for a well-formed key whose prefix names a stored credential with
  the digest of that very key, that is not revoked and not expired; the principal is then the stored
  tenant, user, key identifier and scopes, and nothing else.
\<close>

theorem verify_accepts_exactly_live_credentials:
  "verify hmac lookup pepper plain now = Inr pr \<longleftrightarrow>
     (\<exists>prefix stored secret.
          plain = key_prefix @ ''_'' @ prefix @ ''_'' @ secret
        \<and> CHR ''_'' \<notin> set prefix \<and> length prefix = 10 \<and> 40 \<le> length secret
        \<and> lookup prefix = Inr stored \<and> sk_hash stored = hmac pepper plain
        \<and> sk_revoked_at stored = None
        \<and> (sk_expires_at stored = None \<or> now < the (sk_expires_at stored))
        \<and> pr_tenant pr = sk_tenant stored \<and> pr_api_key pr = sk_id stored \<and> pr_user pr = sk_user stored
        \<and> pr_scopes pr = set (sk_scopes stored))"
  (is "?L = ?R")
proof
  assume ?L
  then obtain prefix stored where v: "parse_prefix plain = Inr prefix" "lookup prefix = Inr stored"
      "sk_hash stored = hmac pepper plain" "sk_revoked_at stored = None"
      "\<forall>e. sk_expires_at stored = Some e \<longrightarrow> now < e"
      "pr = \<lparr>pr_api_key = sk_id stored, pr_tenant = sk_tenant stored, pr_user = sk_user stored,
             pr_scopes = set (sk_scopes stored)\<rparr>"
    unfolding verify_Inr_iff by blast
  obtain secret where "plain = key_prefix @ ''_'' @ prefix @ ''_'' @ secret"
      "CHR ''_'' \<notin> set prefix" "length prefix = 10" "40 \<le> length secret"
    using parse_prefix_InrD [OF v(1)] by blast
  moreover have "sk_expires_at stored = None \<or> now < the (sk_expires_at stored)"
    using v(5) by (cases "sk_expires_at stored") simp_all
  ultimately show ?R
    using v by (intro exI [of _ prefix] exI [of _ stored] exI [of _ secret]) simp
next
  assume ?R
  then obtain prefix stored secret where r: "plain = key_prefix @ ''_'' @ prefix @ ''_'' @ secret"
      "CHR ''_'' \<notin> set prefix" "length prefix = 10" "40 \<le> length secret"
      "lookup prefix = Inr stored" "sk_hash stored = hmac pepper plain" "sk_revoked_at stored = None"
      "sk_expires_at stored = None \<or> now < the (sk_expires_at stored)"
      "pr_tenant pr = sk_tenant stored" "pr_api_key pr = sk_id stored" "pr_user pr = sk_user stored"
      "pr_scopes pr = set (sk_scopes stored)"
    by blast
  have "parse_prefix plain = Inr prefix"
    unfolding r(1) by (rule parse_prefix_complete [OF r(2-4)])
  then show ?L
    unfolding verify_Inr_iff using r(5-12)
    by (intro exI [of _ prefix] exI [of _ stored]) (cases pr, auto)
qed

text \<open>
  C38. What \<open>Generate\<close> hands out is accepted: when the ten-character prefix has no underscore, the key
  displayed by \<open>Generate\<close> is authenticated by \<open>Verify\<close> against the credential stored with the prefix and
  the hash it returned, for any 32 random bytes and any clock.
\<close>

theorem generated_key_verifies:
  assumes "length random = 32" "CHR ''_'' \<notin> set (take 10 (base64_raw_url random))"
    and "generate hmac (Inr random) pepper = Inr (plain, prefix, hash)"
    and "sk_prefix stored = prefix" "sk_hash stored = hash"
    and "sk_revoked_at stored = None" "sk_expires_at stored = None"
  shows "\<exists>pr. verify hmac (\<lambda>p. if p = sk_prefix stored then Inr stored else Inl ErrNotFound) pepper plain now
           = Inr pr \<and> pr_tenant pr = sk_tenant stored"
proof -
  have len: "length (base64_raw_url random) = 43" using assms(1) by (simp add: length_base64_raw_url)
  from assms(3) have gen: "prefix = take 10 (base64_raw_url random)"
      "plain = key_prefix @ ''_'' @ prefix @ ''_'' @ base64_raw_url random" "hash = hmac pepper plain"
    by (auto simp: generate_def Let_def hash_key_def split: if_splits)
  have "parse_prefix plain = Inr prefix"
    unfolding gen(2) using assms(2) len by (intro parse_prefix_complete) (simp_all add: gen(1))
  then show ?thesis unfolding verify_Inr_iff using assms(4-7) gen(3) by simp
qed

theorem generated_key_verifies_witness:
  "\<exists>pr. verify (\<lambda>k m. m)
      (\<lambda>p. if p = ''AAAAAAAAAA''
           then Inr \<lparr>sk_id = ''k'', sk_tenant = ''t'', sk_user = '''', sk_prefix = ''AAAAAAAAAA'',
                     sk_hash = key_prefix @ ''_AAAAAAAAAA_'' @ base64_raw_url (replicate 32 (CHR 0x00)),
                     sk_scopes = [''*''], sk_expires_at = None, sk_revoked_at = None\<rparr>
           else Inl ErrNotFound)
      (replicate 32 (CHR ''p'')) (key_prefix @ ''_AAAAAAAAAA_'' @ base64_raw_url (replicate 32 (CHR 0x00))) 0
    = Inr pr \<and> pr_tenant pr = ''t''"
proof -
  define r where "r = replicate 32 (CHR 0x00)"
  define pepper where "pepper = replicate 32 (CHR ''p'')"
  let ?plain = "key_prefix @ ''_AAAAAAAAAA_'' @ base64_raw_url r"
  let ?stored = "\<lparr>sk_id = ''k'', sk_tenant = ''t'', sk_user = '''', sk_prefix = ''AAAAAAAAAA'',
      sk_hash = ?plain, sk_scopes = [''*''], sk_expires_at = None, sk_revoked_at = None\<rparr>"
  have enc: "take 10 (base64_raw_url r) = ''AAAAAAAAAA''"
    by (simp add: r_def replicate_32 base64_digit_def base64_url_alphabet_def)
  have len: "length r = 32" "length pepper = 32" by (simp_all add: r_def pepper_def)
  have gen: "generate (\<lambda>k m. m) (Inr r) pepper = Inr (?plain, ''AAAAAAAAAA'', ?plain)"
    by (simp add: generate_def hash_key_def len enc Let_def)
  show ?thesis
    unfolding r_def [symmetric] pepper_def [symmetric]
    using generated_key_verifies [OF len(1) _ gen, of ?stored 0] by (simp add: enc)
qed

text \<open>
  C39. The prefix that \<open>Generate\<close> cuts from the URL-safe encoding may contain the separator of the key
  format: whenever an underscore is among its first ten characters, the key just generated is rejected
  by \<open>Verify\<close> as malformed whatever the stored credentials are.
\<close>

theorem generated_key_with_separator_is_unusable:
  assumes "CHR ''_'' \<in> set (take 10 (base64_raw_url random))"
    and "generate hmac (Inr random) pepper = Inr (plain, prefix, hash)"
  shows "verify hmac lookup pepper plain now = Inl ErrInvalidKey"
proof -
  from assms(2) have plain: "plain = key_prefix @ ''_'' @ take 10 (base64_raw_url random) @ ''_''
      @ base64_raw_url random"
    by (auto simp: generate_def Let_def split: if_splits)
  from assms(1) obtain p s where cut: "take 10 (base64_raw_url random) = p @ CHR ''_'' # s" "CHR ''_'' \<notin> set p"
    by (rule split_at_sep)
  have "length (take 10 (base64_raw_url random)) \<le> 10" by simp
  then have "length p < 10" unfolding cut(1) by simp
  then have "parse_prefix plain = Inl ErrInvalidKey"
    using parse_prefix_cut [OF cut(2)] by (simp add: plain cut(1))
  then show ?thesis by (simp add: verify_def)
qed

theorem generated_key_with_separator_is_unusable_witness:
  "\<exists>plain prefix hash.
     generate (\<lambda>k m. m) (Inr (replicate 32 (CHR 0xFF))) (replicate 32 (CHR ''p'')) = Inr (plain, prefix, hash)
     \<and> verify (\<lambda>k m. m) (\<lambda>p. Inl ErrNotFound) (replicate 32 (CHR ''p'')) plain 0 = Inl ErrInvalidKey"
proof -
  define r where "r = replicate 32 (CHR 0xFF)"
  define pepper where "pepper = replicate 32 (CHR ''p'')"
  have us: "CHR ''_'' \<in> set (take 10 (base64_raw_url r))"
    by (simp add: r_def replicate_32 base64_digit_def base64_url_alphabet_def)
  have "length pepper = 32" by (simp add: pepper_def)
  then obtain plain prefix hash where g: "generate (\<lambda>k m. m) (Inr r) pepper = Inr (plain, prefix, hash)"
    by (simp add: generate_def Let_def)
  show ?thesis
    unfolding r_def [symmetric] pepper_def [symmetric]
    using g generated_key_with_separator_is_unusable [OF us g] by blast
qed

end
