(* ===== verification/Go_Float.thy ===== *)
theory Go_Float
  imports Complex_Main "HOL-Library.Log_Nat"
begin

text \<open>
  Binary64 arithmetic, for the latency average of the router (Go \<open>float64\<close>) and for the counters of the
  rate-limit script (Lua numbers). A finite float is its exact rational value, and an operation is the
  exact operation followed by \<open>fl64\<close>, rounding to nearest with ties to even, subnormals included; no
  value of this program comes near the overflow threshold.
\<close>

definition round_even :: "rat \<Rightarrow> int" where
  "round_even y =
     (let f = \<lfloor>y\<rfloor>; d = y - of_int f
      in if d < 1 / 2 then f else if 1 / 2 < d then f + 1 else if even f then f else f + 1)"

text \<open>The exponent \<open>e\<close> with \<open>2 ^ e \<le> x < 2 ^ (e + 1)\<close>, for a positive \<open>x\<close>.\<close>

definition flog2 :: "rat \<Rightarrow> int" where
  "flog2 x =
     (let (a, b) = quotient_of x; k = bitlen a - bitlen b
      in if 2 powi k \<le> x then k else k - 1)"

definition fl64 :: "rat \<Rightarrow> rat" where
  "fl64 x =
     (if x = 0 then 0
      else let e = max (flog2 \<bar>x\<bar> - 52) (- 1074)
           in of_int (round_even (x / 2 powi e)) * 2 powi e)"

subsection \<open>Integers below \<open>2 ^ 53\<close> are exact\<close>

lemma round_even_of_int [simp]: "round_even (of_int n) = n"
  by (simp add: round_even_def)

lemma fl64_zero [simp]: "fl64 0 = 0"
  by (simp add: fl64_def)

lemma powi_less_cancel: "(2::rat) powi i < 2 powi j \<Longrightarrow> i < j"
  by (metis linorder_not_less one_le_numeral power_int_increasing)

lemma flog2_less:
  assumes "0 < x" "x < 2 powi (of_nat n)"
  shows "flog2 x < of_nat n"
proof -
  obtain a b where q: "quotient_of x = (a, b)" by (cases "quotient_of x") auto
  have b: "0 < b" using quotient_of_denom_pos [OF q] .
  have x: "x = of_int a / of_int b" using quotient_of_div [OF q] .
  have a: "0 < a" using assms(1) b by (simp add: x zero_less_divide_iff)
  let ?k = "bitlen a - bitlen b"
  show ?thesis
  proof (cases "2 powi ?k \<le> x")
    case True
    with assms(2) have "(2::rat) powi ?k < 2 powi (of_nat n)" by linarith
    then have "?k < of_nat n" by (rule powi_less_cancel)
    with True show ?thesis by (simp add: flog2_def q)
  next
    case False
    have alo: "2 ^ nat (bitlen a - 1) \<le> a" and bhi: "b < 2 ^ nat (bitlen b)"
      using bitlen_bounds [of a] bitlen_bounds [of b] a b by simp_all
    have na: "1 \<le> bitlen a" using a by (auto simp: bitlen_alt_def)
    have nb: "0 \<le> bitlen b" by (simp add: bitlen_def)
    have "?k - 1 = (bitlen a - 1) - bitlen b" by simp
    then have "(2::rat) powi (?k - 1) = 2 powi (bitlen a - 1) / 2 powi (bitlen b)"
      by (simp only: power_int_diff zero_neq_numeral [symmetric] simp_thms)
    also have "\<dots> = 2 ^ nat (bitlen a - 1) / 2 ^ nat (bitlen b)"
      using na nb by (simp add: power_int_def)
    also have "\<dots> \<le> of_int a / of_int b"
    proof (rule frac_le)
      show "(2::rat) ^ nat (bitlen a - 1) \<le> of_int a"
        using alo by (metis of_int_le_iff of_int_numeral of_int_power)
      show "(of_int b :: rat) \<le> 2 ^ nat (bitlen b)"
        using bhi by (metis less_imp_le of_int_le_iff of_int_numeral of_int_power)
    qed (use a b in simp_all)
    finally have "(2::rat) powi (?k - 1) \<le> x" by (simp add: x)
    with assms(2) have "(2::rat) powi (?k - 1) < 2 powi (of_nat n)" by linarith
    then have "?k - 1 < of_nat n" by (rule powi_less_cancel)
    with False show ?thesis by (simp add: flog2_def q)
  qed
qed

lemma fl64_of_int [simp]:
  assumes "\<bar>n\<bar> < 9007199254740992"
  shows "fl64 (of_int n) = of_int n"
proof (cases "n = 0")
  case False
  define e where "e = max (flog2 \<bar>of_int n\<bar> - 52) (- 1074)"
  have "\<bar>of_int n :: rat\<bar> < 2 powi (of_nat 53)"
    using assms by (simp add: power_int_def flip: of_int_abs)
  then have "flog2 \<bar>of_int n\<bar> < of_nat 53" using False by (intro flog2_less) simp_all
  then have "e \<le> 0" by (simp add: e_def)
  then obtain k where k: "e = - int k" by (metis nonpos_int_cases)
  have "(of_int n :: rat) / 2 powi e = of_int (n * 2 ^ k)"
    by (simp add: k power_int_minus divide_inverse)
  then have "round_even (of_int n / 2 powi e) = n * 2 ^ k"
    by (simp only: round_even_of_int)
  then have "fl64 (of_int n) = of_int (n * 2 ^ k) * 2 powi e"
    using False by (simp add: fl64_def Let_def flip: e_def)
  also have "\<dots> = of_int n" by (simp add: k power_int_minus)
  finally show ?thesis .
qed simp


lemma fl64_numeral [simp]: "(numeral n :: int) < 9007199254740992 \<Longrightarrow> fl64 (numeral n) = numeral n"
  using fl64_of_int [of "numeral n"] by simp

end
