(* ===== verification/Go_Regexp.thy ===== *)
theory Go_Regexp
  imports Go_Text
begin

text \<open>
  The fragment of Go's \<open>regexp\<close> that the platform uses: classes of runes, the ASCII word boundary,
  sequences, optional parts and repetitions, greedy or not. A match is found at the leftmost position, and
  among the matches there the first in the order of a backtracking search; \<open>outcomes\<close> lists them in that
  order. \<open>matches\<close> says declaratively what an expression matches, and the lemmas show that the search finds
  exactly that.
\<close>

datatype regexp =
    Eps
  | Class "(rune \<times> rune) list"
  | Boundary
  | Seq regexp regexp
  | Alt regexp regexp
  | Star bool regexp

text \<open>A position in a text: the rune before it and the text after it.\<close>

type_synonym position = "rune option \<times> rune list"

definition in_class :: "(rune \<times> rune) list \<Rightarrow> rune \<Rightarrow> bool" where
  "in_class ranges c \<longleftrightarrow> (\<exists>(lo, hi) \<in> set ranges. lo \<le> c \<and> c \<le> hi)"

definition word_class :: "(rune \<times> rune) list" where
  "word_class = [(48, 57), (65, 90), (95, 95), (97, 122)]"

definition word_rune :: "rune option \<Rightarrow> bool" where
  "word_rune c = (case c of None \<Rightarrow> False | Some r \<Rightarrow> in_class word_class r)"

fun next_rune :: "position \<Rightarrow> rune option" where
  "next_rune (p, []) = None"
| "next_rune (p, c # cs) = Some c"

definition at_boundary :: "position \<Rightarrow> bool" where
  "at_boundary st \<longleftrightarrow> word_rune (fst st) \<noteq> word_rune (next_rune st)"

text \<open>
  The repetitions of \<open>f\<close> from a position, at most \<open>n\<close> of them; a repetition that consumes nothing is not
  followed.
\<close>

primrec repeat :: "bool \<Rightarrow> (position \<Rightarrow> position list) \<Rightarrow> nat \<Rightarrow> position \<Rightarrow> position list" where
  "repeat greedy f 0 st = [st]"
| "repeat greedy f (Suc n) st =
     (let more = concat (map (repeat greedy f n) (filter (\<lambda>st'. length (snd st') < length (snd st)) (f st)))
      in if greedy then more @ [st] else st # more)"

fun outcomes :: "regexp \<Rightarrow> position \<Rightarrow> position list" where
  "outcomes Eps st = [st]"
| "outcomes (Class ranges) st =
     (case snd st of [] \<Rightarrow> [] | c # cs \<Rightarrow> if in_class ranges c then [(Some c, cs)] else [])"
| "outcomes Boundary st = (if at_boundary st then [st] else [])"
| "outcomes (Seq r s) st = concat (map (outcomes s) (outcomes r st))"
| "outcomes (Alt r s) st = outcomes r st @ outcomes s st"
| "outcomes (Star greedy r) st = repeat greedy (outcomes r) (length (snd st)) st"

text \<open>Derived forms: \<open>r?\<close>, \<open>r+\<close>, \<open>r{n}\<close>, \<open>r{n,}\<close> and \<open>r{n,m}\<close>.\<close>

definition Opt :: "regexp \<Rightarrow> regexp" where
  "Opt r = Alt r Eps"

definition Plus :: "regexp \<Rightarrow> regexp" where
  "Plus r = Seq r (Star True r)"

primrec Times :: "nat \<Rightarrow> regexp \<Rightarrow> regexp" where
  "Times 0 r = Eps"
| "Times (Suc n) r = Seq r (Times n r)"

primrec UpTo :: "nat \<Rightarrow> regexp \<Rightarrow> regexp" where
  "UpTo 0 r = Eps"
| "UpTo (Suc n) r = Opt (Seq r (UpTo n r))"

definition AtLeast :: "nat \<Rightarrow> regexp \<Rightarrow> regexp" where
  "AtLeast n r = Seq (Times n r) (Star True r)"

definition Between :: "nat \<Rightarrow> nat \<Rightarrow> regexp \<Rightarrow> regexp" where
  "Between n m r = Seq (Times n r) (UpTo (m - n) r)"

subsection \<open>What an expression matches\<close>

inductive matches :: "regexp \<Rightarrow> position \<Rightarrow> position \<Rightarrow> bool" where
  matches_eps: "matches Eps st st"
| matches_class: "in_class ranges c \<Longrightarrow> matches (Class ranges) (p, c # cs) (Some c, cs)"
| matches_boundary: "at_boundary st \<Longrightarrow> matches Boundary st st"
| matches_seq: "matches r st st' \<Longrightarrow> matches s st' st'' \<Longrightarrow> matches (Seq r s) st st''"
| matches_left: "matches r st st' \<Longrightarrow> matches (Alt r s) st st'"
| matches_right: "matches s st st' \<Longrightarrow> matches (Alt r s) st st'"
| matches_stop: "matches (Star greedy r) st st"
| matches_step: "matches r st st' \<Longrightarrow> matches (Star greedy r) st' st'' \<Longrightarrow> matches (Star greedy r) st st''"

inductive_simps matches_simps:
  "matches Eps st st'" "matches (Class ranges) st st'" "matches Boundary st st'" "matches (Seq r s) st st'"
  "matches (Alt r s) st st'"

text \<open>A match consumes a part of the text.\<close>

definition consumes :: "rune list \<Rightarrow> position \<Rightarrow> position \<Rightarrow> bool" where
  "consumes w st st' \<longleftrightarrow> snd st = w @ snd st' \<and> fst st' = (if w = [] then fst st else Some (last w))"

lemma consumes_refl: "consumes [] st st"
  by (simp add: consumes_def)

lemma consumes_trans: "consumes v st st' \<Longrightarrow> consumes w st' st'' \<Longrightarrow> consumes (v @ w) st st''"
  by (auto simp: consumes_def)

lemma matches_consumes: "matches r st st' \<Longrightarrow> \<exists>w. consumes w st st'"
proof (induction rule: matches.induct)
  case (matches_class ranges c p cs)
  then show ?case by (intro exI [of _ "[c]"]) (simp add: consumes_def)
qed (auto intro: consumes_refl consumes_trans)

lemma consumes_same: "consumes w st st' \<Longrightarrow> length (snd st) \<le> length (snd st') \<Longrightarrow> w = [] \<and> st' = st"
  by (auto simp: consumes_def prod_eq_iff)

lemma matches_shorter: "matches r st st' \<Longrightarrow> length (snd st') < length (snd st) \<or> st' = st"
  using matches_consumes consumes_same by (metis linorder_not_less)

lemma matches_length: "matches r st st' \<Longrightarrow> length (snd st') \<le> length (snd st)"
  using matches_shorter by fastforce

subsection \<open>The search finds exactly the matches\<close>

lemma repeat_sound:
  assumes "\<And>st st'. st' \<in> set (f st) \<Longrightarrow> matches r st st'"
  shows "st' \<in> set (repeat greedy f n st) \<Longrightarrow> matches (Star greedy r) st st'"
proof (induction n arbitrary: st)
  case (Suc n)
  then consider "st' = st" | st1 where "st1 \<in> set (f st)" "st' \<in> set (repeat greedy f n st1)"
    by (auto simp: Let_def split: if_splits)
  then show ?case
  proof cases
    case 2
    then show ?thesis using assms Suc.IH matches_step by blast
  qed (simp add: matches_stop)
qed (simp add: matches_stop)

lemma repeat_complete:
  assumes "matches (Star greedy r) st st'" "\<And>st st'. matches r st st' \<Longrightarrow> st' \<in> set (f st)" "length (snd st) \<le> n"
  shows "st' \<in> set (repeat greedy f n st)"
  using assms
proof (induction "Star greedy r" st st' arbitrary: n rule: matches.induct)
  case (matches_stop st)
  then show ?case by (cases n) (auto simp: Let_def)
next
  case (matches_step st st' st'')
  show ?case
  proof (cases "st' = st")
    case False
    then have less: "length (snd st') < length (snd st)" using matches_shorter [OF matches_step(1)] by simp
    then obtain k where "n = Suc k" using matches_step.prems(2) by (cases n) auto
    moreover have "st'' \<in> set (repeat greedy f k st')"
      using matches_step.hyps(4) matches_step.prems less \<open>n = Suc k\<close> by simp
    moreover have "st' \<in> set (f st)" by (rule matches_step.prems(1) [OF matches_step(1)])
    ultimately show ?thesis using less by (auto simp: Let_def simp del: split_paired_Ex split_paired_All)
  qed (use matches_step in auto)
qed

lemma outcomes_are_matches: "st' \<in> set (outcomes r st) \<longleftrightarrow> matches r st st'"
proof (induction r arbitrary: st st')
  case (Star greedy r)
  then have "st' \<in> set (repeat greedy (outcomes r) (length (snd st)) st) \<longleftrightarrow> matches (Star greedy r) st st'"
    using repeat_sound [of "outcomes r" r] repeat_complete [of greedy r st st' "outcomes r"] by blast
  then show ?case by simp
next
  case (Seq r s)
  then show ?case by (simp add: matches_simps Bex_def del: split_paired_All)
qed (auto simp: matches_simps split: list.splits)

subsection \<open>Finding\<close>

text \<open>
  The search at a position and the ones after it for non-empty matches; the result is the matched text and
  the position after it.
\<close>

fun match_here :: "regexp \<Rightarrow> position \<Rightarrow> (rune list \<times> position) option" where
  "match_here r st =
     (case outcomes r st of
        [] \<Rightarrow> None
      | st' # _ \<Rightarrow>
          if length (snd st') < length (snd st)
          then Some (take (length (snd st) - length (snd st')) (snd st), st') else None)"

declare match_here.simps [simp del]

fun find_match :: "regexp \<Rightarrow> position \<Rightarrow> (rune list \<times> position) option" where
  "find_match r (p, []) = None"
| "find_match r (p, c # cs) =
     (case match_here r (p, c # cs) of
        Some found \<Rightarrow> Some found
      | None \<Rightarrow> find_match r (Some c, cs))"

lemma match_here_progress: "match_here r st = Some (w, st') \<Longrightarrow> length (snd st') < length (snd st)"
  by (auto simp: match_here.simps split: list.splits if_splits)

lemma find_match_progress: "find_match r st = Some (w, st') \<Longrightarrow> length (snd st') < length (snd st)"
proof (induction r st rule: find_match.induct)
  case (2 r p c cs)
  then show ?case using match_here_progress [of r "(p, c # cs)"] by (fastforce split: option.splits)
qed simp

text \<open>\<open>FindAllString\<close>: the successive matches, each search starting where the last match ended.\<close>

function find_all :: "regexp \<Rightarrow> position \<Rightarrow> rune list list" where
  "find_all r st =
     (case find_match r st of
        None \<Rightarrow> []
      | Some (w, st') \<Rightarrow> w # find_all r st')"
  by pat_completeness auto
termination
  by (relation "measure (\<lambda>(r, st). length (snd st))") (auto dest: find_match_progress)

declare find_all.simps [simp del]

text \<open>The position after the prefix \<open>a\<close> of a text.\<close>

definition after :: "rune list \<Rightarrow> rune list \<Rightarrow> position" where
  "after a rest = (if a = [] then None else Some (last a), rest)"

lemma snd_after [simp]: "snd (after a rest) = rest"
  by (simp add: after_def)

lemma after_Cons: "after a (c # cs) = (fst (after a []), c # cs)" "after (a @ [c]) cs = (Some c, cs)"
  by (simp_all add: after_def)

lemma consumes_after: "consumes w (after a rest) st' \<longleftrightarrow> (\<exists>b. rest = w @ b \<and> st' = after (a @ w) b)"
  by (auto simp: consumes_def after_def prod_eq_iff)

text \<open>A part \<open>w\<close> of the text that the expression matches where it stands.\<close>

definition occurs :: "regexp \<Rightarrow> rune list \<Rightarrow> rune list \<Rightarrow> bool" where
  "occurs r text w \<longleftrightarrow> (\<exists>a b. text = a @ w @ b \<and> w \<noteq> [] \<and> matches r (after a (w @ b)) (after (a @ w) b))"

text \<open>An expression that matches no empty text.\<close>

fun proper :: "regexp \<Rightarrow> bool" where
  "proper Eps = False"
| "proper (Class ranges) = True"
| "proper Boundary = False"
| "proper (Seq r s) = (proper r \<or> proper s)"
| "proper (Alt r s) = (proper r \<and> proper s)"
| "proper (Star greedy r) = False"

lemma proper_progress: "matches r st st' \<Longrightarrow> proper r \<Longrightarrow> length (snd st') < length (snd st)"
proof (induction rule: matches.induct)
  case (matches_seq r st st' s st'')
  then show ?case using matches_length [of r st st'] matches_length [of s st' st''] by auto
qed auto

lemma match_here_after:
  assumes "match_here r (after a rest) = Some (w, st')"
  obtains b where "rest = w @ b" "st' = after (a @ w) b" "w \<noteq> []" "matches r (after a rest) st'"
proof -
  have hit: "st' \<in> set (outcomes r (after a rest))" "length (snd st') < length rest"
    "w = take (length rest - length (snd st')) rest"
    using assms by (auto simp: match_here.simps split: list.splits if_splits)
  then have m: "matches r (after a rest) st'" by (simp add: outcomes_are_matches)
  then obtain v b where "rest = v @ b" "st' = after (a @ v) b"
    using matches_consumes consumes_after by metis
  with hit m show thesis by (intro that [of b]) auto
qed

lemma match_here_None:
  assumes "match_here r st = None" "proper r"
  shows "\<not> matches r st st'"
proof
  assume "matches r st st'"
  then have "st' \<in> set (outcomes r st)" by (simp add: outcomes_are_matches)
  then obtain st1 sts where out: "outcomes r st = st1 # sts" by (cases "outcomes r st") auto
  then have "matches r st st1" using outcomes_are_matches [of st1 r st] by simp
  with assms out show False by (auto simp: match_here.simps dest: proper_progress)
qed

lemma find_match_after:
  assumes "find_match r (after a rest) = Some (w, st')"
  obtains v b where "rest = v @ w @ b" "st' = after (a @ v @ w) b" "w \<noteq> []" "matches r (after (a @ v) (w @ b)) st'"
  using assms
proof (induction rest arbitrary: a thesis)
  case (Cons c cs)
  show thesis
  proof (cases "match_here r (after a (c # cs))")
    case None
    with Cons.prems(2) have "find_match r (after (a @ [c]) cs) = Some (w, st')" by (simp add: after_Cons(1)) (simp add: after_Cons(2))
    from Cons.IH [OF _ this] obtain v b where "cs = v @ w @ b" "st' = after ((a @ [c]) @ v @ w) b" "w \<noteq> []"
        "matches r (after ((a @ [c]) @ v) (w @ b)) st'" by blast
    then show thesis by (intro Cons.prems(1) [of "c # v" b]) simp_all
  next
    case (Some found)
    with Cons.prems(2) have "match_here r (after a (c # cs)) = Some (w, st')" by (simp add: after_Cons(1))
    then show thesis
      by (rule match_here_after) (rule Cons.prems(1) [of "[]"], simp_all)
  qed
qed (simp add: after_def)

lemma find_match_None:
  assumes "find_match r (after a rest) = None" "proper r" "rest = v @ b"
  shows "\<not> matches r (after (a @ v) b) st'"
  using assms
proof (induction rest arbitrary: a v)
  case Nil
  then show ?case using proper_progress [of r "after a []" st'] by (auto simp: after_def)
next
  case (Cons c cs)
  from Cons.prems(1) have here: "match_here r (after a (c # cs)) = None" and there: "find_match r (after (a @ [c]) cs) = None"
    by (simp_all add: after_Cons(1) split: option.splits) (simp_all add: after_Cons(2))
  show ?case
  proof (cases v)
    case Nil
    then show ?thesis using match_here_None [OF here] Cons.prems by simp
  next
    case (Cons x v')
    then show ?thesis using Cons.IH [OF there, of v'] Cons.prems by simp
  qed
qed

lemma find_all_sound: "w \<in> set (find_all r (after a rest)) \<Longrightarrow> occurs r (a @ rest) w"
proof (induction "length rest" arbitrary: a rest rule: less_induct)
  case less
  from less.prems obtain v st' where v: "find_match r (after a rest) = Some (v, st')" "w = v \<or> w \<in> set (find_all r st')"
    by (cases "find_match r (after a rest)") (auto simp: find_all.simps [of r "after a rest"])
  then obtain u b where u: "rest = u @ v @ b" "st' = after (a @ u @ v) b" "v \<noteq> []" "matches r (after (a @ u) (v @ b)) st'"
    by (blast elim: find_match_after)
  show ?case
  proof (cases "w = v")
    case True
    with u show ?thesis unfolding occurs_def by (intro exI [of _ "a @ u"] exI [of _ b]) simp
  next
    case False
    then have "occurs r ((a @ u @ v) @ b) w" using less.hyps [of b "a @ u @ v"] u(1-3) v(2) by simp
    then show ?thesis using u(1) by simp
  qed
qed

lemma find_all_complete:
  assumes "occurs r text w" "proper r"
  shows "find_all r (None, text) \<noteq> []"
proof
  assume "find_all r (None, text) = []"
  then have none: "find_match r (after [] text) = None"
    by (subst (asm) find_all.simps) (auto simp: after_def split: option.splits)
  obtain a b where "text = a @ w @ b" "matches r (after a (w @ b)) (after (a @ w) b)"
    using assms(1) by (auto simp: occurs_def)
  with find_match_None [OF none assms(2), of a "w @ b"] show False by simp
qed

text \<open>The search of a proper expression succeeds exactly on the texts with an occurrence, and finds occurrences only.\<close>

lemma find_all_occurs: "w \<in> set (find_all r (None, text)) \<Longrightarrow> occurs r text w"
  using find_all_sound [where a = Nil and rest = "text"] by (simp add: after_def)

lemma find_all_iff:
  assumes "proper r"
  shows "find_all r (None, text) = [] \<longleftrightarrow> (\<nexists>w. occurs r text w)"
proof (cases "find_all r (None, text)")
  case (Cons w ws)
  then show ?thesis using find_all_occurs [of w r "text"] by auto
qed (use find_all_complete [OF _ assms] in blast)

end
