(* ===== verification/Provider.thy ===== *)
theory Provider
  imports Request Go_Text
begin

text \<open>
  The package \<open>internal/provider\<close>: the provider-neutral request, completion and chunk types, the retry
  classification of errors, the deterministic mock and the OpenAI-compatible adapter.

  A streaming call is an interaction: the provider emits a chunk through the caller's callback, sees
  whether the callback failed, and goes on. \<open>stream_act\<close> is the tree of such interactions, \<open>run_stream\<close>
  plays it against a callback. What the network delivers (status, body, scanned lines, decoded events)
  and what the context reports are arguments.
\<close>

subsection \<open>Types\<close>

record completion_request =
  cq_request_id :: string
  cq_model :: string
  cq_messages :: "message list"
  cq_temperature :: "rat option"
  cq_max_tokens :: int

record completion =
  cp_provider_request_id :: string
  cp_model :: string
  cp_content :: string
  cp_finish_reason :: string
  cp_usage :: usage

record chunk =
  ck_content :: string
  ck_finish_reason :: string

record capabilities =
  cap_models :: "string set"
  cap_classifications :: "string set"

datatype stream_act =
    StreamOk usage
  | StreamErr go_error
  | Emit chunk "go_error option \<Rightarrow> stream_act"

text \<open>The callback works on a state of its own.\<close>

primrec run_stream ::
  "(chunk \<Rightarrow> 'c \<Rightarrow> go_error option \<times> 'c) \<Rightarrow> stream_act \<Rightarrow> 'c \<Rightarrow> (go_error + usage) \<times> 'c" where
  "run_stream emit (StreamOk u) c = (Inr u, c)"
| "run_stream emit (StreamErr e) c = (Inl e, c)"
| "run_stream emit (Emit ck k) c = (case emit ck c of (r, c') \<Rightarrow> run_stream emit (k r) c')"

subsection \<open>Classification\<close>

definition is_retryable :: "go_error \<Rightarrow> bool" where
  "is_retryable err =
     (case errors_as_provider err of
        Some pe \<Rightarrow> pe_retryable pe \<and> \<not> pe_partial pe
      | None \<Rightarrow>
          if errors_is err CtxCanceled \<or> errors_is err CtxDeadlineExceeded then False
          else (case errors_as_net err of None \<Rightarrow> False | Some timeout \<Rightarrow> timeout))"

definition http_error :: "string \<Rightarrow> int \<Rightarrow> go_error" where
  "http_error provider_name status =
     (let retryable = (status = 408 \<or> status = 429 \<or> status \<ge> 500);
          category = (if status = 429 then ''rate_limited''
                      else if status = 401 \<or> status = 403 then ''provider_authentication''
                      else if status \<ge> 400 \<and> status < 500 then ''invalid_provider_request''
                      else ''upstream_error'')
      in ProviderError provider_name category status retryable False None)"

fun content_bytes :: "message list \<Rightarrow> int" where
  "content_bytes [] = 0"
| "content_bytes (m # ms) = int (length (msg_content m)) + content_bytes ms"

definition estimate_tokens :: "message list \<Rightarrow> string \<Rightarrow> usage" where
  "estimate_tokens messages content =
     (let prompt = go_quo (content_bytes messages + 3) 4;
          completion = go_quo (int (length content) + 3) 4
      in \<lparr>prompt_tokens = prompt, completion_tokens = completion, total_tokens = prompt + completion\<rparr>)"

definition normalize_model :: "string \<Rightarrow> string" where
  "normalize_model value = trim_space value"

text \<open>The remaining time of a context, given its deadline and the clock.\<close>

definition remaining :: "go_time option \<Rightarrow> go_time \<Rightarrow> duration" where
  "remaining deadline now = (case deadline of None \<Rightarrow> 60 * minute | Some d \<Rightarrow> time_sub d now)"

subsection \<open>The deterministic mock\<close>

record mock_config =
  mk_name :: string
  mk_models :: "string list"
  mk_latency :: duration
  mk_fail_first :: int
  mk_failure_category :: string

record mock =
  mock_config :: mock_config
  mock_calls :: int

definition new_mock :: "mock_config \<Rightarrow> mock" where
  "new_mock config =
     (let c1 = (if mk_name config = '''' then config\<lparr>mk_name := ''mock-primary''\<rparr> else config);
          c2 = (if length (mk_models c1) = 0
                then c1\<lparr>mk_models := [''aegis-small'', ''aegis-medium'']\<rparr> else c1)
      in \<lparr>mock_config = c2, mock_calls = 0\<rparr>)"

definition mock_name :: "mock \<Rightarrow> string" where
  "mock_name m = mk_name (mock_config m)"

definition mock_capabilities :: "mock \<Rightarrow> capabilities" where
  "mock_capabilities m =
     \<lparr>cap_models = set (mk_models (mock_config m)),
      cap_classifications = {''PUBLIC'', ''INTERNAL'', ''CONFIDENTIAL''}\<rparr>"

text \<open>\<open>ctx_err\<close> is the error of the context if it ends before the latency timer.\<close>

definition mock_wait :: "mock \<Rightarrow> go_error option \<Rightarrow> go_error option" where
  "mock_wait m ctx_err = (if mk_latency (mock_config m) \<le> 0 then None else ctx_err)"

definition mock_inject_failure :: "mock \<Rightarrow> go_error option \<times> mock" where
  "mock_inject_failure m =
     (let call = i64 (mock_calls m + 1); m' = m\<lparr>mock_calls := call\<rparr>
      in if call \<le> mk_fail_first (mock_config m)
         then let category = (if mk_failure_category (mock_config m) = '''' then ''injected_transient''
                              else mk_failure_category (mock_config m))
              in (Some (ProviderError (mock_name m) category 0 True False
                    (Some (ErrMsg ''deterministic failure injection''))), m')
         else (None, m'))"

text \<open>Indexing the last message panics on an empty list.\<close>

definition mock_content :: "completion_request \<Rightarrow> go_error + string" where
  "mock_content inp =
     (if cq_messages inp = [] then Inl (GoPanic ''index out of range [-1]'')
      else Inr (''Deterministic response to: '' @ msg_content (last (cq_messages inp))))"

definition mock_complete ::
  "go_error option \<Rightarrow> completion_request \<Rightarrow> mock \<Rightarrow> (go_error + completion) \<times> mock" where
  "mock_complete ctx_err inp m =
     (case mock_wait m ctx_err of
        Some e \<Rightarrow> (Inl e, m)
      | None \<Rightarrow>
        (case mock_inject_failure m of
           (Some e, m') \<Rightarrow> (Inl e, m')
         | (None, m') \<Rightarrow>
           (case mock_content inp of
              Inl e \<Rightarrow> (Inl e, m')
            | Inr content \<Rightarrow>
                (Inr \<lparr>cp_provider_request_id = ''mock-'' @ show_int (mock_calls m'),
                      cp_model = cq_model inp, cp_content = content, cp_finish_reason = ''stop'',
                      cp_usage = estimate_tokens (cq_messages inp) content\<rparr>, m'))))"

text \<open>
  The loop of \<open>Mock.Stream\<close> over the remaining words; \<open>ctx_done i\<close> is what the context reports before
  word \<open>i\<close>.
\<close>

fun mock_words :: "string \<Rightarrow> (nat \<Rightarrow> go_error option) \<Rightarrow> usage \<Rightarrow> nat \<Rightarrow> string list \<Rightarrow> stream_act" where
  "mock_words name ctx_done u index [] =
     Emit \<lparr>ck_content = '''', ck_finish_reason = ''stop''\<rparr>
       (\<lambda>r. case r of
          Some e \<Rightarrow> StreamErr (ProviderError name ''stream_write'' 0 False True (Some e))
        | None \<Rightarrow> StreamOk u)"
| "mock_words name ctx_done u index (word # words) =
     (case ctx_done index of
        Some e \<Rightarrow> StreamErr e
      | None \<Rightarrow>
          Emit \<lparr>ck_content = (if words \<noteq> [] then word @ '' '' else word), ck_finish_reason = ''''\<rparr>
            (\<lambda>r. case r of
               Some e \<Rightarrow> StreamErr (ProviderError name ''stream_write'' 0 False (index > 0) (Some e))
             | None \<Rightarrow> mock_words name ctx_done u (Suc index) words))"

definition mock_stream ::
  "go_error option \<Rightarrow> (nat \<Rightarrow> go_error option) \<Rightarrow> completion_request \<Rightarrow> mock \<Rightarrow> stream_act \<times> mock" where
  "mock_stream ctx_err ctx_done inp m =
     (case mock_wait m ctx_err of
        Some e \<Rightarrow> (StreamErr e, m)
      | None \<Rightarrow>
        (case mock_inject_failure m of
           (Some e, m') \<Rightarrow> (StreamErr e, m')
         | (None, m') \<Rightarrow>
           (case mock_content inp of
              Inl e \<Rightarrow> (StreamErr e, m')
            | Inr content \<Rightarrow>
                (mock_words (mock_name m') ctx_done (estimate_tokens (cq_messages inp) content) 0
                   (str_fields content), m'))))"

subsection \<open>The OpenAI-compatible adapter\<close>

record openai_config =
  oa_name :: string
  oa_endpoint :: string
  oa_api_key :: string
  oa_models :: "string list"
  oa_classifications :: "string list"
  oa_timeout :: duration
  oa_max_response_bytes :: int

definition new_openai_compatible :: "openai_config \<Rightarrow> go_error + openai_config" where
  "new_openai_compatible config =
     (if oa_name config = '''' \<or> oa_endpoint config = ''''
      then Inl (ErrMsg ''provider name and endpoint are required'')
      else
        let c1 = (if oa_timeout config \<le> 0 then config\<lparr>oa_timeout := 30 * second\<rparr> else config);
            c2 = (if oa_max_response_bytes c1 \<le> 0 then c1\<lparr>oa_max_response_bytes := 8388608\<rparr> else c1)
        in Inr c2)"

definition openai_capabilities :: "openai_config \<Rightarrow> capabilities" where
  "openai_capabilities c =
     \<lparr>cap_models = set (oa_models c), cap_classifications = set (oa_classifications c)\<rparr>"

record oa_payload =
  op_model :: string
  op_messages :: "message list"
  op_temperature :: "rat option"
  op_max_tokens :: int
  op_stream :: bool

record http_request =
  hr_method :: string
  hr_url :: string
  hr_headers :: "(string \<times> string) list"
  hr_body :: string

text \<open>
  What the adapter calls outside the repository: the JSON encoder, the URL check of
  \<open>http.NewRequestWithContext\<close>, the round trip of \<open>client.Do\<close> (a transport error, or a status and a body)
  and the remaining time of the context when the round trip returns.
\<close>

record 'b http_env =
  he_marshal :: "oa_payload \<Rightarrow> go_error + string"
  he_url_error :: "string \<Rightarrow> go_error option"
  he_do :: "http_request \<Rightarrow> go_error + (int \<times> 'b)"
  he_left :: duration

definition trim_right_slash :: "string \<Rightarrow> string" where
  "trim_right_slash s = rev (dropWhile (\<lambda>ch. ch = CHR ''/'') (rev s))"

definition openai_request ::
  "'b http_env \<Rightarrow> openai_config \<Rightarrow> completion_request \<Rightarrow> bool \<Rightarrow> go_error + http_request" where
  "openai_request env c inp stream =
     (case he_marshal env \<lparr>op_model = normalize_model (cq_model inp), op_messages = cq_messages inp,
             op_temperature = cq_temperature inp, op_max_tokens = cq_max_tokens inp, op_stream = stream\<rparr> of
        Inl e \<Rightarrow> Inl (ErrWrap ''marshal provider request'' e)
      | Inr body \<Rightarrow>
        let url = trim_right_slash (oa_endpoint c) @ ''/v1/chat/completions'' in
        (case he_url_error env url of
           Some e \<Rightarrow> Inl (ErrWrap ''create provider request'' e)
         | None \<Rightarrow>
             Inr \<lparr>hr_method = ''POST'', hr_url = url,
                  hr_headers = [(''Content-Type'', ''application/json''), (''Accept'', ''application/json''),
                                (''X-Request-ID'', cq_request_id inp)]
                    @ (if oa_api_key c \<noteq> '''' then [(''Authorization'', ''Bearer '' @ oa_api_key c)] else []),
                  hr_body = body\<rparr>))"

definition openai_call ::
  "'b http_env \<Rightarrow> openai_config \<Rightarrow> completion_request \<Rightarrow> bool \<Rightarrow> go_error + 'b" where
  "openai_call env c inp stream =
     (case openai_request env c inp stream of
        Inl e \<Rightarrow> Inl e
      | Inr req \<Rightarrow>
        (case he_do env req of
           Inl e \<Rightarrow> Inl (ProviderError (oa_name c) ''transport'' 0 (he_left env > 0) False (Some e))
         | Inr (status, body) \<Rightarrow>
             if status \<ge> 400 then Inl (http_error (oa_name c) status) else Inr body))"

definition openai_health :: "'b http_env \<Rightarrow> openai_config \<Rightarrow> go_error option" where
  "openai_health env c =
     (let url = trim_right_slash (oa_endpoint c) @ ''/health/ready'' in
      case he_url_error env url of
        Some e \<Rightarrow> Some e
      | None \<Rightarrow>
        (case he_do env \<lparr>hr_method = ''GET'', hr_url = url, hr_headers = [], hr_body = ''''\<rparr> of
           Inl e \<Rightarrow> Some e
         | Inr (status, body) \<Rightarrow>
             if status \<ge> 400 then Some (http_error (oa_name c) status) else None))"

record oa_choice =
  oc_message :: message
  oc_finish_reason :: string

record oa_body =
  ob_id :: string
  ob_model :: string
  ob_choices :: "oa_choice list"
  ob_usage :: usage

text \<open>\<open>decode\<close> is the JSON decoder applied to the size-limited body.\<close>

definition openai_complete ::
  "'b http_env \<Rightarrow> openai_config \<Rightarrow> ('b \<Rightarrow> go_error + oa_body) \<Rightarrow> completion_request
     \<Rightarrow> go_error + completion" where
  "openai_complete env c decode inp =
     (case openai_call env c inp False of
        Inl e \<Rightarrow> Inl e
      | Inr raw \<Rightarrow>
        (case decode raw of
           Inl e \<Rightarrow> Inl (ProviderError (oa_name c) ''malformed_response'' 0 False False (Some e))
         | Inr body \<Rightarrow>
           (case ob_choices body of
              [] \<Rightarrow> Inl (ProviderError (oa_name c) ''empty_response'' 0 False False None)
            | first # _ \<Rightarrow>
                Inr \<lparr>cp_provider_request_id = ob_id body, cp_model = ob_model body,
                     cp_content = msg_content (oc_message first),
                     cp_finish_reason = oc_finish_reason first, cp_usage = ob_usage body\<rparr>)))"

record oa_event =
  oe_choices :: "oa_choice list"
  oe_usage :: "usage option"

definition zero_usage :: usage where
  "zero_usage = \<lparr>prompt_tokens = 0, completion_tokens = 0, total_tokens = 0\<rparr>"

text \<open>The scanner loop: the lines still to come, and the scanner's error after the last one.\<close>

fun openai_lines ::
  "string \<Rightarrow> (string \<Rightarrow> go_error + oa_event) \<Rightarrow> go_error option \<Rightarrow> bool \<Rightarrow> usage \<Rightarrow> string list
     \<Rightarrow> stream_act" where
  "openai_lines name decode scan_err partial u [] =
     (case scan_err of
        Some e \<Rightarrow> StreamErr (ProviderError name ''stream_read'' 0 (\<not> partial) partial (Some e))
      | None \<Rightarrow> StreamErr (ProviderError name ''stream_ended_without_done'' 0 (\<not> partial) partial None))"
| "openai_lines name decode scan_err partial u (raw # lines) =
     (let line = trim_space raw in
      if \<not> is_prefix_of ''data:'' line then openai_lines name decode scan_err partial u lines
      else
        let data = trim_space (drop 5 line) in
        if data = ''[DONE]'' then StreamOk u
        else case decode data of
          Inl e \<Rightarrow> StreamErr (ProviderError name ''malformed_stream'' 0 False partial (Some e))
        | Inr event \<Rightarrow>
            let u' = (case oe_usage event of None \<Rightarrow> u | Some x \<Rightarrow> x) in
            (case oe_choices event of
               [] \<Rightarrow> openai_lines name decode scan_err partial u' lines
             | first # _ \<Rightarrow>
                 let content = msg_content (oc_message first);
                     partial' = (partial \<or> content \<noteq> '''')
                 in Emit \<lparr>ck_content = content, ck_finish_reason = oc_finish_reason first\<rparr>
                      (\<lambda>r. case r of
                         Some e \<Rightarrow> StreamErr (ProviderError name ''stream_write'' 0 False partial' (Some e))
                       | None \<Rightarrow> openai_lines name decode scan_err partial' u' lines)))"

definition openai_stream ::
  "(string list \<times> go_error option) http_env \<Rightarrow> openai_config
     \<Rightarrow> (string \<Rightarrow> go_error + oa_event) \<Rightarrow> completion_request \<Rightarrow> stream_act" where
  "openai_stream env c decode inp =
     (case openai_call env c inp True of
        Inl e \<Rightarrow> StreamErr e
      | Inr (lines, scan_err) \<Rightarrow> openai_lines (oa_name c) decode scan_err False zero_usage lines)"

subsection \<open>Retries and emitted output\<close>

text \<open>A callback instrumented with a flag: has a chunk with content been handed to it?\<close>

definition watch ::
  "(chunk \<Rightarrow> 'c \<Rightarrow> go_error option \<times> 'c) \<Rightarrow> chunk \<Rightarrow> bool \<times> 'c \<Rightarrow> go_error option \<times> (bool \<times> 'c)" where
  "watch emit ck st =
     (case emit ck (snd st) of (r, c') \<Rightarrow> (r, (fst st \<or> ck_content ck \<noteq> '''', c')))"

lemma watch_eq: "emit ck c = (r, c') \<Longrightarrow> watch emit ck (seen, c) = (r, (seen \<or> ck_content ck \<noteq> '''', c'))"
  by (simp add: watch_def)

lemma is_retryable_provider [simp]:
  "is_retryable (ProviderError p c st r pa cause) \<longleftrightarrow> r \<and> \<not> pa"
  by (simp add: is_retryable_def)

lemma is_retryable_ctx [simp]: "\<not> is_retryable CtxCanceled" "\<not> is_retryable CtxDeadlineExceeded"
  by (simp_all add: is_retryable_def)

lemma is_retryable_http_error:
  "is_retryable (http_error name status) \<longleftrightarrow> status = 408 \<or> status = 429 \<or> 500 \<le> status"
  by (simp add: http_error_def Let_def)

lemma openai_lines_partial:
  assumes "run_stream (watch emit) (openai_lines name decode scan_err partial u lines) (seen, c)
             = (Inl e, (seen', c'))"
    and "seen \<Longrightarrow> partial" and "seen'"
  shows "\<not> is_retryable e"
  using assms
proof (induction name decode scan_err partial u lines arbitrary: seen c rule: openai_lines.induct)
  case (1 name decode scan_err partial u)
  then show ?case by (auto split: option.splits)
next
  case (2 name decode scan_err partial u raw lines)
  let ?line = "trim_space raw"
  let ?data = "trim_space (drop 5 ?line)"
  show ?case
  proof (cases "is_prefix_of ''data:'' ?line")
    case False
    with "2.prems" "2.IH"(1) [OF refl] show ?thesis by (simp add: Let_def)
  next
    case pre: True
    show ?thesis
    proof (cases "?data = ''[DONE]''")
      case True
      with pre "2.prems" show ?thesis by (simp add: Let_def)
    next
      case data: False
      show ?thesis
      proof (cases "decode ?data")
        case (Inl err)
        with pre data "2.prems" show ?thesis by (auto simp: Let_def)
      next
        case (Inr event)
        define u' where "u' = (case oe_usage event of None \<Rightarrow> u | Some x \<Rightarrow> x)"
        show ?thesis
        proof (cases "oe_choices event")
          case Nil
          with pre data Inr "2.prems" "2.IH"(2) [OF refl _ refl data Inr u'_def Nil] show ?thesis
            by (simp add: Let_def u'_def)
        next
          case (Cons first rest)
          let ?content = "msg_content (oc_message first)"
          let ?partial' = "partial \<or> ?content \<noteq> ''''"
          let ?ck = "\<lparr>ck_content = ?content, ck_finish_reason = oc_finish_reason first\<rparr>"
          obtain r c1 where r: "emit ?ck c = (r, c1)" by (cases "emit ?ck c") auto
          show ?thesis
          proof (cases r)
            case None
            have "run_stream (watch emit) (openai_lines name decode scan_err ?partial' u' lines)
                (seen \<or> ?content \<noteq> '''', c1) = (Inl e, (seen', c'))"
              using pre data Inr Cons "2.prems"(1) None by (simp add: Let_def u'_def watch_eq [of emit, OF r])
            moreover have "(seen \<or> ?content \<noteq> '''') \<Longrightarrow> ?partial'" using "2.prems"(2) by auto
            ultimately show ?thesis
              using "2.IH"(3) [OF refl _ refl data Inr u'_def Cons refl refl] pre "2.prems"(3) by blast
          next
            case (Some err)
            with pre data Inr Cons "2.prems" show ?thesis by (auto simp: Let_def watch_eq [of emit, OF r])
          qed
        qed
      qed
    qed
  qed
qed

lemma mock_words_not_retryable:
  assumes "run_stream emit (mock_words name ctx_done u index words) c = (Inl e, c')"
    and "\<And>i err. ctx_done i = Some err \<Longrightarrow> err = CtxCanceled \<or> err = CtxDeadlineExceeded"
  shows "\<not> is_retryable e"
  using assms
proof (induction name ctx_done u index words arbitrary: c rule: mock_words.induct)
  case (1 name ctx_done u index)
  then show ?case by (auto split: prod.splits option.splits)
next
  case (2 name ctx_done u index word words)
  show ?case
  proof (cases "ctx_done index")
    case None
    obtain r c1 where r: "emit \<lparr>ck_content = (if words \<noteq> [] then word @ '' '' else word),
        ck_finish_reason = ''''\<rparr> c = (r, c1)"
      by fastforce
    show ?thesis
    proof (cases r)
      case r0: None
      with None r "2.prems"(1)
      have "run_stream emit (mock_words name ctx_done u (Suc index) words) c1 = (Inl e, c')"
        by (simp split: if_splits)
      with "2.IH" [OF None] "2.prems"(2) show ?thesis by blast
    next
      case (Some err)
      with None r "2.prems"(1) show ?thesis by (auto split: if_splits)
    qed
  next
    case (Some err)
    with "2.prems" show ?thesis by fastforce
  qed
qed



end
