(* ===== verification/Routing.thy ===== *)
theory Routing
  imports Provider Circuit_Breaker Go_Float "HOL-Library.Multiset"
begin

text \<open>
  The package \<open>internal/routing\<close>: the provider registry, eligibility filtering, the four balancing
  strategies, leases, and the conservative prices used for budget admission.

  A \<open>*managed\<close> pointer is an index into the registry, whose order and length never change. A buffered
  channel used as a semaphore is its number of queued tokens together with its capacity
  (\<open>MaxConcurrency\<close>). The definitions of this theory are the sequential methods; their steps are
  interleaved in theory \<open>Routing_Concurrent\<close>.
\<close>

type_synonym strategy = string

definition weighted_round_robin :: strategy where "weighted_round_robin = ''weighted_round_robin''"
definition least_outstanding :: strategy where "least_outstanding = ''least_outstanding''"
definition least_latency :: strategy where "least_latency = ''least_latency''"
definition priority_fallback :: strategy where "priority_fallback = ''priority_fallback''"

text \<open>What the router uses of the interface \<open>provider.Provider\<close>: its name and its capabilities.\<close>

record provider_iface =
  pv_name :: string
  pv_capabilities :: capabilities

record provider_config =
  pc_provider :: "provider_iface option"
  pc_weight :: int
  pc_priority :: int
  pc_max_concurrency :: int
  pc_timeout :: duration
  pc_input_cost :: int
  pc_output_cost :: int
  pc_enabled :: bool

record managed =
  mg_config :: provider_config
  mg_provider :: provider_iface
  mg_semaphore :: int
  mg_breaker :: breaker
  mg_outstanding :: int
  mg_healthy :: bool
  mg_ewma :: rat

record router =
  rt_providers :: "managed list"
  rt_sequence :: "64 word"
  rt_alpha :: rat

record selection =
  sl_model :: string
  sl_classification :: string
  sl_allowed :: "string set option"
  sl_excluded :: "string set"
  sl_strategy :: strategy
  sl_now :: go_time

record lease =
  ls_entry :: nat
  ls_provider :: string
  ls_timeout :: duration
  ls_input_cost :: int
  ls_output_cost :: int
  ls_released :: bool

subsection \<open>Construction\<close>

definition default_config :: "provider_config \<Rightarrow> provider_config" where
  "default_config config =
     (let c1 = (if pc_weight config \<le> 0 then config\<lparr>pc_weight := 1\<rparr> else config);
          c2 = (if pc_max_concurrency c1 \<le> 0 then c1\<lparr>pc_max_concurrency := 20\<rparr> else c1)
      in if pc_timeout c2 \<le> 0 then c2\<lparr>pc_timeout := 30 * second\<rparr> else c2)"

fun new_entries :: "cb_config \<Rightarrow> provider_config list \<Rightarrow> go_error + managed list" where
  "new_entries bc [] = Inr []"
| "new_entries bc (config # configs) =
     (case pc_provider config of
        None \<Rightarrow> Inl (ErrMsg ''provider is required'')
      | Some p \<Rightarrow>
          (case new_entries bc configs of
             Inl e \<Rightarrow> Inl e
           | Inr es \<Rightarrow>
               Inr (\<lparr>mg_config = default_config config, mg_provider = p, mg_semaphore = 0,
                     mg_breaker = new_breaker bc, mg_outstanding = 0, mg_healthy = True, mg_ewma = 0\<rparr> # es)))"

definition new_router :: "provider_config list \<Rightarrow> cb_config \<Rightarrow> go_error + router" where
  "new_router configs bc =
     (if configs = [] then Inl (ErrMsg ''at least one provider is required'')
      else case new_entries bc configs of
        Inl e \<Rightarrow> Inl e
      | Inr es \<Rightarrow> Inr \<lparr>rt_providers = es, rt_sequence = 0, rt_alpha = fl64 (1 / 5)\<rparr>)"

subsection \<open>Eligibility\<close>

definition policy_allows :: "selection \<Rightarrow> managed \<Rightarrow> bool" where
  "policy_allows sel e \<longleftrightarrow>
     (case sl_allowed sel of None \<Rightarrow> True | Some names \<Rightarrow> pv_name (mg_provider e) \<in> names)"

definition can_serve :: "selection \<Rightarrow> managed \<Rightarrow> bool" where
  "can_serve sel e \<longleftrightarrow>
     sl_model sel \<in> cap_models (pv_capabilities (mg_provider e))
     \<and> sl_classification sel \<in> cap_classifications (pv_capabilities (mg_provider e))"

definition eligible_entry :: "selection \<Rightarrow> managed \<Rightarrow> bool" where
  "eligible_entry sel e \<longleftrightarrow>
     pc_enabled (mg_config e) \<and> mg_healthy e
     \<and> policy_allows sel e
     \<and> pv_name (mg_provider e) \<notin> sl_excluded sel
     \<and> can_serve sel e
     \<and> cb_state_at (sl_now sel) (mg_breaker e) \<noteq> Open
     \<and> mg_semaphore e < pc_max_concurrency (mg_config e)"

definition eligible :: "selection \<Rightarrow> router \<Rightarrow> nat list" where
  "eligible sel rt =
     filter (\<lambda>i. eligible_entry sel (rt_providers rt ! i)) [0..<length (rt_providers rt)]"

subsection \<open>Ordering\<close>

definition latency :: "managed \<Rightarrow> rat" where
  "latency e = (if mg_ewma e = 0 then 1000000000000000 else mg_ewma e)"

definition total_weight :: "int list \<Rightarrow> int" where
  "total_weight ws = foldl (\<lambda>t w. i64 (t + w)) 0 ws"

fun weighted_pick :: "int \<Rightarrow> nat \<Rightarrow> int list \<Rightarrow> nat" where
  "weighted_pick position index [] = 0"
| "weighted_pick position index (w # ws) =
     (let position' = i64 (position - w)
      in if position' < 0 then index else weighted_pick position' (Suc index) ws)"

text \<open>
  \<open>sort.SliceStable\<close> by a key is \<^const>\<open>sort_key\<close>, which is stable. The remainder by a total that
  wrapped to zero is Go's division panic; the sequence number has been consumed by then.
\<close>

definition order :: "nat list \<Rightarrow> strategy \<Rightarrow> router \<Rightarrow> (go_error + nat list) \<times> router" where
  "order entries strategy rt =
     (let entry = (\<lambda>i. rt_providers rt ! i) in
      if strategy = least_outstanding then (Inr (sort_key (\<lambda>i. mg_outstanding (entry i)) entries), rt)
      else if strategy = least_latency then (Inr (sort_key (\<lambda>i. latency (entry i)) entries), rt)
      else if strategy = priority_fallback then (Inr (sort_key (\<lambda>i. pc_priority (mg_config (entry i))) entries), rt)
      else
        let weights = map (\<lambda>i. pc_weight (mg_config (entry i))) entries;
            tot = total_weight weights;
            rt' = rt\<lparr>rt_sequence := rt_sequence rt + 1\<rparr>
        in if tot = 0 then (Inl (GoPanic ''integer divide by zero''), rt')
           else let position = go_rem (sint (rt_sequence rt)) tot;
                    selected = weighted_pick position 0 weights
                in (Inr (drop selected entries @ take selected entries), rt'))"

subsection \<open>Selection\<close>

definition update_entry :: "nat \<Rightarrow> (managed \<Rightarrow> managed) \<Rightarrow> router \<Rightarrow> router" where
  "update_entry i f rt = rt\<lparr>rt_providers := (rt_providers rt)[i := f (rt_providers rt ! i)]\<rparr>"

definition allow_entry :: "go_time \<Rightarrow> nat \<Rightarrow> router \<Rightarrow> bool \<times> router" where
  "allow_entry now i rt =
     (case cb_allow now (mg_breaker (rt_providers rt ! i)) of
        (ok, b') \<Rightarrow> (ok, update_entry i (\<lambda>e. e\<lparr>mg_breaker := b'\<rparr>) rt))"

definition has_capacity :: "nat \<Rightarrow> router \<Rightarrow> bool" where
  "has_capacity i rt \<longleftrightarrow>
     mg_semaphore (rt_providers rt ! i) < pc_max_concurrency (mg_config (rt_providers rt ! i))"

definition take_slot :: "nat \<Rightarrow> router \<Rightarrow> router" where
  "take_slot i rt =
     update_entry i (\<lambda>e. e\<lparr>mg_semaphore := mg_semaphore e + 1, mg_outstanding := mg_outstanding e + 1\<rparr>) rt"

definition release_probe :: "nat \<Rightarrow> router \<Rightarrow> router" where
  "release_probe i rt = update_entry i (\<lambda>e. e\<lparr>mg_breaker := cb_release (mg_breaker e)\<rparr>) rt"

definition make_lease :: "nat \<Rightarrow> router \<Rightarrow> lease" where
  "make_lease i rt =
     (let e = rt_providers rt ! i
      in \<lparr>ls_entry = i, ls_provider = pv_name (mg_provider e), ls_timeout = pc_timeout (mg_config e),
          ls_input_cost = pc_input_cost (mg_config e), ls_output_cost = pc_output_cost (mg_config e),
          ls_released = False\<rparr>)"

fun try_entries :: "go_time \<Rightarrow> nat list \<Rightarrow> router \<Rightarrow> (go_error + lease) \<times> router" where
  "try_entries now [] rt = (Inl ErrNoEligibleProvider, rt)"
| "try_entries now (i # rest) rt =
     (case allow_entry now i rt of
        (False, rt') \<Rightarrow> try_entries now rest rt'
      | (True, rt') \<Rightarrow>
          if has_capacity i rt' then (Inr (make_lease i rt'), take_slot i rt')
          else try_entries now rest (release_probe i rt'))"

text \<open>\<open>clock\<close> is what \<open>time.Now\<close> would return, used when the selection carries no time.\<close>

definition effective :: "go_time \<Rightarrow> selection \<Rightarrow> selection" where
  "effective clock selection =
     (if time_is_zero (sl_now selection) then selection\<lparr>sl_now := clock\<rparr> else selection)"

definition select :: "go_time \<Rightarrow> selection \<Rightarrow> router \<Rightarrow> (go_error + lease) \<times> router" where
  "select clock selection rt =
     (let sel = effective clock selection;
          candidates = eligible sel rt
      in if candidates = [] then (Inl ErrNoEligibleProvider, rt)
         else case order candidates (sl_strategy sel) rt of
           (Inl e, rt') \<Rightarrow> (Inl e, rt')
         | (Inr ordered, rt') \<Rightarrow> try_entries (sl_now sel) ordered rt')"

subsection \<open>Prices\<close>

definition price_relevant :: "selection \<Rightarrow> managed \<Rightarrow> bool" where
  "price_relevant sel e \<longleftrightarrow> pc_enabled (mg_config e) \<and> policy_allows sel e \<and> can_serve sel e"

fun highest_prices_loop :: "selection \<Rightarrow> bool \<Rightarrow> int \<Rightarrow> int \<Rightarrow> managed list \<Rightarrow> go_error + (int \<times> int)" where
  "highest_prices_loop sel found inp out [] =
     (if \<not> found then Inl ErrNoEligibleProvider else Inr (inp, out))"
| "highest_prices_loop sel found inp out (e # es) =
     (if \<not> price_relevant sel e then highest_prices_loop sel found inp out es
      else highest_prices_loop sel True (max inp (pc_input_cost (mg_config e)))
             (max out (pc_output_cost (mg_config e))) es)"

definition highest_prices :: "selection \<Rightarrow> router \<Rightarrow> go_error + (int \<times> int)" where
  "highest_prices sel rt = highest_prices_loop sel False 0 0 (rt_providers rt)"

subsection \<open>Leases\<close>

definition lease_release :: "lease \<Rightarrow> router \<Rightarrow> bool \<times> lease \<times> router" where
  "lease_release l rt =
     (if ls_released l then (False, l, rt)
      else (True, l\<lparr>ls_released := True\<rparr>,
            update_entry (ls_entry l)
              (\<lambda>e. e\<lparr>mg_semaphore := mg_semaphore e - 1, mg_outstanding := mg_outstanding e - 1\<rparr>) rt))"

definition next_ewma :: "rat \<Rightarrow> duration \<Rightarrow> rat" where
  "next_ewma ewma lat =
     (let measurement = fl64 (of_int (duration_milliseconds lat))
      in if ewma = 0 then measurement
         else fl64 (fl64 (fl64 (1 / 5) * measurement) + fl64 (fl64 (4 / 5) * ewma)))"

definition lease_success :: "duration \<Rightarrow> lease \<Rightarrow> router \<Rightarrow> lease \<times> router" where
  "lease_success lat l rt =
     (case lease_release l rt of
        (False, l', rt') \<Rightarrow> (l', rt')
      | (True, l', rt') \<Rightarrow>
          (l', update_entry (ls_entry l)
                 (\<lambda>e. e\<lparr>mg_ewma := next_ewma (mg_ewma e) lat, mg_breaker := cb_success (mg_breaker e)\<rparr>) rt'))"

definition lease_failure :: "bool \<Rightarrow> go_time \<Rightarrow> lease \<Rightarrow> router \<Rightarrow> lease \<times> router" where
  "lease_failure retryable now l rt =
     (case lease_release l rt of
        (False, l', rt') \<Rightarrow> (l', rt')
      | (True, l', rt') \<Rightarrow>
          (l', update_entry (ls_entry l)
                 (\<lambda>e. e\<lparr>mg_breaker := (if retryable then cb_failure now (mg_breaker e)
                                          else cb_release (mg_breaker e))\<rparr>) rt'))"

subsection \<open>Frame lemmas\<close>

definition static_eq :: "router \<Rightarrow> router \<Rightarrow> bool" where
  "static_eq rt rt' \<longleftrightarrow>
     length (rt_providers rt') = length (rt_providers rt)
     \<and> (\<forall>i < length (rt_providers rt).
          mg_config (rt_providers rt' ! i) = mg_config (rt_providers rt ! i)
          \<and> mg_provider (rt_providers rt' ! i) = mg_provider (rt_providers rt ! i)
          \<and> mg_healthy (rt_providers rt' ! i) = mg_healthy (rt_providers rt ! i))"

lemma static_eq_refl [simp]: "static_eq rt rt"
  by (simp add: static_eq_def)

lemma static_eq_trans [trans]: "static_eq a b \<Longrightarrow> static_eq b c \<Longrightarrow> static_eq a c"
  by (simp add: static_eq_def)

lemma length_update_entry [simp]: "length (rt_providers (update_entry i f rt)) = length (rt_providers rt)"
  by (simp add: update_entry_def)

lemma nth_update_entry:
  "i < length (rt_providers rt) \<Longrightarrow>
     rt_providers (update_entry i f rt) ! j
       = (if j = i then f (rt_providers rt ! i) else rt_providers rt ! j)"
  by (simp add: update_entry_def)

lemma update_entry_out_of_range [simp]:
  "\<not> i < length (rt_providers rt) \<Longrightarrow> update_entry i f rt = rt"
  by (cases rt) (simp add: update_entry_def list_update_beyond not_less)

lemma static_eq_update_entry:
  assumes "\<And>e. mg_config (f e) = mg_config e \<and> mg_provider (f e) = mg_provider e \<and> mg_healthy (f e) = mg_healthy e"
  shows "static_eq rt (update_entry i f rt)"
  using assms by (cases "i < length (rt_providers rt)") (auto simp: static_eq_def nth_update_entry)

lemma static_eq_steps [simp]:
  "static_eq rt (take_slot i rt)" "static_eq rt (release_probe i rt)"
  "static_eq rt (snd (allow_entry now i rt))" "static_eq rt (snd (snd (lease_release l rt)))"
  "static_eq rt (snd (lease_success lat l rt))" "static_eq rt (snd (lease_failure retry now l rt))"
  by (auto simp: take_slot_def release_probe_def allow_entry_def lease_release_def lease_success_def
      lease_failure_def split: prod.splits if_splits bool.splits
      intro!: static_eq_update_entry static_eq_trans [OF static_eq_update_entry static_eq_update_entry])

lemma static_eq_sequence [simp]: "static_eq rt (rt\<lparr>rt_sequence := s\<rparr>)"
  by (simp add: static_eq_def)

lemma order_providers [simp]: "rt_providers (snd (order es strategy rt)) = rt_providers rt"
  by (simp add: order_def Let_def)

lemma order_static [simp]: "static_eq rt (snd (order es strategy rt))"
  by (simp add: static_eq_def)

lemma allow_entry_fst [simp]:
  "fst (allow_entry now i rt) = fst (cb_allow now (mg_breaker (rt_providers rt ! i)))"
  by (simp add: allow_entry_def split: prod.splits)

text \<open>The slots in use, the semaphore count of each provider.\<close>

definition slots :: "router \<Rightarrow> nat \<Rightarrow> int" where
  "slots rt i = mg_semaphore (rt_providers rt ! i)"

definition breaker_of :: "router \<Rightarrow> nat \<Rightarrow> breaker" where
  "breaker_of rt i = mg_breaker (rt_providers rt ! i)"

definition admits :: "go_time \<Rightarrow> router \<Rightarrow> nat \<Rightarrow> bool" where
  "admits now rt i \<longleftrightarrow> fst (cb_allow now (breaker_of rt i))"

lemma slots_steps [simp]:
  "slots (release_probe i rt) = slots rt"
  "slots (snd (allow_entry now i rt)) = slots rt"
  "i < length (rt_providers rt) \<Longrightarrow> slots (take_slot i rt) = (slots rt)(i := slots rt i + 1)"
  by (cases "i < length (rt_providers rt)";
      auto simp: slots_def fun_eq_iff release_probe_def allow_entry_def take_slot_def nth_update_entry
        split: prod.splits)+

lemma breaker_of_allow:
  "j \<noteq> i \<Longrightarrow> breaker_of (snd (allow_entry now i rt)) j = breaker_of rt j"
  by (cases "i < length (rt_providers rt)")
     (auto simp: breaker_of_def allow_entry_def nth_update_entry split: prod.splits)

lemma has_capacity_static:
  "static_eq rt rt' \<Longrightarrow> slots rt' = slots rt \<Longrightarrow> i < length (rt_providers rt) \<Longrightarrow>
     has_capacity i rt' = has_capacity i rt"
  by (simp add: has_capacity_def static_eq_def slots_def fun_eq_iff)

lemma make_lease_static:
  "static_eq rt rt' \<Longrightarrow> i < length (rt_providers rt) \<Longrightarrow> make_lease i rt' = make_lease i rt"
  by (simp add: make_lease_def static_eq_def Let_def)

lemma try_entries_static: "static_eq rt (snd (try_entries now is rt))"
proof (induction now "is" rt rule: try_entries.induct)
  case (2 now i rest rt)
  obtain ok rt' where ok: "allow_entry now i rt = (ok, rt')" by fastforce
  have rt': "static_eq rt rt'" using static_eq_steps(3) [of rt now i] ok by simp
  show ?case
    using ok 2 static_eq_trans [OF rt'] static_eq_trans [OF static_eq_steps(2)] static_eq_steps(1)
    by (cases ok) (auto intro: static_eq_trans [OF rt'] static_eq_trans [OF static_eq_steps(2)])
qed simp

text \<open>
  Each candidate is tried once, on its own breaker, so with free capacity the lease goes to the first
  candidate whose breaker admits.
\<close>

lemma try_entries_result:
  assumes "distinct is" "\<forall>i \<in> set is. i < length (rt_providers rt) \<and> has_capacity i rt"
  shows "fst (try_entries now is rt) =
    (case find (admits now rt) is of None \<Rightarrow> Inl ErrNoEligibleProvider | Some i \<Rightarrow> Inr (make_lease i rt))"
  using assms
proof (induction "is" arbitrary: rt)
  case (Cons i rest)
  obtain ok rt' where ok: "allow_entry now i rt = (ok, rt')" by fastforce
  have st: "static_eq rt rt'" and sl: "slots rt' = slots rt"
    and ok': "ok = admits now rt i"
    using static_eq_steps(3) [of rt now i] slots_steps(2) [of now i rt] allow_entry_fst [of now i rt] ok
    by (simp_all add: admits_def breaker_of_def)
  have adm: "admits now rt' j = admits now rt j" if "j \<in> set rest" for j
  proof -
    have "j \<noteq> i" using that Cons.prems(1) by auto
    then show ?thesis using breaker_of_allow [of j i now rt] ok by (simp add: admits_def)
  qed
  have cap: "has_capacity j rt' = has_capacity j rt" "make_lease j rt' = make_lease j rt"
    if "j \<in> set (i # rest)" for j
    using that Cons.prems(2) has_capacity_static [OF st sl] make_lease_static [OF st] by auto
  have len: "length (rt_providers rt') = length (rt_providers rt)" using st by (simp add: static_eq_def)
  show ?case
  proof (cases ok)
    case True
    then show ?thesis using ok ok' cap Cons.prems by simp
  next
    case False
    have "fst (try_entries now rest rt') =
        (case find (admits now rt') rest of None \<Rightarrow> Inl ErrNoEligibleProvider | Some k \<Rightarrow> Inr (make_lease k rt'))"
      using Cons.prems cap len by (intro Cons.IH) auto
    also have "find (admits now rt') rest = find (admits now rt) rest"
      using adm by (intro find_cong) auto
    finally have res: "fst (try_entries now rest rt') =
        (case find (admits now rt) rest of None \<Rightarrow> Inl ErrNoEligibleProvider | Some k \<Rightarrow> Inr (make_lease k rt'))" .
    show ?thesis
    proof (cases "find (admits now rt) rest")
      case None
      with res False ok ok' show ?thesis by simp
    next
      case (Some k)
      then have "k \<in> set rest" by (auto simp: find_Some_iff)
      with Some res False ok ok' cap(2) [of k] show ?thesis by simp
    qed
  qed
qed simp

lemma try_entries_slots:
  assumes "\<forall>i \<in> set is. i < length (rt_providers rt)"
  shows "slots (snd (try_entries now is rt)) =
    (case fst (try_entries now is rt) of
       Inl e \<Rightarrow> slots rt
     | Inr l \<Rightarrow> (slots rt)(ls_entry l := slots rt (ls_entry l) + 1))"
  using assms
proof (induction now "is" rt rule: try_entries.induct)
  case (2 now i rest rt)
  obtain ok rt' where ok: "allow_entry now i rt = (ok, rt')" by fastforce
  have sl: "slots rt' = slots rt" and len: "length (rt_providers rt') = length (rt_providers rt)"
    using slots_steps(2) [of now i rt] static_eq_steps(3) [of rt now i] ok by (simp_all add: static_eq_def)
  have len2: "length (rt_providers (release_probe i rt')) = length (rt_providers rt')"
    by (simp add: release_probe_def)
  show ?case
    using 2 ok sl len len2 by (cases ok) (auto simp: make_lease_def Let_def split: sum.splits)
qed simp

subsection \<open>Ordering\<close>

lemma order_mset:
  "fst (order es strategy rt) = Inr os \<Longrightarrow> mset os = mset es"
proof -
  have rot: "mset (drop k es @ take k es) = mset es" for k
    by (metis append_take_drop_id mset_append union_commute)
  assume "fst (order es strategy rt) = Inr os"
  then show ?thesis using rot by (auto simp: order_def Let_def split: if_splits)
qed

lemma total_weight_from:
  assumes "\<forall>w \<in> set ws. 0 \<le> w" "0 \<le> a" "a + sum_list ws \<le> max_int64"
  shows "foldl (\<lambda>t w. i64 (t + w)) a ws = a + sum_list ws"
  using assms
proof (induction ws arbitrary: a)
  case (Cons w ws)
  have "0 \<le> sum_list ws" using Cons.prems(1) by (intro sum_list_nonneg) auto
  then have "in_i64 (a + w)" using Cons.prems by (auto simp: in_i64_def max_int64_def)
  then show ?case using Cons by (simp add: add.assoc)
qed simp

lemma total_weight_eq:
  "\<forall>w \<in> set ws. 0 \<le> w \<Longrightarrow> sum_list ws \<le> max_int64 \<Longrightarrow> total_weight ws = sum_list ws"
  using total_weight_from [of ws 0] by (simp add: total_weight_def)

lemma sum_list_filter_le_int:
  "(\<And>x. x \<in> set xs \<Longrightarrow> 0 \<le> f x) \<Longrightarrow> sum_list (map f (filter P xs)) \<le> (sum_list (map f xs) :: int)"
  by (induction xs) (auto simp: add_increasing)

subsection \<open>The registry invariant\<close>

definition entry_inv :: "managed \<Rightarrow> bool" where
  "entry_inv e \<longleftrightarrow>
     0 \<le> mg_semaphore e \<and> mg_semaphore e \<le> pc_max_concurrency (mg_config e)
     \<and> mg_outstanding e = mg_semaphore e \<and> 0 < pc_weight (mg_config e)
     \<and> 0 < pc_timeout (mg_config e) \<and> cb_inv (mg_breaker e)"

definition weight_of :: "managed \<Rightarrow> int" where
  "weight_of e = pc_weight (mg_config e)"

definition router_inv :: "router \<Rightarrow> bool" where
  "router_inv rt \<longleftrightarrow>
     (\<forall>i < length (rt_providers rt). entry_inv (rt_providers rt ! i))
     \<and> sum_list (map weight_of (rt_providers rt)) \<le> max_int64"

lemma weight_static:
  assumes "static_eq rt rt'"
  shows "map weight_of (rt_providers rt') = map weight_of (rt_providers rt)"
  using assms by (auto simp: static_eq_def weight_of_def intro!: nth_equalityI)

lemma eligible_props:
  "distinct (eligible sel rt)"
  "i \<in> set (eligible sel rt) \<longleftrightarrow> i < length (rt_providers rt) \<and> eligible_entry sel (rt_providers rt ! i)"
  by (auto simp: eligible_def)

lemma eligible_weights:
  fixes sel :: selection
  assumes "router_inv rt"
  defines "ws \<equiv> map (\<lambda>i. pc_weight (mg_config (rt_providers rt ! i))) (eligible sel rt)"
  shows "\<forall>w \<in> set ws. 0 < w" "total_weight ws = sum_list ws" "sum_list ws \<le> max_int64"
proof -
  let ?w = "\<lambda>i. weight_of (rt_providers rt ! i)"
  have ws: "ws = map ?w (filter (\<lambda>i. eligible_entry sel (rt_providers rt ! i)) [0..<length (rt_providers rt)])"
    by (simp add: ws_def eligible_def weight_of_def)
  show pos: "\<forall>w \<in> set ws. 0 < w"
    using assms(1) by (auto simp: ws router_inv_def entry_inv_def weight_of_def)
  have "sum_list ws \<le> sum_list (map ?w [0..<length (rt_providers rt)])"
    unfolding ws using assms(1)
    by (intro sum_list_filter_le_int) (auto simp: router_inv_def entry_inv_def weight_of_def less_imp_le)
  also have "map ?w [0..<length (rt_providers rt)] = map weight_of (rt_providers rt)"
    by (intro nth_equalityI) auto
  finally show le: "sum_list ws \<le> max_int64" using assms(1) by (simp add: router_inv_def)
  show "total_weight ws = sum_list ws" using pos le by (intro total_weight_eq) (auto simp: less_imp_le)
qed

lemma order_total:
  assumes "router_inv rt" "eligible sel rt \<noteq> []"
  obtains os where "fst (order (eligible sel rt) strategy rt) = Inr os"
proof -
  let ?ws = "map (\<lambda>i. pc_weight (mg_config (rt_providers rt ! i))) (eligible sel rt)"
  have "0 < sum_list ?ws"
    using eligible_weights(1) [OF assms(1), of sel] assms(2)
    by (cases "eligible sel rt") (auto intro!: add_pos_nonneg sum_list_nonneg simp: less_imp_le)
  then have "total_weight ?ws \<noteq> 0" using eligible_weights(2) [OF assms(1), of sel] by simp
  then show thesis using that by (fastforce simp: order_def Let_def split: if_splits)
qed

lemma router_inv_static:
  assumes "router_inv rt" "static_eq rt rt'"
    and "\<And>i. i < length (rt_providers rt) \<Longrightarrow> entry_inv (rt_providers rt ! i) \<Longrightarrow> entry_inv (rt_providers rt' ! i)"
  shows "router_inv rt'"
  using assms weight_static [OF assms(2)] by (auto simp: router_inv_def static_eq_def)

lemma router_inv_sequence [simp]: "router_inv (rt\<lparr>rt_sequence := s\<rparr>) = router_inv rt"
  by (simp add: router_inv_def)

lemma router_inv_allow: "router_inv rt \<Longrightarrow> router_inv (snd (allow_entry now i rt))"
  by (rule router_inv_static, assumption, simp, cases "i < length (rt_providers rt)")
     (auto simp: allow_entry_def entry_inv_def nth_update_entry split: prod.splits
       dest: cb_inv_allow [of _ now])

lemma router_inv_release_probe: "router_inv rt \<Longrightarrow> router_inv (release_probe i rt)"
  by (rule router_inv_static, assumption, simp, cases "i < length (rt_providers rt)")
     (auto simp: release_probe_def entry_inv_def nth_update_entry cb_inv_release)

lemma router_inv_take_slot: "router_inv rt \<Longrightarrow> has_capacity i rt \<Longrightarrow> router_inv (take_slot i rt)"
  by (rule router_inv_static, assumption, simp, cases "i < length (rt_providers rt)")
     (auto simp: take_slot_def entry_inv_def nth_update_entry has_capacity_def)

lemma router_inv_try_entries: "router_inv rt \<Longrightarrow> router_inv (snd (try_entries now is rt))"
proof (induction now "is" rt rule: try_entries.induct)
  case (2 now i rest rt)
  obtain ok rt' where ok: "allow_entry now i rt = (ok, rt')" by fastforce
  have "router_inv rt'" using router_inv_allow [OF 2(3), of now i] ok by simp
  then show ?case
    using 2 ok by (cases ok) (auto simp: router_inv_take_slot router_inv_release_probe)
qed simp

lemma router_inv_release:
  assumes "router_inv rt" "\<not> ls_released l \<Longrightarrow> 0 < slots rt (ls_entry l)"
  shows "router_inv (snd (snd (lease_release l rt)))"
  using assms(1)
proof (rule router_inv_static)
  fix i
  assume "i < length (rt_providers rt)" "entry_inv (rt_providers rt ! i)"
  then show "entry_inv (rt_providers (snd (snd (lease_release l rt))) ! i)"
    using assms(2) by (cases "ls_entry l < length (rt_providers rt)")
      (auto simp: lease_release_def entry_inv_def nth_update_entry slots_def)
qed simp

lemma router_inv_success:
  assumes "router_inv rt" "\<not> ls_released l \<Longrightarrow> 0 < slots rt (ls_entry l)"
  shows "router_inv (snd (lease_success lat l rt))"
proof -
  obtain ok l' rt' where r: "lease_release l rt = (ok, l', rt')" by (cases "lease_release l rt") auto
  have inv: "router_inv rt'" using router_inv_release [OF assms] r by simp
  have "router_inv (update_entry (ls_entry l)
      (\<lambda>e. e\<lparr>mg_ewma := next_ewma (mg_ewma e) lat, mg_breaker := cb_success (mg_breaker e)\<rparr>) rt')"
    using inv by (rule router_inv_static, intro static_eq_update_entry, simp,
        cases "ls_entry l < length (rt_providers rt')")
      (auto simp: entry_inv_def nth_update_entry cb_inv_success)
  then show ?thesis using r inv by (cases ok) (simp_all add: lease_success_def)
qed

lemma router_inv_failure:
  assumes "router_inv rt" "\<not> ls_released l \<Longrightarrow> 0 < slots rt (ls_entry l)"
  shows "router_inv (snd (lease_failure retryable now l rt))"
proof -
  obtain ok l' rt' where r: "lease_release l rt = (ok, l', rt')" by (cases "lease_release l rt") auto
  have inv: "router_inv rt'" using router_inv_release [OF assms] r by simp
  have "router_inv (update_entry (ls_entry l)
      (\<lambda>e. e\<lparr>mg_breaker := (if retryable then cb_failure now (mg_breaker e) else cb_release (mg_breaker e))\<rparr>) rt')"
    using inv by (rule router_inv_static, intro static_eq_update_entry, simp,
        cases "ls_entry l < length (rt_providers rt')")
      (auto simp: entry_inv_def nth_update_entry cb_inv_failure cb_inv_release)
  then show ?thesis using r inv by (cases ok) (simp_all add: lease_failure_def)
qed

lemma new_entries_inv:
  "new_entries bc configs = Inr es \<Longrightarrow>
     list_all entry_inv es \<and> map mg_config es = map default_config configs \<and> length es = length configs"
  by (induction configs arbitrary: es)
     (auto simp: entry_inv_def default_config_def Let_def second_def split: option.splits sum.splits)

lemma router_inv_new:
  assumes "new_router configs bc = Inr rt" "sum_list (map (pc_weight \<circ> default_config) configs) \<le> max_int64"
  shows "router_inv rt"
proof -
  obtain es where es: "new_entries bc configs = Inr es" "rt_providers rt = es"
    using assms(1) by (auto simp: new_router_def split: if_splits sum.splits)
  have "map weight_of es = map pc_weight (map mg_config es)" by (simp add: weight_of_def)
  also have "\<dots> = map (pc_weight \<circ> default_config) configs" using new_entries_inv [OF es(1)] by simp
  finally show ?thesis
    using assms(2) es(2) new_entries_inv [OF es(1)] by (simp add: router_inv_def list_all_length)
qed

subsection \<open>What a selection returns\<close>

definition admissible :: "selection \<Rightarrow> router \<Rightarrow> nat \<Rightarrow> bool" where
  "admissible sel rt i \<longleftrightarrow>
     i < length (rt_providers rt) \<and> eligible_entry sel (rt_providers rt ! i) \<and> admits (sl_now sel) rt i"

lemma effective_fields [simp]:
  "sl_model (effective clock sel) = sl_model sel" "sl_classification (effective clock sel) = sl_classification sel"
  "sl_allowed (effective clock sel) = sl_allowed sel" "sl_excluded (effective clock sel) = sl_excluded sel"
  "sl_strategy (effective clock sel) = sl_strategy sel"
  by (simp_all add: effective_def)

lemma sequence_irrelevant:
  "rt_providers rt1 = rt_providers rt \<Longrightarrow> admits now rt1 = admits now rt"
  "rt_providers rt1 = rt_providers rt \<Longrightarrow> has_capacity i rt1 = has_capacity i rt"
  "rt_providers rt1 = rt_providers rt \<Longrightarrow> make_lease i rt1 = make_lease i rt"
  "rt_providers rt1 = rt_providers rt \<Longrightarrow> slots rt1 = slots rt"
  by (auto simp: admits_def breaker_of_def has_capacity_def make_lease_def slots_def fun_eq_iff)

lemma select_ordered:
  fixes clock selection
  assumes "router_inv rt"
  defines "sel \<equiv> effective clock selection"
  assumes "eligible sel rt \<noteq> []"
  obtains os rt1 where "order (eligible sel rt) (sl_strategy sel) rt = (Inr os, rt1)"
    "distinct os" "set os = set (eligible sel rt)" "rt_providers rt1 = rt_providers rt"
    "select clock selection rt = try_entries (sl_now sel) os rt1"
    "fst (select clock selection rt) =
       (case find (admits (sl_now sel) rt) os of
          None \<Rightarrow> Inl ErrNoEligibleProvider | Some i \<Rightarrow> Inr (make_lease i rt))"
proof -
  obtain os where os: "fst (order (eligible sel rt) (sl_strategy sel) rt) = Inr os"
    using order_total [OF assms(1,3)] .
  define rt1 where "rt1 = snd (order (eligible sel rt) (sl_strategy sel) rt)"
  have ord: "order (eligible sel rt) (sl_strategy sel) rt = (Inr os, rt1)"
    using os by (simp add: rt1_def prod_eq_iff)
  have "mset os = mset (eligible sel rt)" using os by (rule order_mset)
  then have os': "distinct os" "set os = set (eligible sel rt)"
    using eligible_props(1) [of sel rt] by (metis mset_eq_imp_distinct_iff, metis mset_eq_setD)
  have rt1: "rt_providers rt1 = rt_providers rt" by (simp add: rt1_def)
  have sel: "select clock selection rt = try_entries (sl_now sel) os rt1"
    using assms(3) ord by (simp add: select_def sel_def Let_def)
  have "\<forall>i \<in> set os. i < length (rt_providers rt1) \<and> has_capacity i rt1"
    using os'(2) by (auto simp: rt1 sequence_irrelevant [OF rt1] eligible_props eligible_entry_def has_capacity_def)
  with os'(1) have "fst (select clock selection rt) =
       (case find (admits (sl_now sel) rt) os of
          None \<Rightarrow> Inl ErrNoEligibleProvider | Some i \<Rightarrow> Inr (make_lease i rt))"
    by (simp add: sel try_entries_result sequence_irrelevant [OF rt1] cong: option.case_cong)
  then show thesis using that ord os' rt1 sel by blast
qed

lemma select_empty:
  "eligible (effective clock selection) rt = [] \<Longrightarrow>
     select clock selection rt = (Inl ErrNoEligibleProvider, rt)"
  by (simp add: select_def Let_def)

lemma select_result:
  assumes "router_inv rt"
  shows "(\<not> (\<exists>i. admissible (effective clock selection) rt i)
           \<and> fst (select clock selection rt) = Inl ErrNoEligibleProvider)
       \<or> (\<exists>i. admissible (effective clock selection) rt i
           \<and> fst (select clock selection rt) = Inr (make_lease i rt))"
proof (cases "eligible (effective clock selection) rt = []")
  case True
  then have "\<not> admissible (effective clock selection) rt i" for i
    using eligible_props(2) [of i "effective clock selection" rt] by (auto simp: admissible_def)
  then show ?thesis using select_empty [OF True] by simp
next
  case False
  let ?sel = "effective clock selection"
  obtain os where os: "set os = set (eligible ?sel rt)" "fst (select clock selection rt) =
      (case find (admits (sl_now ?sel) rt) os of
          None \<Rightarrow> Inl ErrNoEligibleProvider | Some i \<Rightarrow> Inr (make_lease i rt))"
    using select_ordered [OF assms False] by metis
  have adm: "admissible ?sel rt i \<longleftrightarrow> i \<in> set os \<and> admits (sl_now ?sel) rt i" for i
    using os(1) by (auto simp: admissible_def eligible_props)
  show ?thesis
  proof (cases "find (admits (sl_now ?sel) rt) os")
    case None
    with os(2) adm show ?thesis by (simp add: find_None_iff)
  next
    case (Some i)
    then have "i \<in> set os \<and> admits (sl_now ?sel) rt i" by (auto simp: find_Some_iff)
    with Some os(2) adm show ?thesis by auto
  qed
qed

lemma select_slots:
  "slots (snd (select clock selection rt)) =
     (case fst (select clock selection rt) of
        Inl e \<Rightarrow> slots rt
      | Inr l \<Rightarrow> (slots rt)(ls_entry l := slots rt (ls_entry l) + 1))"
proof (cases "eligible (effective clock selection) rt = []")
  case False
  let ?sel = "effective clock selection"
  obtain r rt1 where ord: "order (eligible ?sel rt) (sl_strategy ?sel) rt = (r, rt1)" by fastforce
  have rt1: "rt_providers rt1 = rt_providers rt"
    using order_providers [of "eligible ?sel rt" "sl_strategy ?sel" rt] unfolding ord by simp
  show ?thesis
  proof (cases r)
    case (Inr os)
    then have "mset os = mset (eligible ?sel rt)" using order_mset ord by (metis fst_conv)
    then have "\<forall>i \<in> set os. i < length (rt_providers rt1)"
      using rt1 eligible_props(2) by (metis mset_eq_setD)
    from try_entries_slots [OF this] show ?thesis
      using False ord Inr by (simp add: select_def Let_def sequence_irrelevant [OF rt1] cong: sum.case_cong)
  qed (use False ord in \<open>simp add: select_def Let_def sequence_irrelevant [OF rt1]\<close>)
qed (simp add: select_empty)

lemma select_static: "static_eq rt (snd (select clock selection rt))"
proof -
  let ?sel = "effective clock selection"
  have "static_eq rt (snd (try_entries now os (snd (order (eligible ?sel rt) (sl_strategy ?sel) rt))))" for now os
    by (rule static_eq_trans [OF order_static try_entries_static])
  then show ?thesis
    by (auto simp: select_def Let_def split: prod.splits sum.splits intro: order_static)
       (metis order_static snd_conv)
qed

lemma select_inv: "router_inv rt \<Longrightarrow> router_inv (snd (select clock selection rt))"
proof (cases "eligible (effective clock selection) rt = []")
  case False
  assume inv: "router_inv rt"
  obtain os rt1 where "rt_providers rt1 = rt_providers rt"
      "select clock selection rt = try_entries (sl_now (effective clock selection)) os rt1"
    using select_ordered [OF inv False] by metis
  then show ?thesis using inv router_inv_try_entries [of rt1] by (simp add: router_inv_def)
qed (simp add: select_empty)

subsection \<open>Weighted round robin\<close>

lemma weighted_pick_range:
  assumes "\<forall>w \<in> set ws. 0 < w" "0 \<le> p" "p < sum_list ws" "sum_list ws \<le> max_int64"
  shows "\<exists>i < length ws. weighted_pick p k ws = k + i \<and> sum_list (take i ws) \<le> p \<and> p < sum_list (take (Suc i) ws)"
  using assms
proof (induction ws arbitrary: p k)
  case (Cons w ws)
  have nn: "0 \<le> sum_list ws" using Cons.prems(1) by (intro sum_list_nonneg) (auto simp: less_imp_le)
  have in64: "in_i64 (p - w)" using Cons.prems nn by (auto simp: in_i64_def max_int64_def)
  show ?case
  proof (cases "p < w")
    case True
    then show ?thesis using in64 Cons.prems(2) by (intro exI [of _ 0]) (simp add: Let_def)
  next
    case False
    then obtain i where "i < length ws" "weighted_pick (p - w) (Suc k) ws = Suc k + i"
        "sum_list (take i ws) \<le> p - w" "p - w < sum_list (take (Suc i) ws)"
      using Cons.IH [of "p - w" "Suc k"] Cons.prems by force
    then show ?thesis using in64 False by (intro exI [of _ "Suc i"]) (simp add: Let_def)
  qed
qed simp

lemma sum_list_take_mono:
  fixes ws :: "int list"
  assumes "\<forall>w \<in> set ws. 0 < w" "i \<le> j"
  shows "sum_list (take i ws) \<le> sum_list (take j ws)"
proof -
  obtain d where "j = i + d" using assms(2) le_Suc_ex by blast
  moreover have "0 \<le> sum_list (take d (drop i ws))"
    using assms(1) by (intro sum_list_nonneg) (meson in_set_dropD in_set_takeD less_imp_le)
  ultimately show ?thesis by (simp add: take_add)
qed

lemma weighted_pick_iff:
  assumes "\<forall>w \<in> set ws. 0 < w" "0 \<le> p" "p < sum_list ws" "sum_list ws \<le> max_int64"
  shows "weighted_pick p 0 ws = i \<and> i < length ws
    \<longleftrightarrow> i < length ws \<and> sum_list (take i ws) \<le> p \<and> p < sum_list (take (Suc i) ws)"
proof -
  obtain j where j: "j < length ws" "weighted_pick p 0 ws = j"
      "sum_list (take j ws) \<le> p" "p < sum_list (take (Suc j) ws)"
    using weighted_pick_range [OF assms, of 0] by auto
  have "i = j" if "sum_list (take i ws) \<le> p" "p < sum_list (take (Suc i) ws)"
  proof (rule ccontr)
    assume "i \<noteq> j"
    then consider "Suc i \<le> j" | "Suc j \<le> i" by linarith
    then show False
      using that j(3,4) sum_list_take_mono [OF assms(1), of "Suc i" j] sum_list_take_mono [OF assms(1), of "Suc j" i]
      by cases auto
  qed
  with j show ?thesis by blast
qed

lemma weighted_pick_count:
  assumes "\<forall>w \<in> set ws. 0 < w" "sum_list ws \<le> max_int64" "i < length ws"
  shows "card {p. p < nat (sum_list ws) \<and> weighted_pick (int p) 0 ws = i} = nat (ws ! i)"
proof -
  have S: "sum_list (take (Suc i) ws) = sum_list (take i ws) + ws ! i"
    using assms(3) by (simp add: take_Suc_conv_app_nth)
  have top: "sum_list (take (Suc i) ws) \<le> sum_list ws"
    using sum_list_take_mono [OF assms(1), of "Suc i" "length ws"] assms(3) by simp
  have bot: "0 \<le> sum_list (take i ws)" using sum_list_take_mono [OF assms(1), of 0 i] by simp
  have pos: "0 < ws ! i" using assms(1,3) by simp
  have "{p. p < nat (sum_list ws) \<and> weighted_pick (int p) 0 ws = i}
      = {nat (sum_list (take i ws)) ..< nat (sum_list (take (Suc i) ws))}"
  proof (intro set_eqI)
    fix p
    show "p \<in> {p. p < nat (sum_list ws) \<and> weighted_pick (int p) 0 ws = i}
        \<longleftrightarrow> p \<in> {nat (sum_list (take i ws)) ..< nat (sum_list (take (Suc i) ws))}"
    proof (cases "int p < sum_list ws")
      case True
      then show ?thesis using weighted_pick_iff [OF assms(1) _ True assms(2), of i] assms(3) bot by auto
    next
      case False
      then show ?thesis using top bot by auto
    qed
  qed
  then show ?thesis using S bot pos by simp
qed

lemma card_mod_shift:
  fixes n s :: nat
  shows "card {k. k < n \<and> P ((s + k) mod n)} = card {p. p < n \<and> P p}"
proof (cases "n = 0")
  case False
  let ?f = "\<lambda>k. (s + k) mod n"
  have inj: "inj_on ?f {..<n}"
  proof (rule inj_onI)
    fix x y
    assume "x \<in> {..<n}" "y \<in> {..<n}" "?f x = ?f y"
    then have "(int x + int s) mod int n = (int y + int s) mod int n"
      by (metis add.commute of_nat_add of_nat_mod)
    then have "int x mod int n = int y mod int n" by (simp only: add_mod_cancel)
    with \<open>x \<in> _\<close> \<open>y \<in> _\<close> show "x = y" by simp
  qed
  have surj: "?f ` {..<n} = {..<n}"
    using False inj by (intro endo_inj_surj) auto
  have "{p. p < n \<and> P p} = ?f ` {k. k < n \<and> P (?f k)}"
  proof (intro set_eqI iffI)
    fix p
    assume p: "p \<in> {p. p < n \<and> P p}"
    then have "p \<in> ?f ` {..<n}" unfolding surj by simp
    then obtain k where "k < n" "p = ?f k" by blast
    with p show "p \<in> ?f ` {k. k < n \<and> P (?f k)}" by blast
  qed (use False in auto)
  moreover have "inj_on ?f {k. k < n \<and> P (?f k)}" using inj by (rule inj_on_subset) auto
  ultimately show ?thesis by (simp add: card_image)
qed simp

lemma sint_of_nat_64: "n < 2 ^ 63 \<Longrightarrow> sint (of_nat n :: 64 word) = int n"
  by (simp add: signed_of_nat signed_take_bit_int_eq_self)

lemma order_weighted:
  assumes "router_inv rt" "eligible sel rt \<noteq> []"
    and "strategy \<notin> {least_outstanding, least_latency, priority_fallback}"
    and "rt_sequence rt = of_nat n" "n < 2 ^ 63"
  defines "ws \<equiv> map (\<lambda>i. pc_weight (mg_config (rt_providers rt ! i))) (eligible sel rt)"
  defines "k \<equiv> weighted_pick (int n mod sum_list ws) 0 ws"
  shows "fst (order (eligible sel rt) strategy rt) = Inr (drop k (eligible sel rt) @ take k (eligible sel rt))"
    and "k < length (eligible sel rt)"
proof -
  have pos: "\<forall>w \<in> set ws. 0 < w" and tot: "total_weight ws = sum_list ws" and le: "sum_list ws \<le> max_int64"
    unfolding ws_def using eligible_weights [OF assms(1), of sel] by auto
  have gt: "0 < sum_list ws"
    using pos assms(2) by (cases "eligible sel rt") (auto simp: ws_def less_imp_le intro!: add_pos_nonneg sum_list_nonneg)
  have rem: "go_rem (sint (rt_sequence rt)) (total_weight ws) = int n mod sum_list ws"
    using gt assms(4,5) by (simp add: tot sint_of_nat_64 go_rem_nonneg)
  have k: "weighted_pick (go_rem (sint (rt_sequence rt)) (total_weight ws)) 0 ws = k"
    by (simp add: k_def rem)
  show "fst (order (eligible sel rt) strategy rt) = Inr (drop k (eligible sel rt) @ take k (eligible sel rt))"
    using assms(3) gt tot k unfolding order_def by (simp add: Let_def ws_def)
  have "\<exists>i < length ws. k = 0 + i \<and> sum_list (take i ws) \<le> int n mod sum_list ws
      \<and> int n mod sum_list ws < sum_list (take (Suc i) ws)"
    unfolding k_def using gt by (intro weighted_pick_range pos le) auto
  then show "k < length (eligible sel rt)" by (auto simp: ws_def)
qed

text \<open>
  C18. Weighted round robin is fair: over as many consecutive sequence numbers as the weights of the
  eligible providers sum to, each eligible provider comes first exactly as often as its weight says.
\<close>

theorem weighted_round_robin_is_fair:
  fixes sel :: selection
  assumes "router_inv rt"
    and "strategy \<notin> {least_outstanding, least_latency, priority_fallback}"
    and "i < length (eligible sel rt)"
  defines "ws \<equiv> map (\<lambda>j. pc_weight (mg_config (rt_providers rt ! j))) (eligible sel rt)"
  assumes "s + nat (sum_list ws) \<le> 2 ^ 63"
  shows "card {k. k < nat (sum_list ws) \<and>
           (\<exists>rest. fst (order (eligible sel rt) strategy (rt\<lparr>rt_sequence := of_nat (s + k)\<rparr>))
                     = Inr (eligible sel rt ! i # rest))}
         = nat (pc_weight (mg_config (rt_providers rt ! (eligible sel rt ! i))))"
proof -
  let ?es = "eligible sel rt" and ?n = "nat (sum_list ws)"
  let ?k = "\<lambda>m. weighted_pick (int m mod sum_list ws) 0 ws"
  have el: "eligible sel (rt\<lparr>rt_sequence := x\<rparr>) = ?es" for x by (simp add: eligible_def)
  have pos: "\<forall>w \<in> set ws. 0 < w" and le: "sum_list ws \<le> max_int64"
    unfolding ws_def using eligible_weights [OF assms(1), of sel] by auto
  have first: "(\<exists>rest. fst (order ?es strategy (rt\<lparr>rt_sequence := of_nat (s + k)\<rparr>)) = Inr (?es ! i # rest))
      \<longleftrightarrow> weighted_pick (int ((s + k) mod ?n)) 0 ws = i" if "k < ?n" for k
  proof -
    let ?rt = "rt\<lparr>rt_sequence := of_nat (s + k)\<rparr>"
    have ne: "?es \<noteq> []" using assms(3) by auto
    have lt: "s + k < 2 ^ 63" using assms(5) that by linarith
    have ord: "fst (order ?es strategy ?rt) = Inr (drop (?k (s + k)) ?es @ take (?k (s + k)) ?es)"
        "?k (s + k) < length ?es"
      using order_weighted [of ?rt sel strategy "s + k"] ne lt assms(1,2) by (simp_all add: el ws_def)
    have "(\<exists>rest. drop (?k (s + k)) ?es @ take (?k (s + k)) ?es = ?es ! i # rest) \<longleftrightarrow> ?es ! ?k (s + k) = ?es ! i"
      using ord(2) by (metis Cons_nth_drop_Suc append_Cons list.inject)
    also have "\<dots> \<longleftrightarrow> ?k (s + k) = i"
      using ord(2) assms(3) eligible_props(1) [of sel rt] by (simp add: nth_eq_iff_index_eq)
    finally have "(\<exists>rest. drop (?k (s + k)) ?es @ take (?k (s + k)) ?es = ?es ! i # rest) \<longleftrightarrow> ?k (s + k) = i" .
    moreover have "0 \<le> sum_list ws" using that by linarith
    ultimately show ?thesis using ord(1) by (simp add: of_nat_mod)
  qed
  have "card {k. k < ?n \<and> (\<exists>rest. fst (order ?es strategy (rt\<lparr>rt_sequence := of_nat (s + k)\<rparr>))
      = Inr (?es ! i # rest))} = card {k. k < ?n \<and> weighted_pick (int ((s + k) mod ?n)) 0 ws = i}"
    using first by (intro arg_cong [where f = card]) auto
  also have "\<dots> = card {p. p < ?n \<and> weighted_pick (int p) 0 ws = i}"
    by (rule card_mod_shift)
  also have "\<dots> = nat (ws ! i)"
    using assms(3) by (intro weighted_pick_count pos le) (simp add: ws_def)
  finally show ?thesis using assms(3) by (simp add: ws_def)
qed

text \<open>A small registry: two mock-like providers of weights 2 and 1.\<close>

definition sample_config :: "string \<Rightarrow> int \<Rightarrow> int \<Rightarrow> provider_config" where
  "sample_config name weight price =
     \<lparr>pc_provider = Some \<lparr>pv_name = name, pv_capabilities = \<lparr>cap_models = {''m''}, cap_classifications = {''PUBLIC''}\<rparr>\<rparr>,
      pc_weight = weight, pc_priority = weight, pc_max_concurrency = 2, pc_timeout = 0, pc_input_cost = price,
      pc_output_cost = price, pc_enabled = True\<rparr>"

definition sample_breaker :: cb_config where
  "sample_breaker = \<lparr>failure_threshold = 2, window = 10, open_duration = 10, half_open_probes = 1\<rparr>"

definition sample_managed :: "string \<Rightarrow> int \<Rightarrow> int \<Rightarrow> managed" where
  "sample_managed name weight price =
     \<lparr>mg_config = (sample_config name weight price)\<lparr>pc_timeout := 30000000000\<rparr>,
      mg_provider = \<lparr>pv_name = name, pv_capabilities = \<lparr>cap_models = {''m''}, cap_classifications = {''PUBLIC''}\<rparr>\<rparr>,
      mg_semaphore = 0, mg_breaker = new_breaker sample_breaker, mg_outstanding = 0, mg_healthy = True, mg_ewma = 0\<rparr>"

definition sample_router :: router where
  "sample_router = \<lparr>rt_providers = [sample_managed ''a'' 2 10, sample_managed ''b'' 1 30], rt_sequence = 0,
     rt_alpha = fl64 (1 / 5)\<rparr>"

definition sample_selection :: "strategy \<Rightarrow> selection" where
  "sample_selection strategy = \<lparr>sl_model = ''m'', sl_classification = ''PUBLIC'', sl_allowed = None, sl_excluded = {},
     sl_strategy = strategy, sl_now = 5\<rparr>"

lemma sample_router_new:
  "new_router [sample_config ''a'' 2 10, sample_config ''b'' 1 30] sample_breaker = Inr sample_router"
  by (simp add: new_router_def sample_router_def sample_managed_def sample_config_def default_config_def
      second_def Let_def)

lemma sample_router_inv [simp]: "router_inv sample_router"
  using sample_router_new
  by (rule router_inv_new) (simp add: sample_config_def default_config_def Let_def max_int64_def)

lemma sample_entries [simp]:
  "rt_providers sample_router = [sample_managed ''a'' 2 10, sample_managed ''b'' 1 30]"
  by (simp add: sample_router_def)

lemma sample_eligible [simp]: "eligible (sample_selection strategy) sample_router = [0, 1]"
  by (simp add: eligible_def eligible_entry_def sample_managed_def sample_config_def sample_selection_def
      policy_allows_def can_serve_def upt_rec cb_state_at_def new_breaker_def sample_breaker_def Let_def)

theorem weighted_round_robin_is_fair_witness:
  "card {k. k < 3 \<and>
     (\<exists>rest. fst (order [0, 1] weighted_round_robin (sample_router\<lparr>rt_sequence := of_nat (7 + k)\<rparr>)) = Inr (0 # rest))} = 2"
  using weighted_round_robin_is_fair [of sample_router weighted_round_robin 0 "sample_selection weighted_round_robin" 7]
  by (simp add: weighted_round_robin_def least_outstanding_def least_latency_def priority_fallback_def
      sample_managed_def sample_config_def)

subsection \<open>Selection: properties\<close>

text \<open>
  C17. A selection succeeds exactly when some registered provider is enabled, healthy, allowed by policy,
  not excluded, able to serve the model and the data classification, has spare capacity and is admitted
  by its breaker; the lease is for such a provider and carries its timeout and prices. A granted lease
  takes one slot of its own provider, no other slot and no static configuration changes, and the registry
  invariant is kept.
\<close>

theorem select_grants_exactly_admissible:
  assumes "router_inv rt"
  shows "((\<exists>l. fst (select clock selection rt) = Inr l) \<longleftrightarrow> (\<exists>i. admissible (effective clock selection) rt i))
    \<and> (\<forall>e. fst (select clock selection rt) = Inl e \<longrightarrow>
          e = ErrNoEligibleProvider \<and> slots (snd (select clock selection rt)) = slots rt)
    \<and> (\<forall>l. fst (select clock selection rt) = Inr l \<longrightarrow>
          admissible (effective clock selection) rt (ls_entry l) \<and> l = make_lease (ls_entry l) rt
          \<and> slots (snd (select clock selection rt)) = (slots rt)(ls_entry l := slots rt (ls_entry l) + 1))
    \<and> static_eq rt (snd (select clock selection rt)) \<and> router_inv (snd (select clock selection rt))"
proof -
  have entry: "ls_entry (make_lease i rt) = i" for i by (simp add: make_lease_def Let_def)
  note facts = select_static select_inv [OF assms] select_slots [of clock selection rt]
  from select_result [OF assms, of clock selection] show ?thesis
  proof (elim disjE conjE exE)
    assume "\<not> (\<exists>i. admissible (effective clock selection) rt i)"
      and "fst (select clock selection rt) = Inl ErrNoEligibleProvider"
    with facts show ?thesis by simp
  next
    fix i
    assume "admissible (effective clock selection) rt i"
      and "fst (select clock selection rt) = Inr (make_lease i rt)"
    with facts entry show ?thesis by auto
  qed
qed

lemma sample_admissible:
  "i < 2 \<Longrightarrow> admissible (effective clock (sample_selection strategy)) sample_router i"
  by (auto simp: admissible_def effective_def eligible_entry_def sample_managed_def sample_config_def
      sample_selection_def policy_allows_def can_serve_def cb_state_at_def new_breaker_def sample_breaker_def
      Let_def admits_def breaker_of_def cb_allow_def time_is_zero_def less_2_cases_iff)

theorem select_grants_exactly_admissible_witness:
  "\<exists>l. fst (select 0 (sample_selection least_latency) sample_router) = Inr l"
  using select_grants_exactly_admissible [OF sample_router_inv, of 0 "sample_selection least_latency"]
    sample_admissible [of 0] by auto

lemma find_least:
  assumes "sorted (map k xs)" "find P xs = Some i" "j \<in> set xs" "P j"
  shows "k i \<le> k j"
proof -
  obtain a where a: "a < length xs" "xs ! a = i" "\<forall>b < a. \<not> P (xs ! b)"
    using assms(2) by (auto simp: find_Some_iff)
  obtain c where c: "c < length xs" "xs ! c = j" using assms(3) by (auto simp: in_set_conv_nth)
  have "a \<le> c" using a(3) c(2) assms(4) by (metis not_less)
  then show ?thesis using assms(1) a c by (metis length_map nth_map sorted_nth_mono)
qed

lemma find_filter: "find P xs = Some i \<Longrightarrow> Q i \<Longrightarrow> find P (filter Q xs) = Some i"
  by (induction xs) (auto split: if_splits)

lemma find_sort_key_least:
  assumes "sorted xs" "find P (sort_key k xs) = Some i" "j \<in> set xs" "P j"
  shows "k i < k j \<or> k i = k j \<and> i \<le> j"
proof (cases "k i = k j")
  case True
  have "find P (filter (\<lambda>x. k x = k i) xs) = Some i"
    using find_filter [OF assms(2), of "\<lambda>x. k x = k i"] by (simp add: sort_key_stable)
  with assms(1,3,4) True have "i \<le> j"
    using find_least [of id "filter (\<lambda>x. k x = k i) xs" P i j] by (simp add: sorted_wrt_filter)
  with True show ?thesis by simp
next
  case False
  then show ?thesis using find_least [OF _ assms(2), of k j] assms(3,4) by fastforce
qed

text \<open>The key a strategy sorts by.\<close>

definition rank :: "strategy \<Rightarrow> managed \<Rightarrow> rat" where
  "rank strategy e =
     (if strategy = least_outstanding then of_int (mg_outstanding e)
      else if strategy = least_latency then latency e
      else of_int (pc_priority (mg_config e)))"

text \<open>
  C34. The three sorting strategies pick the best provider there is: the leased provider has the smallest
  number of outstanding calls, latency average or priority among all admissible providers, and among
  equals the one registered first.
\<close>

theorem select_prefers_best_rank:
  assumes "router_inv rt" "fst (select clock selection rt) = Inr l"
    and "sl_strategy selection \<in> {least_outstanding, least_latency, priority_fallback}"
    and "admissible (effective clock selection) rt j"
  shows "rank (sl_strategy selection) (rt_providers rt ! ls_entry l) < rank (sl_strategy selection) (rt_providers rt ! j)
    \<or> rank (sl_strategy selection) (rt_providers rt ! ls_entry l) = rank (sl_strategy selection) (rt_providers rt ! j)
      \<and> ls_entry l \<le> j"
proof -
  let ?sel = "effective clock selection" and ?e = "\<lambda>i. rt_providers rt ! i"
  have j: "j \<in> set (eligible ?sel rt)" "admits (sl_now ?sel) rt j"
    using assms(4) by (auto simp: admissible_def eligible_props)
  then have ne: "eligible ?sel rt \<noteq> []" by auto
  obtain os rt1 where os: "order (eligible ?sel rt) (sl_strategy ?sel) rt = (Inr os, rt1)"
      "fst (select clock selection rt) = (case find (admits (sl_now ?sel) rt) os of
          None \<Rightarrow> Inl ErrNoEligibleProvider | Some i \<Rightarrow> Inr (make_lease i rt))"
    using select_ordered [OF assms(1) ne] by metis
  then have fnd: "find (admits (sl_now ?sel) rt) os = Some (ls_entry l)"
    using assms(2) by (auto simp: make_lease_def Let_def split: option.splits)
  have os1: "fst (order (eligible ?sel rt) (sl_strategy selection) rt) = Inr os" using os(1) by simp
  have srt: "sorted (eligible ?sel rt)" by (simp add: eligible_def sorted_wrt_filter)
  consider "sl_strategy selection = least_outstanding" | "sl_strategy selection = least_latency"
      | "sl_strategy selection = priority_fallback" "priority_fallback \<noteq> least_outstanding" "priority_fallback \<noteq> least_latency"
    using assms(3) by (auto simp: least_outstanding_def least_latency_def priority_fallback_def)
  then show ?thesis
  proof cases
    case 1
    then have "os = sort_key (\<lambda>i. mg_outstanding (?e i)) (eligible ?sel rt)"
      using os1 by (simp add: order_def Let_def)
    with fnd find_sort_key_least [OF srt, of "admits (sl_now ?sel) rt" "\<lambda>i. mg_outstanding (?e i)" "ls_entry l" j] j 1 show ?thesis by (simp add: rank_def)
  next
    case 2
    have "least_latency \<noteq> least_outstanding" by (simp add: least_latency_def least_outstanding_def)
    then have "os = sort_key (\<lambda>i. latency (?e i)) (eligible ?sel rt)"
      using os1 2 by (simp add: order_def Let_def)
    with fnd find_sort_key_least [OF srt, of "admits (sl_now ?sel) rt" "\<lambda>i. latency (?e i)" "ls_entry l" j] j 2 \<open>least_latency \<noteq> _\<close> show ?thesis by (simp add: rank_def)
  next
    case 3
    then have "os = sort_key (\<lambda>i. pc_priority (mg_config (?e i))) (eligible ?sel rt)"
      using os1 by (simp add: order_def Let_def)
    with fnd find_sort_key_least [OF srt, of "admits (sl_now ?sel) rt" "\<lambda>i. pc_priority (mg_config (?e i))" "ls_entry l" j] j 3 show ?thesis by (simp add: rank_def)
  qed
qed

theorem select_prefers_best_rank_witness:
  "\<exists>l. fst (select 0 (sample_selection priority_fallback) sample_router) = Inr l
     \<and> rank priority_fallback (rt_providers sample_router ! ls_entry l) \<le> 1"
proof -
  obtain i where i: "fst (select 0 (sample_selection priority_fallback) sample_router) = Inr (make_lease i sample_router)"
    using select_result [OF sample_router_inv, of 0 "sample_selection priority_fallback"] sample_admissible [of 0] by auto
  have "rank priority_fallback (rt_providers sample_router ! 1) = 1"
    by (simp add: rank_def sample_managed_def sample_config_def priority_fallback_def least_outstanding_def least_latency_def)
  with i select_prefers_best_rank [OF sample_router_inv i, of 1] sample_admissible [of 1]
  show ?thesis by (auto simp: sample_selection_def)
qed

lemma highest_prices_loop_bound:
  assumes "found \<or> (\<exists>e \<in> set es. price_relevant sel e)"
  shows "\<exists>hi ho. highest_prices_loop sel found inp out es = Inr (hi, ho) \<and> inp \<le> hi \<and> out \<le> ho
    \<and> (\<forall>e \<in> set es. price_relevant sel e \<longrightarrow>
          pc_input_cost (mg_config e) \<le> hi \<and> pc_output_cost (mg_config e) \<le> ho)"
  using assms
proof (induction es arbitrary: found inp out)
  case (Cons e es)
  show ?case
  proof (cases "price_relevant sel e")
    case True
    obtain hi ho where "highest_prices_loop sel True (max inp (pc_input_cost (mg_config e)))
        (max out (pc_output_cost (mg_config e))) es = Inr (hi, ho)"
      "max inp (pc_input_cost (mg_config e)) \<le> hi" "max out (pc_output_cost (mg_config e)) \<le> ho"
      "\<forall>e \<in> set es. price_relevant sel e \<longrightarrow>
          pc_input_cost (mg_config e) \<le> hi \<and> pc_output_cost (mg_config e) \<le> ho"
      using Cons.IH by blast
    with True show ?thesis by auto
  next
    case False
    with Cons.prems have "found \<or> (\<exists>e \<in> set es. price_relevant sel e)" by auto
    from Cons.IH [OF this, of inp out] False show ?thesis by auto
  qed
qed simp

lemma lease_price_bound:
  assumes "static_eq rt0 rt" "router_inv rt" "fst (select clock selection rt) = Inr l"
    and "sl_model selection = sl_model sel0" "sl_classification selection = sl_classification sel0"
    and "sl_allowed selection = sl_allowed sel0"
  shows "\<exists>inp out. highest_prices sel0 rt0 = Inr (inp, out) \<and> ls_input_cost l \<le> inp \<and> ls_output_cost l \<le> out"
proof -
  obtain i where i: "admissible (effective clock selection) rt i" "l = make_lease i rt"
    using select_result [OF assms(2), of clock selection] assms(3) by auto
  let ?e = "rt_providers rt0 ! i"
  have st: "i < length (rt_providers rt0)" "mg_config (rt_providers rt ! i) = mg_config ?e"
      "mg_provider (rt_providers rt ! i) = mg_provider ?e"
    using assms(1) i(1) by (auto simp: static_eq_def admissible_def)
  have "price_relevant sel0 ?e"
    using i(1) st assms(4-6) by (auto simp: admissible_def eligible_entry_def price_relevant_def
        policy_allows_def can_serve_def split: option.splits)
  moreover have "?e \<in> set (rt_providers rt0)" using st(1) by simp
  ultimately show ?thesis
    using highest_prices_loop_bound [of False "rt_providers rt0" sel0 0 0] i(2) st(2)
    by (fastforce simp: highest_prices_def make_lease_def Let_def)
qed



end
