(* ===== verification/Routing_Concurrent.thy ===== *)
theory Routing_Concurrent
  imports Routing
begin

text \<open>
  The router under concurrent use. \<open>Select\<close>, \<open>Lease.Success\<close> and \<open>Lease.Failure\<close> run in many goroutines
  without a common lock; what is atomic is one call of a breaker method, one channel operation, one
  operation of \<open>sync/atomic\<close> and one update of the latency average. \<open>rsys_step\<close> interleaves these
  actions. A goroutine between two actions is a \<open>rthread\<close>.

  The candidate list of a selection is read from the registry while other goroutines change it, so the
  model lets it be any list of registered providers.
\<close>

datatype report = Succeeded duration | Averaged | Failed bool go_time

datatype rthread =
    Trying go_time "nat list"
  | Admitted go_time nat "nat list"
  | Acquired nat
  | Draining nat report
  | Drained nat report
  | Reporting nat report
  | Done

record rsys =
  rs_router :: router
  rs_leases :: "lease list"
  rs_threads :: "rthread list"

definition add_token :: "int \<Rightarrow> nat \<Rightarrow> router \<Rightarrow> router" where
  "add_token d i = update_entry i (\<lambda>e. e\<lparr>mg_semaphore := mg_semaphore e + d\<rparr>)"

definition add_outstanding :: "int \<Rightarrow> nat \<Rightarrow> router \<Rightarrow> router" where
  "add_outstanding d i = update_entry i (\<lambda>e. e\<lparr>mg_outstanding := mg_outstanding e + d\<rparr>)"

definition record_latency :: "duration \<Rightarrow> nat \<Rightarrow> router \<Rightarrow> router" where
  "record_latency lat i = update_entry i (\<lambda>e. e\<lparr>mg_ewma := next_ewma (mg_ewma e) lat\<rparr>)"

definition update_breaker :: "(breaker \<Rightarrow> breaker) \<Rightarrow> nat \<Rightarrow> router \<Rightarrow> router" where
  "update_breaker f i = update_entry i (\<lambda>e. e\<lparr>mg_breaker := f (mg_breaker e)\<rparr>)"

fun report_step :: "nat \<Rightarrow> report \<Rightarrow> router \<Rightarrow> rthread \<times> router" where
  "report_step i (Succeeded lat) rt = (Reporting i Averaged, record_latency lat i rt)"
| "report_step i Averaged rt = (Done, update_breaker cb_success i rt)"
| "report_step i (Failed retryable now) rt =
     (Done, update_breaker (if retryable then cb_failure now else cb_release) i rt)"

inductive rsys_step :: "rsys \<Rightarrow> rsys \<Rightarrow> bool" where
  Begin: "set is \<subseteq> {..<length (rt_providers (rs_router s))} \<Longrightarrow>
    q = rt_sequence (rs_router s) \<or> q = rt_sequence (rs_router s) + 1 \<Longrightarrow>
    rsys_step s (s\<lparr>rs_router := (rs_router s)\<lparr>rt_sequence := q\<rparr>,
      rs_threads := rs_threads s @ [Trying now is]\<rparr>)"
| Allow: "t < length (rs_threads s) \<Longrightarrow> rs_threads s ! t = Trying now (i # is) \<Longrightarrow>
    allow_entry now i (rs_router s) = (ok, rt') \<Longrightarrow>
    rsys_step s (s\<lparr>rs_router := rt',
      rs_threads := (rs_threads s)[t := (if ok then Admitted now i is else Trying now is)]\<rparr>)"
| Exhausted: "t < length (rs_threads s) \<Longrightarrow> rs_threads s ! t = Trying now [] \<Longrightarrow>
    rsys_step s (s\<lparr>rs_threads := (rs_threads s)[t := Done]\<rparr>)"
| Acquire: "t < length (rs_threads s) \<Longrightarrow> rs_threads s ! t = Admitted now i is \<Longrightarrow>
    has_capacity i (rs_router s) \<Longrightarrow>
    rsys_step s (s\<lparr>rs_router := add_token 1 i (rs_router s), rs_threads := (rs_threads s)[t := Acquired i]\<rparr>)"
| Full: "t < length (rs_threads s) \<Longrightarrow> rs_threads s ! t = Admitted now i is \<Longrightarrow>
    \<not> has_capacity i (rs_router s) \<Longrightarrow>
    rsys_step s (s\<lparr>rs_router := release_probe i (rs_router s), rs_threads := (rs_threads s)[t := Trying now is]\<rparr>)"
| Grant: "t < length (rs_threads s) \<Longrightarrow> rs_threads s ! t = Acquired i \<Longrightarrow>
    rsys_step s (s\<lparr>rs_router := add_outstanding 1 i (rs_router s),
      rs_leases := rs_leases s @ [make_lease i (rs_router s)], rs_threads := (rs_threads s)[t := Done]\<rparr>)"
| Finish: "k < length (rs_leases s) \<Longrightarrow> \<not> ls_released (rs_leases s ! k) \<Longrightarrow> rep \<noteq> Averaged \<Longrightarrow>
    rsys_step s (s\<lparr>rs_leases := (rs_leases s)[k := (rs_leases s ! k)\<lparr>ls_released := True\<rparr>],
      rs_threads := rs_threads s @ [Draining (ls_entry (rs_leases s ! k)) rep]\<rparr>)"
| Drain: "t < length (rs_threads s) \<Longrightarrow> rs_threads s ! t = Draining i rep \<Longrightarrow> 0 < slots (rs_router s) i \<Longrightarrow>
    rsys_step s (s\<lparr>rs_router := add_token (- 1) i (rs_router s), rs_threads := (rs_threads s)[t := Drained i rep]\<rparr>)"
| Uncount: "t < length (rs_threads s) \<Longrightarrow> rs_threads s ! t = Drained i rep \<Longrightarrow>
    rsys_step s (s\<lparr>rs_router := add_outstanding (- 1) i (rs_router s),
      rs_threads := (rs_threads s)[t := Reporting i rep]\<rparr>)"
| Report: "t < length (rs_threads s) \<Longrightarrow> rs_threads s ! t = Reporting i rep \<Longrightarrow>
    report_step i rep (rs_router s) = (th, rt') \<Longrightarrow>
    rsys_step s (s\<lparr>rs_router := rt', rs_threads := (rs_threads s)[t := th]\<rparr>)"

text \<open>The tokens and the outstanding calls that goroutines and live leases account for.\<close>

fun thread_tokens :: "nat \<Rightarrow> rthread \<Rightarrow> int" where
  "thread_tokens i (Acquired j) = of_bool (i = j)"
| "thread_tokens i (Draining j rep) = of_bool (i = j)"
| "thread_tokens i _ = 0"

fun thread_calls :: "nat \<Rightarrow> rthread \<Rightarrow> int" where
  "thread_calls i (Draining j rep) = of_bool (i = j)"
| "thread_calls i (Drained j rep) = of_bool (i = j)"
| "thread_calls i _ = 0"

fun thread_in :: "nat \<Rightarrow> rthread \<Rightarrow> bool" where
  "thread_in n (Trying now is) \<longleftrightarrow> set is \<subseteq> {..<n}"
| "thread_in n (Admitted now i is) \<longleftrightarrow> i < n \<and> set is \<subseteq> {..<n}"
| "thread_in n (Acquired i) \<longleftrightarrow> i < n"
| "thread_in n (Draining i rep) \<longleftrightarrow> i < n"
| "thread_in n (Drained i rep) \<longleftrightarrow> i < n"
| "thread_in n (Reporting i rep) \<longleftrightarrow> i < n"
| "thread_in n Done \<longleftrightarrow> True"

definition live :: "nat \<Rightarrow> lease \<Rightarrow> int" where
  "live i l = of_bool (\<not> ls_released l \<and> ls_entry l = i)"

definition tokens :: "rsys \<Rightarrow> nat \<Rightarrow> int" where
  "tokens s i = sum_list (map (live i) (rs_leases s)) + sum_list (map (thread_tokens i) (rs_threads s))"

definition calls :: "rsys \<Rightarrow> nat \<Rightarrow> int" where
  "calls s i = sum_list (map (live i) (rs_leases s)) + sum_list (map (thread_calls i) (rs_threads s))"

definition outstanding :: "router \<Rightarrow> nat \<Rightarrow> int" where
  "outstanding rt i = mg_outstanding (rt_providers rt ! i)"

definition capacity :: "router \<Rightarrow> nat \<Rightarrow> int" where
  "capacity rt i = pc_max_concurrency (mg_config (rt_providers rt ! i))"

definition rsys_inv :: "rsys \<Rightarrow> bool" where
  "rsys_inv s \<longleftrightarrow>
     (let n = length (rt_providers (rs_router s)) in
      (\<forall>th \<in> set (rs_threads s). thread_in n th) \<and> (\<forall>l \<in> set (rs_leases s). ls_entry l < n)
      \<and> (\<forall>i < n. slots (rs_router s) i = tokens s i \<and> outstanding (rs_router s) i = calls s i
            \<and> slots (rs_router s) i \<le> capacity (rs_router s) i
            \<and> cb_inv (breaker_of (rs_router s) i)))"

lemma sum_list_map_update:
  "k < length xs \<Longrightarrow> sum_list (map f (xs[k := x])) = sum_list (map f xs) + f x - (f (xs ! k) :: int)"
  by (induction xs arbitrary: k) (auto split: nat.splits)

lemma ball_list_update: "\<forall>y \<in> set xs. P y \<Longrightarrow> P x \<Longrightarrow> \<forall>y \<in> set (xs[k := x]). P y"
  by (metis insertE set_update_subset_insert subsetD)

lemma action_views:
  assumes "j < length (rt_providers rt)"
  shows "slots (add_token d j rt) i = slots rt i + d * of_bool (i = j)"
    "outstanding (add_token d j rt) i = outstanding rt i"
    "capacity (add_token d j rt) i = capacity rt i" "breaker_of (add_token d j rt) i = breaker_of rt i"
    "slots (add_outstanding d j rt) i = slots rt i"
    "outstanding (add_outstanding d j rt) i = outstanding rt i + d * of_bool (i = j)"
    "capacity (add_outstanding d j rt) i = capacity rt i" "breaker_of (add_outstanding d j rt) i = breaker_of rt i"
    "slots (record_latency lat j rt) i = slots rt i" "outstanding (record_latency lat j rt) i = outstanding rt i"
    "capacity (record_latency lat j rt) i = capacity rt i" "breaker_of (record_latency lat j rt) i = breaker_of rt i"
    "slots (update_breaker g j rt) i = slots rt i" "outstanding (update_breaker g j rt) i = outstanding rt i"
    "capacity (update_breaker g j rt) i = capacity rt i"
    "breaker_of (update_breaker g j rt) i = (if i = j then g (breaker_of rt i) else breaker_of rt i)"
  using assms
  by (simp_all add: add_token_def add_outstanding_def record_latency_def update_breaker_def nth_update_entry
      slots_def outstanding_def capacity_def breaker_of_def)

lemma action_length [simp]:
  "length (rt_providers (add_token d j rt)) = length (rt_providers rt)"
  "length (rt_providers (add_outstanding d j rt)) = length (rt_providers rt)"
  "length (rt_providers (record_latency lat j rt)) = length (rt_providers rt)"
  "length (rt_providers (update_breaker g j rt)) = length (rt_providers rt)"
  by (simp_all add: add_token_def add_outstanding_def record_latency_def update_breaker_def)

lemma breaker_actions:
  "release_probe i rt = update_breaker cb_release i rt"
  "allow_entry now i rt = (fst (cb_allow now (breaker_of rt i)), update_breaker (\<lambda>b. snd (cb_allow now b)) i rt)"
  by (simp_all add: release_probe_def update_breaker_def allow_entry_def breaker_of_def update_entry_def split: prod.splits)

lemma has_capacity_view: "has_capacity i rt \<longleftrightarrow> slots rt i < capacity rt i"
  by (simp add: has_capacity_def slots_def capacity_def)

lemma rsys_invD:
  assumes "rsys_inv s" "i < length (rt_providers (rs_router s))"
  shows "slots (rs_router s) i = tokens s i" "outstanding (rs_router s) i = calls s i"
    "slots (rs_router s) i \<le> capacity (rs_router s) i" "cb_inv (breaker_of (rs_router s) i)"
  using assms unfolding rsys_inv_def Let_def by blast+

lemma rsys_invI:
  assumes "\<forall>th \<in> set (rs_threads s). thread_in (length (rt_providers (rs_router s))) th"
    and "\<forall>l \<in> set (rs_leases s). ls_entry l < length (rt_providers (rs_router s))"
    and "\<And>i. i < length (rt_providers (rs_router s)) \<Longrightarrow>
      slots (rs_router s) i = tokens s i \<and> outstanding (rs_router s) i = calls s i
      \<and> slots (rs_router s) i \<le> capacity (rs_router s) i \<and> cb_inv (breaker_of (rs_router s) i)"
  shows "rsys_inv s"
  using assms unfolding rsys_inv_def Let_def by blast

lemma rsys_inv_thread:
  "rsys_inv s \<Longrightarrow> t < length (rs_threads s) \<Longrightarrow> thread_in (length (rt_providers (rs_router s))) (rs_threads s ! t)"
  by (simp add: rsys_inv_def Let_def)

text \<open>One goroutine acts on one provider: what the action changes must match what the goroutine accounts for.\<close>

lemma rsys_inv_act:
  assumes inv: "rsys_inv s" and t: "t < length (rs_threads s)"
    and th: "thread_in (length (rt_providers (rs_router s))) th"
    and len: "length (rt_providers rt') = length (rt_providers (rs_router s))"
    and new: "\<forall>l \<in> set new. ls_entry l < length (rt_providers (rs_router s))"
    and act: "\<And>i. i < length (rt_providers (rs_router s)) \<Longrightarrow>
      slots rt' i = slots (rs_router s) i + thread_tokens i th - thread_tokens i (rs_threads s ! t)
                      + sum_list (map (live i) new)
      \<and> outstanding rt' i = outstanding (rs_router s) i + thread_calls i th - thread_calls i (rs_threads s ! t)
                      + sum_list (map (live i) new)
      \<and> slots rt' i \<le> capacity rt' i \<and> cb_inv (breaker_of rt' i)"
  shows "rsys_inv (s\<lparr>rs_router := rt', rs_leases := rs_leases s @ new, rs_threads := (rs_threads s)[t := th]\<rparr>)"
    (is "rsys_inv ?s'")
proof -
  have threads: "\<forall>y \<in> set ((rs_threads s)[t := th]). thread_in (length (rt_providers (rs_router s))) y"
    using inv th by (intro ball_list_update) (auto simp: rsys_inv_def Let_def)
  have leases: "\<forall>l \<in> set (rs_leases s @ new). ls_entry l < length (rt_providers (rs_router s))"
    using inv new by (auto simp: rsys_inv_def Let_def)
  show ?thesis
  proof (rule rsys_invI)
    fix i
    assume "i < length (rt_providers (rs_router ?s'))"
    then have i: "i < length (rt_providers (rs_router s))" by (simp add: len)
    have "slots rt' i = tokens ?s' i" "outstanding rt' i = calls ?s' i"
      using rsys_invD(1,2) [OF inv i] act [OF i] t by (simp_all add: tokens_def calls_def sum_list_map_update)
    then show "slots (rs_router ?s') i = tokens ?s' i \<and> outstanding (rs_router ?s') i = calls ?s' i
        \<and> slots (rs_router ?s') i \<le> capacity (rs_router ?s') i \<and> cb_inv (breaker_of (rs_router ?s') i)"
      using act [OF i] by simp
  qed (use threads leases len in simp_all)
qed

lemma rsys_inv_begin:
  assumes "rsys_inv s" "set is \<subseteq> {..<length (rt_providers (rs_router s))}"
  shows "rsys_inv (s\<lparr>rs_router := (rs_router s)\<lparr>rt_sequence := q\<rparr>, rs_threads := rs_threads s @ [Trying now is]\<rparr>)"
  using assms by (auto simp: rsys_inv_def Let_def tokens_def calls_def slots_def outstanding_def capacity_def
      breaker_of_def)

lemma rsys_inv_finish:
  assumes inv: "rsys_inv s" and k: "k < length (rs_leases s)" "\<not> ls_released (rs_leases s ! k)"
  shows "rsys_inv (s\<lparr>rs_leases := (rs_leases s)[k := (rs_leases s ! k)\<lparr>ls_released := True\<rparr>],
      rs_threads := rs_threads s @ [Draining (ls_entry (rs_leases s ! k)) rep]\<rparr>)"
proof -
  let ?l = "rs_leases s ! k"
  have e: "ls_entry ?l < length (rt_providers (rs_router s))" using inv k(1) by (simp add: rsys_inv_def Let_def)
  have "\<forall>l \<in> set ((rs_leases s)[k := ?l\<lparr>ls_released := True\<rparr>]). ls_entry l < length (rt_providers (rs_router s))"
    using inv e by (intro ball_list_update) (auto simp: rsys_inv_def Let_def)
  moreover have "live i (?l\<lparr>ls_released := True\<rparr>) = 0" "live i ?l = of_bool (i = ls_entry ?l)" for i
    using k(2) by (auto simp: live_def)
  ultimately show ?thesis
    using inv e k(1)
    by (auto simp: rsys_inv_def Let_def tokens_def calls_def sum_list_map_update)
qed

lemma rsys_inv_act_same:
  assumes "rsys_inv s" "t < length (rs_threads s)"
    and "thread_in (length (rt_providers (rs_router s))) th"
    and "length (rt_providers rt') = length (rt_providers (rs_router s))"
    and "\<And>i. i < length (rt_providers (rs_router s)) \<Longrightarrow>
      slots rt' i = slots (rs_router s) i + thread_tokens i th - thread_tokens i (rs_threads s ! t)
      \<and> outstanding rt' i = outstanding (rs_router s) i + thread_calls i th - thread_calls i (rs_threads s ! t)
      \<and> slots rt' i \<le> capacity rt' i \<and> cb_inv (breaker_of rt' i)"
  shows "rsys_inv (s\<lparr>rs_router := rt', rs_threads := (rs_threads s)[t := th]\<rparr>)"
proof -
  have "rsys_inv (s\<lparr>rs_router := rt', rs_leases := rs_leases s @ [], rs_threads := (rs_threads s)[t := th]\<rparr>)"
  proof (rule rsys_inv_act [OF assms(1-4)])
    fix i
    assume "i < length (rt_providers (rs_router s))"
    from assms(5) [OF this]
    show "slots rt' i = slots (rs_router s) i + thread_tokens i th - thread_tokens i (rs_threads s ! t)
          + sum_list (map (live i) [])
        \<and> outstanding rt' i = outstanding (rs_router s) i + thread_calls i th - thread_calls i (rs_threads s ! t)
          + sum_list (map (live i) [])
        \<and> slots rt' i \<le> capacity rt' i \<and> cb_inv (breaker_of rt' i)"
      by simp
  qed simp
  then show ?thesis by simp
qed

lemma rsys_inv_step: "rsys_step s s' \<Longrightarrow> rsys_inv s \<Longrightarrow> rsys_inv s'"
proof (induction rule: rsys_step.induct)
  case (Allow t s now i "is" ok rt')
  let ?th = "if ok then Admitted now i is else Trying now is"
  note D = rsys_invD(3,4) [OF Allow.prems]
  have i: "thread_in (length (rt_providers (rs_router s))) (Trying now (i # is))"
    using rsys_inv_thread [OF Allow.prems Allow.hyps(1)] Allow.hyps(2) by simp
  have rt': "rt' = update_breaker (\<lambda>b. snd (cb_allow now b)) i (rs_router s)"
    using Allow.hyps(3) by (simp add: breaker_actions)
  show ?case
    using Allow i by (intro rsys_inv_act_same) (auto simp: rt' action_views D cb_inv_allow)
next
  case (Exhausted t s now)
  have "rsys_inv (s\<lparr>rs_router := rs_router s, rs_threads := (rs_threads s)[t := Done]\<rparr>)"
    using Exhausted rsys_invD(3,4) [OF Exhausted.prems] by (intro rsys_inv_act_same) auto
  then show ?case by simp
next
  case (Acquire t s now i "is")
  note D = rsys_invD(3,4) [OF Acquire.prems]
  have "thread_in (length (rt_providers (rs_router s))) (Admitted now i is)"
    using rsys_inv_thread [OF Acquire.prems Acquire.hyps(1)] Acquire.hyps(2) by simp
  with Acquire D show ?case
    by (intro rsys_inv_act_same) (auto simp: action_views has_capacity_view)
next
  case (Full t s now i "is")
  note D = rsys_invD(3,4) [OF Full.prems]
  have "thread_in (length (rt_providers (rs_router s))) (Admitted now i is)"
    using rsys_inv_thread [OF Full.prems Full.hyps(1)] Full.hyps(2) by simp
  with Full D show ?case
    by (intro rsys_inv_act_same) (auto simp: breaker_actions action_views cb_inv_release)
next
  case (Grant t s i)
  note D = rsys_invD(3,4) [OF Grant.prems]
  have "thread_in (length (rt_providers (rs_router s))) (Acquired i)"
    using rsys_inv_thread [OF Grant.prems Grant.hyps(1)] Grant.hyps(2) by simp
  moreover have "live j (make_lease i (rs_router s)) = of_bool (j = i)"
      "ls_entry (make_lease i (rs_router s)) = i" for j
    by (auto simp: live_def make_lease_def Let_def)
  ultimately show ?case using Grant D by (intro rsys_inv_act) (auto simp: action_views)
next
  case (Drain t s i rep)
  note D = rsys_invD(3,4) [OF Drain.prems]
  have "thread_in (length (rt_providers (rs_router s))) (Draining i rep)"
    using rsys_inv_thread [OF Drain.prems Drain.hyps(1)] Drain.hyps(2) by simp
  with Drain D show ?case by (intro rsys_inv_act_same) (auto simp: action_views intro: order_trans [OF _ D(1)])
next
  case (Uncount t s i rep)
  note D = rsys_invD(3,4) [OF Uncount.prems]
  have "thread_in (length (rt_providers (rs_router s))) (Drained i rep)"
    using rsys_inv_thread [OF Uncount.prems Uncount.hyps(1)] Uncount.hyps(2) by simp
  with Uncount D show ?case by (intro rsys_inv_act_same) (auto simp: action_views)
next
  case (Report t s i rep th rt')
  note D = rsys_invD(3,4) [OF Report.prems]
  have "thread_in (length (rt_providers (rs_router s))) (Reporting i rep)"
    using rsys_inv_thread [OF Report.prems Report.hyps(1)] Report.hyps(2) by simp
  with Report D show ?case
    by (intro rsys_inv_act_same; cases rep)
       (auto simp: action_views cb_inv_success cb_inv_failure cb_inv_release)
qed (simp_all add: rsys_inv_begin rsys_inv_finish)

lemma rsys_inv_steps: "rsys_step\<^sup>*\<^sup>* s s' \<Longrightarrow> rsys_inv s \<Longrightarrow> rsys_inv s'"
  by (induction rule: rtranclp_induct) (auto intro: rsys_inv_step)

definition initial :: "router \<Rightarrow> rsys" where
  "initial rt = \<lparr>rs_router = rt, rs_leases = [], rs_threads = []\<rparr>"

lemma rsys_inv_initial:
  assumes "new_router configs bc = Inr rt"
  shows "rsys_inv (initial rt)"
proof -
  obtain es where es: "new_entries bc configs = Inr es" "rt_providers rt = es"
    using assms by (auto simp: new_router_def split: if_splits sum.splits)
  have "mg_semaphore e = 0" if "e \<in> set es" for e
    using es(1) that
    by (induction configs arbitrary: es) (auto split: option.splits sum.splits)
  moreover have "entry_inv e" if "e \<in> set es" for e
    using new_entries_inv [OF es(1)] that by (simp add: list_all_iff)
  ultimately have "mg_semaphore e = 0 \<and> mg_outstanding e = 0 \<and> 0 \<le> pc_max_concurrency (mg_config e) \<and> cb_inv (mg_breaker e)"
    if "e \<in> set es" for e
    using that by (force simp: entry_inv_def)
  then show ?thesis
    using es(2) by (simp add: rsys_inv_def initial_def tokens_def calls_def Let_def slots_def outstanding_def
        capacity_def breaker_of_def)
qed

subsection \<open>The sequential methods are runs of the atomic actions\<close>

lemma take_slot_actions:
  "i < length (rt_providers rt) \<Longrightarrow> add_outstanding 1 i (add_token 1 i rt) = take_slot i rt"
  by (simp add: add_outstanding_def add_token_def take_slot_def update_entry_def)

lemma release_actions:
  "ls_entry l < length (rt_providers rt) \<Longrightarrow> \<not> ls_released l \<Longrightarrow>
     lease_release l rt = (True, l\<lparr>ls_released := True\<rparr>, add_outstanding (- 1) (ls_entry l) (add_token (- 1) (ls_entry l) rt))"
  by (simp add: add_outstanding_def add_token_def lease_release_def update_entry_def)

lemma make_lease_token [simp]: "make_lease i (add_token d j rt) = make_lease i rt"
  by (cases "j < length (rt_providers rt)") (auto simp: make_lease_def add_token_def nth_update_entry Let_def)

definition granted :: "go_error + lease \<Rightarrow> lease list" where
  "granted r = (case r of Inl e \<Rightarrow> [] | Inr l \<Rightarrow> [l])"

lemma try_entries_run:
  assumes "set is \<subseteq> {..<length (rt_providers rt)}" "t < length ths"
  shows "rsys_step\<^sup>*\<^sup>* \<lparr>rs_router = rt, rs_leases = ls, rs_threads = ths[t := Trying now is]\<rparr>
    \<lparr>rs_router = snd (try_entries now is rt), rs_leases = ls @ granted (fst (try_entries now is rt)),
     rs_threads = ths[t := Done]\<rparr>"
  using assms
proof (induction now "is" rt arbitrary: ths rule: try_entries.induct)
  case (1 now rt)
  then show ?case
    using Exhausted [of t "\<lparr>rs_router = rt, rs_leases = ls, rs_threads = ths[t := Trying now []]\<rparr>" now]
    by (simp add: granted_def)
next
  case (2 now i rest rt)
  let ?s = "\<lparr>rs_router = rt, rs_leases = ls, rs_threads = ths[t := Trying now (i # rest)]\<rparr>"
  obtain ok rt' where ok: "allow_entry now i rt = (ok, rt')" by fastforce
  let ?s1 = "\<lparr>rs_router = rt', rs_leases = ls,
      rs_threads = ths[t := (if ok then Admitted now i rest else Trying now rest)]\<rparr>"
  have len: "length (rt_providers rt') = length (rt_providers rt)"
    using static_eq_steps(3) [of rt now i] ok by (simp add: static_eq_def)
  have step: "rsys_step ?s ?s1" using Allow [of t ?s now i rest ok rt'] ok 2(4) by simp
  show ?case
  proof (cases ok)
    case False
    with 2(2) [OF ok [symmetric], of ths] len 2(3,4) step ok show ?thesis by simp
  next
    case True
    show ?thesis
    proof (cases "has_capacity i rt'")
      case cap: True
      let ?s2 = "\<lparr>rs_router = add_token 1 i rt', rs_leases = ls, rs_threads = ths[t := Acquired i]\<rparr>"
      have "rsys_step ?s1 ?s2" using Acquire [of t ?s1 now i rest] True cap 2(4) by simp
      moreover have "rsys_step ?s2 \<lparr>rs_router = take_slot i rt', rs_leases = ls @ [make_lease i rt'],
          rs_threads = ths[t := Done]\<rparr>"
        using Grant [of t ?s2 i] take_slot_actions [of i rt'] 2(3,4) len by simp
      ultimately show ?thesis using step True cap ok by (simp add: granted_def)
    next
      case full: False
      let ?s2 = "\<lparr>rs_router = release_probe i rt', rs_leases = ls, rs_threads = ths[t := Trying now rest]\<rparr>"
      have "rsys_step ?s1 ?s2" using Full [of t ?s1 now i rest] True full 2(4) by simp
      with step have "rsys_step\<^sup>*\<^sup>* ?s ?s2" by simp
      moreover have "length (rt_providers (release_probe i rt')) = length (rt_providers rt)"
        by (simp add: release_probe_def len)
      ultimately show ?thesis using 2(1) [OF ok [symmetric] _ full, of ths] 2(3,4) ok True full by simp
    qed
  qed
qed

lemma order_sequence:
  "rt' = snd (order es strategy rt) \<Longrightarrow>
     rt' = rt\<lparr>rt_sequence := rt_sequence rt'\<rparr> \<and> (rt_sequence rt' = rt_sequence rt \<or> rt_sequence rt' = rt_sequence rt + 1)"
  by (simp add: order_def Let_def)

lemma select_run:
  assumes "router_inv rt"
  shows "rsys_step\<^sup>*\<^sup>* \<lparr>rs_router = rt, rs_leases = ls, rs_threads = ths\<rparr>
    \<lparr>rs_router = snd (select clock selection rt), rs_leases = ls @ granted (fst (select clock selection rt)),
     rs_threads = ths @ [Done]\<rparr>"
proof -
  let ?sel = "effective clock selection" and ?s = "\<lparr>rs_router = rt, rs_leases = ls, rs_threads = ths\<rparr>"
  have run: "rsys_step\<^sup>*\<^sup>* ?s \<lparr>rs_router = snd (try_entries now os rt1),
      rs_leases = ls @ granted (fst (try_entries now os rt1)), rs_threads = ths @ [Done]\<rparr>"
    if "set os \<subseteq> {..<length (rt_providers rt)}" "rt1 = rt\<lparr>rt_sequence := q\<rparr>"
      "q = rt_sequence rt \<or> q = rt_sequence rt + 1" for os rt1 now q
  proof -
    have "rsys_step ?s \<lparr>rs_router = rt1, rs_leases = ls, rs_threads = ths @ [Trying now os]\<rparr>"
      using Begin [of os ?s q now] that by simp
    moreover have "(ths @ [Done])[length ths := Trying now os] = ths @ [Trying now os]"
        "(ths @ [Done])[length ths := Done] = ths @ [Done]" by simp_all
    ultimately show ?thesis
      using try_entries_run [of os rt1 "length ths" "ths @ [Done]" ls now] that
      by (simp add: converse_rtranclp_into_rtranclp)
  qed
  show ?thesis
  proof (cases "eligible ?sel rt = []")
    case True
    have "rt = rt\<lparr>rt_sequence := rt_sequence rt\<rparr>" by simp
    from run [of "[]", OF _ this] True show ?thesis by (simp add: select_empty)
  next
    case False
    obtain os rt1 where os: "order (eligible ?sel rt) (sl_strategy ?sel) rt = (Inr os, rt1)"
        "set os = set (eligible ?sel rt)" "select clock selection rt = try_entries (sl_now ?sel) os rt1"
      using select_ordered [OF assms False] by metis
    have "set os \<subseteq> {..<length (rt_providers rt)}" using os(2) by (auto simp: eligible_props)
    with run [of os rt1 "rt_sequence rt1"] order_sequence [of rt1] os(1,3) show ?thesis
      by (metis snd_conv)
  qed
qed

text \<open>The lease that \<open>Success\<close> or \<open>Failure\<close> is called on, and what the call reports.\<close>

fun lease_report :: "report \<Rightarrow> lease \<Rightarrow> router \<Rightarrow> lease \<times> router" where
  "lease_report (Succeeded lat) l rt = lease_success lat l rt"
| "lease_report (Failed retryable now) l rt = lease_failure retryable now l rt"
| "lease_report Averaged l rt = (l, rt)"

lemma lease_run:
  assumes "k < length ls" "\<not> ls_released (ls ! k)" "ls_entry (ls ! k) < length (rt_providers rt)"
    and "0 < slots rt (ls_entry (ls ! k))" "rep \<noteq> Averaged"
  shows "rsys_step\<^sup>*\<^sup>* \<lparr>rs_router = rt, rs_leases = ls, rs_threads = ths\<rparr>
    \<lparr>rs_router = snd (lease_report rep (ls ! k) rt), rs_leases = ls[k := fst (lease_report rep (ls ! k) rt)],
     rs_threads = ths @ [Done]\<rparr>"
proof -
  let ?l = "ls ! k" and ?ls = "ls[k := (ls ! k)\<lparr>ls_released := True\<rparr>]"
  let ?i = "ls_entry ?l"
  let ?r1 = "add_token (- 1) ?i rt"
  let ?r2 = "add_outstanding (- 1) ?i ?r1"
  let ?st = "\<lambda>r th. \<lparr>rs_router = r, rs_leases = ?ls, rs_threads = ths @ [th]\<rparr>"
  have s1: "rsys_step \<lparr>rs_router = rt, rs_leases = ls, rs_threads = ths\<rparr> (?st rt (Draining ?i rep))"
    using Finish [of k "\<lparr>rs_router = rt, rs_leases = ls, rs_threads = ths\<rparr>" rep] assms by simp
  have s2: "rsys_step (?st rt (Draining ?i rep)) (?st ?r1 (Drained ?i rep))"
    using Drain [of "length ths" "?st rt (Draining ?i rep)" ?i rep] assms(4) by simp
  have s3: "rsys_step (?st ?r1 (Drained ?i rep)) (?st ?r2 (Reporting ?i rep))"
    using Uncount [of "length ths" "?st ?r1 (Drained ?i rep)" ?i rep] by simp
  have drained: "rsys_step\<^sup>*\<^sup>* \<lparr>rs_router = rt, rs_leases = ls, rs_threads = ths\<rparr> (?st ?r2 (Reporting ?i rep))"
    using s1 s2 s3 by (meson converse_rtranclp_into_rtranclp rtranclp.rtrancl_refl)
  have report: "rsys_step (?st r (Reporting ?i rp)) (?st r' th)" if "report_step ?i rp r = (th, r')" for r rp r' th
    using Report [of "length ths" "?st r (Reporting ?i rp)" ?i rp th r'] that by simp
  note rel = release_actions [OF assms(3,2)]
  have "rsys_step\<^sup>*\<^sup>* (?st ?r2 (Reporting ?i rep)) (?st (snd (lease_report rep ?l rt)) Done)
      \<and> fst (lease_report rep ?l rt) = ?l\<lparr>ls_released := True\<rparr>"
  proof (cases rep)
    case (Succeeded lat)
    have "rsys_step\<^sup>*\<^sup>* (?st ?r2 (Reporting ?i rep)) (?st (update_breaker cb_success ?i (record_latency lat ?i ?r2)) Done)"
      using report [of "Succeeded lat" ?r2] report [of Averaged "record_latency lat ?i ?r2"] Succeeded
      by (simp add: converse_rtranclp_into_rtranclp)
    moreover have "snd (lease_report rep ?l rt) = update_breaker cb_success ?i (record_latency lat ?i ?r2)"
      using assms(3) Succeeded by (simp add: lease_success_def rel update_breaker_def record_latency_def update_entry_def)
    ultimately show ?thesis using Succeeded by (simp add: lease_success_def rel)
  next
    case (Failed retryable now)
    let ?f = "if retryable then cb_failure now else cb_release"
    have "rsys_step (?st ?r2 (Reporting ?i rep)) (?st (update_breaker ?f ?i ?r2) Done)"
      using report [of rep ?r2 Done "update_breaker ?f ?i ?r2"] Failed by simp
    moreover have "lease_report rep ?l rt = (?l\<lparr>ls_released := True\<rparr>, update_breaker ?f ?i ?r2)"
      using Failed by (cases retryable) (simp_all add: lease_failure_def rel update_breaker_def)
    ultimately show ?thesis by simp
  qed (use assms(5) in simp)
  with drained show ?thesis by (auto intro: rtranclp_trans)
qed

subsection \<open>Properties\<close>

lemma rsys_step_static: "rsys_step s s' \<Longrightarrow> static_eq (rs_router s) (rs_router s')"
proof (induction rule: rsys_step.induct)
  case (Allow t s now i "is" ok rt')
  then show ?case using static_eq_steps(3) [of "rs_router s" now i] by simp
next
  case (Report t s i rep th rt')
  then show ?case by (cases rep) (auto simp: record_latency_def update_breaker_def intro!: static_eq_update_entry)
qed (auto simp: add_token_def add_outstanding_def intro!: static_eq_update_entry)

lemma rsys_steps_static: "rsys_step\<^sup>*\<^sup>* s s' \<Longrightarrow> static_eq (rs_router s) (rs_router s')"
  by (induction rule: rtranclp_induct) (auto intro: static_eq_trans rsys_step_static)

lemma thread_tokens_nonneg [simp]: "0 \<le> thread_tokens i th" "0 \<le> live i l"
  by (cases th; simp) (simp add: live_def)

lemma draining_token:
  assumes "Draining i rep \<in> set ths"
  shows "0 < sum_list (map (thread_tokens i) ths)"
proof -
  obtain a b where ths: "ths = a @ Draining i rep # b" using split_list [OF assms] by blast
  have "0 \<le> sum_list (map (thread_tokens i) a)" "0 \<le> sum_list (map (thread_tokens i) b)"
    by (auto intro!: sum_list_nonneg)
  then show ?thesis by (simp add: ths)
qed

text \<open>
  C16. However goroutines interleave, no provider serves more calls than its configured concurrency: the
  leases in use never exceed the slots taken, nor these the capacity. A goroutine that gives its lease
  back never blocks on the semaphore, and once no call is in progress the slots, the outstanding counter
  and the leases in use agree, so capacity is neither leaked nor invented.
\<close>

theorem provider_capacity_is_never_exceeded:
  assumes "new_router configs bc = Inr rt" "rsys_step\<^sup>*\<^sup>* (initial rt) s" "i < length (rt_providers rt)"
  shows "sum_list (map (live i) (rs_leases s)) \<le> slots (rs_router s) i
    \<and> slots (rs_router s) i \<le> capacity rt i
    \<and> (\<forall>rep. Draining i rep \<in> set (rs_threads s) \<longrightarrow> 0 < slots (rs_router s) i)
    \<and> (set (rs_threads s) \<subseteq> {Done} \<longrightarrow>
          slots (rs_router s) i = sum_list (map (live i) (rs_leases s))
          \<and> outstanding (rs_router s) i = sum_list (map (live i) (rs_leases s)))"
proof -
  have inv: "rsys_inv s" using rsys_inv_steps [OF assms(2) rsys_inv_initial [OF assms(1)]] .
  have st: "static_eq rt (rs_router s)" using rsys_steps_static [OF assms(2)] by (simp add: initial_def)
  then have i: "i < length (rt_providers (rs_router s))" and cap: "capacity (rs_router s) i = capacity rt i"
    using assms(3) by (auto simp: static_eq_def capacity_def)
  have ge: "0 \<le> sum_list (map (thread_tokens i) (rs_threads s))" "0 \<le> sum_list (map (live i) (rs_leases s))"
    by (auto intro!: sum_list_nonneg)
  have idle: "sum_list (map f (rs_threads s)) = 0" if "set (rs_threads s) \<subseteq> {Done}" "f Done = 0" for f :: "rthread \<Rightarrow> int"
  proof -
    have "map f (rs_threads s) = map (\<lambda>_. 0) (rs_threads s)" using that by (intro map_cong) auto
    then show ?thesis by (simp only: sum_list_0)
  qed
  show ?thesis
    using rsys_invD [OF inv i] cap ge draining_token [of i _ "rs_threads s"] idle
    by (auto simp: tokens_def calls_def intro: add_nonneg_pos)
qed

theorem provider_capacity_is_never_exceeded_witness:
  "\<exists>s l. rsys_step\<^sup>*\<^sup>* (initial sample_router) s \<and> rs_leases s = [l] \<and> slots (rs_router s) 0 \<le> 2"
proof -
  obtain l where l: "fst (select 0 (sample_selection least_latency) sample_router) = Inr l"
    using select_result [OF sample_router_inv, of 0 "sample_selection least_latency"] sample_admissible [of 0] by auto
  let ?s = "\<lparr>rs_router = snd (select 0 (sample_selection least_latency) sample_router), rs_leases = [l],
      rs_threads = [Done]\<rparr>"
  have "rsys_step\<^sup>*\<^sup>* (initial sample_router) ?s"
    using select_run [OF sample_router_inv, of "[]" "[]" 0 "sample_selection least_latency"] l
    by (simp add: initial_def granted_def)
  moreover from provider_capacity_is_never_exceeded [OF sample_router_new this, of 0]
  have "slots (rs_router ?s) 0 \<le> 2" by (simp add: capacity_def sample_managed_def sample_config_def)
  ultimately show ?thesis by force
qed

text \<open>
  C35. The sequential methods refine the interleaved system: a call of \<open>Select\<close>, and a call of \<open>Success\<close>
  or \<open>Failure\<close> on a lease that was not given back, is a run of the atomic actions with the same result,
  so what holds of all interleavings holds of them.
\<close>

theorem router_methods_are_runs:
  assumes "router_inv rt"
  shows "rsys_step\<^sup>*\<^sup>* \<lparr>rs_router = rt, rs_leases = ls, rs_threads = ths\<rparr>
      \<lparr>rs_router = snd (select clock selection rt), rs_leases = ls @ granted (fst (select clock selection rt)),
       rs_threads = ths @ [Done]\<rparr>
    \<and> (\<forall>k rep. k < length ls \<and> \<not> ls_released (ls ! k) \<and> ls_entry (ls ! k) < length (rt_providers rt)
        \<and> 0 < slots rt (ls_entry (ls ! k)) \<and> rep \<noteq> Averaged \<longrightarrow>
        rsys_step\<^sup>*\<^sup>* \<lparr>rs_router = rt, rs_leases = ls, rs_threads = ths\<rparr>
          \<lparr>rs_router = snd (lease_report rep (ls ! k) rt),
           rs_leases = ls[k := fst (lease_report rep (ls ! k) rt)], rs_threads = ths @ [Done]\<rparr>)"
  using select_run [OF assms] lease_run by blast

theorem router_methods_are_runs_witness:
  "rsys_step\<^sup>*\<^sup>* (initial sample_router)
      \<lparr>rs_router = snd (select 0 (sample_selection least_latency) sample_router),
       rs_leases = granted (fst (select 0 (sample_selection least_latency) sample_router)), rs_threads = [Done]\<rparr>"
  using router_methods_are_runs [OF sample_router_inv, of "[]" "[]" 0 "sample_selection least_latency"]
  by (simp add: initial_def)

end
