(* ===== verification/Rate_Limit.thy ===== *)
theory Rate_Limit
  imports Aegis_Prelude Go_Float
begin

text \<open>
  The package \<open>internal/ratelimit\<close>: the two Lua scripts over a Redis key space, \<open>Limiter.Allow\<close> and
  \<open>Permit.Release\<close>.

  The key space maps a key to an integer value and an optional expiry time; a key whose time has come is
  absent. Redis runs a script without interleaving, so a script is a function on the key space. Numbers of
  the script are Lua numbers, that is binary64; the counters themselves are 64-bit integers and an
  increment that overflows is a Redis error, which stops the script without undoing its effects.
\<close>

subsection \<open>The key space\<close>

type_synonym redis = "string \<Rightarrow> (int \<times> go_time option) option"

definition redis_get :: "go_time \<Rightarrow> redis \<Rightarrow> string \<Rightarrow> int option" where
  "redis_get now r k =
     (case r k of
        None \<Rightarrow> None
      | Some (v, None) \<Rightarrow> Some v
      | Some (v, Some t) \<Rightarrow> if now < t then Some v else None)"

definition redis_del :: "string \<Rightarrow> redis \<Rightarrow> redis" where
  "redis_del k r = r(k := None)"

text \<open>\<open>INCRBY\<close> keeps the time to live of an existing key; a fresh key has none.\<close>

definition redis_incrby :: "go_time \<Rightarrow> string \<Rightarrow> int \<Rightarrow> redis \<Rightarrow> (go_error + int) \<times> redis" where
  "redis_incrby now k d r =
     (case redis_get now r k of
        None \<Rightarrow> (Inr d, r(k := Some (d, None)))
      | Some v \<Rightarrow>
          if in_i64 (v + d) then (Inr (v + d), r(k := Some (v + d, snd (the (r k)))))
          else (Inl (ErrMsg ''ERR increment or decrement would overflow''), r))"

definition redis_expire :: "go_time \<Rightarrow> string \<Rightarrow> int \<Rightarrow> redis \<Rightarrow> redis" where
  "redis_expire now k secs r =
     (case redis_get now r k of
        None \<Rightarrow> r
      | Some v \<Rightarrow> if secs \<le> 0 then redis_del k r else r(k := Some (v, Some (now + secs * second))))"

subsection \<open>The scripts\<close>

definition lua_counter :: "go_time \<Rightarrow> redis \<Rightarrow> string \<Rightarrow> rat" where
  "lua_counter now r k = (case redis_get now r k of None \<Rightarrow> 0 | Some v \<Rightarrow> fl64 (of_int v))"

definition lua_number :: "int \<Rightarrow> rat" where
  "lua_number n = fl64 (of_int n)"

definition lua_add :: "rat \<Rightarrow> rat \<Rightarrow> rat" where
  "lua_add x y = fl64 (x + y)"

text \<open>The commands of the script after its checks, each followed by its \<open>EXPIRE\<close>.\<close>

fun consume :: "go_time \<Rightarrow> (string \<times> int \<times> int) list \<Rightarrow> redis \<Rightarrow> go_error option \<times> redis" where
  "consume now [] r = (None, r)"
| "consume now ((k, d, secs) # rest) r =
     (case redis_incrby now k d r of
        (Inl e, r') \<Rightarrow> (Some e, r')
      | (Inr v, r') \<Rightarrow> consume now rest (redis_expire now k secs r'))"

definition allow_script ::
  "go_time \<Rightarrow> string \<Rightarrow> string \<Rightarrow> string \<Rightarrow> int \<Rightarrow> int \<Rightarrow> int \<Rightarrow> int \<Rightarrow> int \<Rightarrow> redis
     \<Rightarrow> (go_error + int list) \<times> redis" where
  "allow_script now k1 k2 k3 a1 a2 a3 a4 a5 r =
     (let requests = lua_counter now r k1;
          tokens = lua_counter now r k2;
          concurrent = lua_counter now r k3
      in if lua_add requests 1 > lua_number a1 then (Inr [0, 1], r)
         else if lua_add tokens (lua_number a4) > lua_number a2 then (Inr [0, 2], r)
         else if lua_add concurrent 1 > lua_number a3 then (Inr [0, 3], r)
         else case consume now [(k1, 1, 60), (k2, a4, 60), (k3, 1, a5)] r of
           (Some e, r') \<Rightarrow> (Inl e, r')
         | (None, r') \<Rightarrow> (Inr [1, 0], r'))"

definition finish_script :: "go_time \<Rightarrow> string \<Rightarrow> redis \<Rightarrow> (go_error + int) \<times> redis" where
  "finish_script now k r =
     (if lua_counter now r k \<le> 1 then (Inr 0, redis_del k r) else redis_incrby now k (- 1) r)"

subsection \<open>The limiter\<close>

record limits =
  lm_requests_per_minute :: int
  lm_tokens_per_minute :: int
  lm_max_concurrent :: int

record decision =
  dc_allowed :: bool
  dc_reason :: string
  dc_retry_after :: duration

record permit =
  pm_key :: string
  pm_released :: bool

record limiter =
  lr_prefix :: string

definition new_limiter :: "string \<Rightarrow> limiter" where
  "new_limiter prefix = \<lparr>lr_prefix = (if prefix = '''' then ''aegis:limit'' else prefix)\<rparr>"

text \<open>
  What becomes of a call to the server: it is executed and answered, executed with the answer lost, or
  never executed.
\<close>

datatype rpc = Answered | AnswerLost go_error | NotSent go_error

definition rpc_run :: "rpc \<Rightarrow> (redis \<Rightarrow> (go_error + 'a) \<times> redis) \<Rightarrow> redis \<Rightarrow> (go_error + 'a) \<times> redis" where
  "rpc_run net script r =
     (case net of
        Answered \<Rightarrow> script r
      | AnswerLost e \<Rightarrow> (Inl e, snd (script r))
      | NotSent e \<Rightarrow> (Inl e, r))"

text \<open>\<open>Time.Unix\<close>: the epoch is 62135596800 seconds after the zero time.\<close>

definition unix_seconds :: "go_time \<Rightarrow> int" where
  "unix_seconds t = t div second - 62135596800"

text \<open>\<open>int64(d.Seconds())\<close>: the sum of whole seconds and their fraction as binary64, truncated.\<close>

definition whole_seconds :: "duration \<Rightarrow> int" where
  "whole_seconds d =
     (let x = fl64 (fl64 (of_int (go_quo d second)) + fl64 (of_int (go_rem d second) / 1000000000))
      in if 0 \<le> x then \<lfloor>x\<rfloor> else \<lceil>x\<rceil>)"

definition window_of :: "go_time \<Rightarrow> int" where
  "window_of t = go_quo (unix_seconds t) 60"

definition base_key :: "limiter \<Rightarrow> string \<Rightarrow> int \<Rightarrow> string" where
  "base_key lmt bucket w = lr_prefix lmt @ '':'' @ bucket @ '':'' @ show_int w"

definition concurrent_key :: "limiter \<Rightarrow> string \<Rightarrow> string" where
  "concurrent_key lmt bucket = lr_prefix lmt @ '':'' @ bucket @ '':concurrent''"

fun reason_text :: "int \<Rightarrow> string" where
  "reason_text n =
     (if n = 1 then ''requests_per_minute'' else if n = 2 then ''tokens_per_minute''
      else if n = 3 then ''maximum_concurrency'' else '''')"

text \<open>\<open>clock\<close> is the gateway's time and \<open>now\<close> the server's.\<close>

definition limiter_allow ::
  "limiter \<Rightarrow> rpc \<Rightarrow> go_time \<Rightarrow> go_time \<Rightarrow> string \<Rightarrow> limits \<Rightarrow> int \<Rightarrow> duration \<Rightarrow> redis
     \<Rightarrow> (go_error + (decision \<times> permit option)) \<times> redis" where
  "limiter_allow lmt net clock now bucket lims estimated ttl r =
     (if bucket = '''' \<or> lm_requests_per_minute lims \<le> 0 \<or> lm_tokens_per_minute lims \<le> 0
         \<or> lm_max_concurrent lims \<le> 0 \<or> estimated < 0
      then (Inl (ErrMsg ''invalid rate-limit input''), r)
      else
        let base = base_key lmt bucket (window_of clock);
            ckey = concurrent_key lmt bucket
        in case rpc_run net
             (allow_script now (base @ '':requests'') (base @ '':tokens'') ckey
               (lm_requests_per_minute lims) (lm_tokens_per_minute lims) (lm_max_concurrent lims)
               estimated (whole_seconds ttl)) r of
             (Inl e, r') \<Rightarrow> (Inl (ErrWrap ''execute rate-limit script'' e), r')
           | (Inr result, r') \<Rightarrow>
               if length result \<noteq> 2 then (Inl (ErrMsg ''unexpected rate-limit script response''), r')
               else if result ! 0 = 1
               then (Inr (\<lparr>dc_allowed = True, dc_reason = '''', dc_retry_after = 0\<rparr>,
                          Some \<lparr>pm_key = ckey, pm_released = False\<rparr>), r')
               else (Inr (\<lparr>dc_allowed = False, dc_reason = reason_text (result ! 1), dc_retry_after = minute\<rparr>,
                          None), r'))"

definition permit_release ::
  "rpc \<Rightarrow> go_time \<Rightarrow> permit option \<Rightarrow> redis \<Rightarrow> go_error option \<times> permit option \<times> redis" where
  "permit_release net now p r =
     (case p of
        None \<Rightarrow> (None, None, r)
      | Some pm \<Rightarrow>
          if pm_released pm then (None, p, r)
          else case rpc_run net (finish_script now (pm_key pm)) r of
            (Inl e, r') \<Rightarrow> (Some (ErrWrap ''release concurrency permit'' e), Some (pm\<lparr>pm_released := True\<rparr>), r')
          | (Inr v, r') \<Rightarrow> (None, Some (pm\<lparr>pm_released := True\<rparr>), r'))"

subsection \<open>Keys\<close>

definition request_key :: "limiter \<Rightarrow> string \<Rightarrow> int \<Rightarrow> string" where
  "request_key lmt bucket w = base_key lmt bucket w @ '':requests''"

definition token_key :: "limiter \<Rightarrow> string \<Rightarrow> int \<Rightarrow> string" where
  "token_key lmt bucket w = base_key lmt bucket w @ '':tokens''"

lemma keys_distinct [simp]:
  "request_key lmt b w \<noteq> token_key lmt b' w'" "token_key lmt b' w' \<noteq> request_key lmt b w"
  "request_key lmt b w \<noteq> concurrent_key lmt b'" "concurrent_key lmt b' \<noteq> request_key lmt b w"
  "token_key lmt b w \<noteq> concurrent_key lmt b'" "concurrent_key lmt b' \<noteq> token_key lmt b w"
proof -
  have suffix: "take 2 (rev (request_key lmt b w)) = ''st''" "take 2 (rev (token_key lmt b w)) = ''sn''"
      "take 2 (rev (concurrent_key lmt b)) = ''tn''" for b w
    by (simp_all add: request_key_def token_key_def concurrent_key_def)
  show "request_key lmt b w \<noteq> token_key lmt b' w'" "request_key lmt b w \<noteq> concurrent_key lmt b'"
      "token_key lmt b w \<noteq> concurrent_key lmt b'"
    using suffix(1) [of b w] suffix(2) [of b' w'] suffix(2) [of b w] suffix(3) [of b'] by auto
  then show "token_key lmt b' w' \<noteq> request_key lmt b w" "concurrent_key lmt b' \<noteq> request_key lmt b w"
      "concurrent_key lmt b' \<noteq> token_key lmt b w"
    by metis+
qed

lemma base_key_inj: "base_key lmt b w = base_key lmt b' w' \<longleftrightarrow> b = b' \<and> w = w'"
proof
  assume "base_key lmt b w = base_key lmt b' w'"
  then have "b @ CHR '':'' # show_int w = b' @ CHR '':'' # show_int w'" by (simp add: base_key_def)
  then have "b = b' \<and> show_int w = show_int w'" by (rule split_at_last) (rule show_int_no_colon)+
  then show "b = b' \<and> w = w'" using show_int_inj by blast
qed simp

lemma keys_inj [simp]:
  "request_key lmt b w = request_key lmt b' w' \<longleftrightarrow> b = b' \<and> w = w'"
  "token_key lmt b w = token_key lmt b' w' \<longleftrightarrow> b = b' \<and> w = w'"
  "concurrent_key lmt b = concurrent_key lmt b' \<longleftrightarrow> b = b'"
  by (simp_all add: request_key_def token_key_def concurrent_key_def base_key_inj)

subsection \<open>Counters\<close>

definition counter :: "go_time \<Rightarrow> redis \<Rightarrow> string \<Rightarrow> int" where
  "counter now r k = (case redis_get now r k of None \<Rightarrow> 0 | Some v \<Rightarrow> v)"

text \<open>Values for which Lua's arithmetic on two of them is exact.\<close>

definition lua_exact :: "int \<Rightarrow> bool" where
  "lua_exact n \<longleftrightarrow> 0 \<le> n \<and> n < 4503599627370496"

lemma lua_exact_1 [simp]: "lua_exact 1"
  by (simp add: lua_exact_def)

lemma lua_number_exact: "lua_exact n \<Longrightarrow> lua_number n = of_int n"
  by (simp add: lua_number_def lua_exact_def)

lemma lua_counter_exact: "lua_exact (counter now r k) \<Longrightarrow> lua_counter now r k = of_int (counter now r k)"
  by (auto simp: lua_counter_def counter_def lua_exact_def split: option.splits)

lemma lua_add_exact:
  assumes "lua_exact m" "lua_exact n"
  shows "lua_add (of_int m) (of_int n) = of_int (m + n)"
proof -
  have "fl64 (of_int (m + n)) = of_int (m + n)"
    using assms by (intro fl64_of_int) (auto simp: lua_exact_def)
  then show ?thesis by (simp add: lua_add_def)
qed

definition bump :: "go_time \<Rightarrow> string \<Rightarrow> int \<Rightarrow> int \<Rightarrow> redis \<Rightarrow> redis" where
  "bump now k d secs r = r(k := Some (counter now r k + d, Some (now + secs * second)))"

lemma redis_get_counter: "redis_get now r k = Some v \<Longrightarrow> counter now r k = v"
  by (simp add: counter_def)

lemma redis_get_fresh: "redis_get now (r(k := Some (v, None))) k = Some v"
  by (simp add: redis_get_def)

lemma redis_get_keep:
  "redis_get now r k = Some v \<Longrightarrow> redis_get now (r(k := Some (u, snd (the (r k))))) k = Some u"
  by (auto simp: redis_get_def split: option.splits if_splits)

lemma incr_expire:
  assumes "lua_exact (counter now r k)" "lua_exact d" "0 < secs"
  shows "\<exists>v. redis_incrby now k d r = (Inr v, snd (redis_incrby now k d r))
    \<and> redis_expire now k secs (snd (redis_incrby now k d r)) = bump now k d secs r"
proof (cases "redis_get now r k")
  case None
  then show ?thesis using assms(3)
    by (simp add: redis_incrby_def redis_expire_def bump_def counter_def redis_get_fresh)
next
  case (Some v)
  have "in_i64 (v + d)" using assms Some by (auto simp: counter_def lua_exact_def in_i64_def)
  then show ?thesis using assms(3) Some
    by (simp add: redis_incrby_def redis_expire_def bump_def counter_def redis_get_keep)
qed

lemma consume_step:
  assumes "lua_exact (counter now r k)" "lua_exact d" "0 < secs"
  shows "consume now ((k, d, secs) # rest) r = consume now rest (bump now k d secs r)"
  using incr_expire [OF assms] by (auto split: prod.splits)

lemma counter_bump:
  "0 < secs \<Longrightarrow> counter now (bump now k d secs r) k' = counter now r k' + (if k' = k then d else 0)"
  by (auto simp: counter_def bump_def redis_get_def second_def split: option.splits)

subsection \<open>What an admission decides\<close>

definition valid_limits :: "limits \<Rightarrow> bool" where
  "valid_limits lims \<longleftrightarrow> 0 < lm_requests_per_minute lims \<and> 0 < lm_tokens_per_minute lims \<and> 0 < lm_max_concurrent lims"

definition exact_limits :: "limits \<Rightarrow> bool" where
  "exact_limits lims \<longleftrightarrow> lua_exact (lm_requests_per_minute lims) \<and> lua_exact (lm_tokens_per_minute lims)
     \<and> lua_exact (lm_max_concurrent lims)"

definition denied :: "string \<Rightarrow> decision" where
  "denied reason = \<lparr>dc_allowed = False, dc_reason = reason, dc_retry_after = minute\<rparr>"

definition allowed :: decision where
  "allowed = \<lparr>dc_allowed = True, dc_reason = '''', dc_retry_after = 0\<rparr>"

lemma decision_fields [simp]:
  "\<not> dc_allowed (denied reason)" "dc_reason (denied reason) = reason" "dc_allowed allowed"
  by (simp_all add: denied_def allowed_def)

definition admitted :: "limiter \<Rightarrow> go_time \<Rightarrow> go_time \<Rightarrow> string \<Rightarrow> int \<Rightarrow> duration \<Rightarrow> redis \<Rightarrow> redis" where
  "admitted lmt clock now bucket est ttl r =
     bump now (concurrent_key lmt bucket) 1 (whole_seconds ttl)
       (bump now (token_key lmt bucket (window_of clock)) est 60
         (bump now (request_key lmt bucket (window_of clock)) 1 60 r))"

definition exact_counters :: "limiter \<Rightarrow> go_time \<Rightarrow> go_time \<Rightarrow> string \<Rightarrow> redis \<Rightarrow> bool" where
  "exact_counters lmt clock now bucket r \<longleftrightarrow>
     lua_exact (counter now r (request_key lmt bucket (window_of clock)))
     \<and> lua_exact (counter now r (token_key lmt bucket (window_of clock)))
     \<and> lua_exact (counter now r (concurrent_key lmt bucket))"

lemma limiter_allow_eq:
  assumes "bucket \<noteq> ''''" "valid_limits lims" "exact_limits lims" "lua_exact est" "0 < whole_seconds ttl"
    and "exact_counters lmt clock now bucket r"
  shows "limiter_allow lmt Answered clock now bucket lims est ttl r =
    (if lm_requests_per_minute lims < counter now r (request_key lmt bucket (window_of clock)) + 1
     then (Inr (denied ''requests_per_minute'', None), r)
     else if lm_tokens_per_minute lims < counter now r (token_key lmt bucket (window_of clock)) + est
     then (Inr (denied ''tokens_per_minute'', None), r)
     else if lm_max_concurrent lims < counter now r (concurrent_key lmt bucket) + 1
     then (Inr (denied ''maximum_concurrency'', None), r)
     else (Inr (allowed, Some \<lparr>pm_key = concurrent_key lmt bucket, pm_released = False\<rparr>),
           admitted lmt clock now bucket est ttl r))"
proof -
  let ?k1 = "request_key lmt bucket (window_of clock)" and ?k2 = "token_key lmt bucket (window_of clock)"
    and ?k3 = "concurrent_key lmt bucket"
  note ex = assms(6) [unfolded exact_counters_def]
  have script: "allow_script now ?k1 ?k2 ?k3 (lm_requests_per_minute lims) (lm_tokens_per_minute lims)
      (lm_max_concurrent lims) est (whole_seconds ttl) r =
    (if lm_requests_per_minute lims < counter now r ?k1 + 1 then (Inr [0, 1], r)
     else if lm_tokens_per_minute lims < counter now r ?k2 + est then (Inr [0, 2], r)
     else if lm_max_concurrent lims < counter now r ?k3 + 1 then (Inr [0, 3], r)
     else (Inr [1, 0], admitted lmt clock now bucket est ttl r))"
  proof -
    have plus: "lua_number limit < lua_add (lua_counter now r k) (lua_number d) \<longleftrightarrow> limit < counter now r k + d"
      if "lua_exact (counter now r k)" "lua_exact d" "lua_exact limit" for k d limit
      by (simp only: lua_counter_exact [OF that(1)] lua_number_exact [OF that(2)] lua_number_exact [OF that(3)]
          lua_add_exact [OF that(1,2)] of_int_less_iff)
    have one: "lua_number 1 = 1" by (simp add: lua_number_exact)
    have cons: "consume now [(?k1, 1, 60), (?k2, est, 60), (?k3, 1, whole_seconds ttl)] r
        = (None, admitted lmt clock now bucket est ttl r)"
      using ex assms(4,5) by (simp add: consume_step counter_bump admitted_def del: consume.simps(2))
    show ?thesis
      using plus [of ?k1 1 "lm_requests_per_minute lims"] plus [of ?k2 est "lm_tokens_per_minute lims"]
        plus [of ?k3 1 "lm_max_concurrent lims"] ex assms(3,4)
      unfolding allow_script_def cons one Let_def exact_limits_def by simp
  qed
  show ?thesis
    using assms(1,2,4) script
    unfolding limiter_allow_def rpc_run_def Let_def request_key_def [symmetric] token_key_def [symmetric]
    by (auto simp: valid_limits_def lua_exact_def denied_def allowed_def)
qed

subsection \<open>Histories of a limiter\<close>

text \<open>
  A state of the limiter in use: the time, the key space, the permits that are out with their bucket and
  the time they were granted, and a log of the admissions with bucket, window and tokens. Time may pass as
  long as every permit is given back before its time to live has run out; the clocks of gateway and server
  agree.
\<close>

record lim_state =
  lt_now :: go_time
  lt_redis :: redis
  lt_held :: "(string \<times> go_time) list"
  lt_log :: "(string \<times> int \<times> int) list"

definition drop_nth :: "nat \<Rightarrow> 'a list \<Rightarrow> 'a list" where
  "drop_nth k xs = take k xs @ drop (Suc k) xs"

inductive lim_step :: "limiter \<Rightarrow> (string \<Rightarrow> limits) \<Rightarrow> duration \<Rightarrow> lim_state \<Rightarrow> lim_state \<Rightarrow> bool"
  for lmt lims ttl where
  Tick: "lt_now s \<le> now' \<Longrightarrow> \<forall>(b, g) \<in> set (lt_held s). now' < g + whole_seconds ttl * second \<Longrightarrow>
    lim_step lmt lims ttl s (s\<lparr>lt_now := now'\<rparr>)"
| Admit: "limiter_allow lmt Answered (lt_now s) (lt_now s) b (lims b) est ttl (lt_redis s) = (Inr (d, Some p), r') \<Longrightarrow>
    lua_exact est \<Longrightarrow>
    lim_step lmt lims ttl s (s\<lparr>lt_redis := r', lt_held := lt_held s @ [(b, lt_now s)],
      lt_log := lt_log s @ [(b, window_of (lt_now s), est)]\<rparr>)"
| Reject: "limiter_allow lmt Answered (lt_now s) (lt_now s) b (lims b) est ttl (lt_redis s) = (Inr (d, None), r') \<Longrightarrow>
    lua_exact est \<Longrightarrow> lim_step lmt lims ttl s (s\<lparr>lt_redis := r'\<rparr>)"
| Free: "k < length (lt_held s) \<Longrightarrow>
    permit_release Answered (lt_now s)
      (Some \<lparr>pm_key = concurrent_key lmt (fst (lt_held s ! k)), pm_released = False\<rparr>) (lt_redis s) = (e, p', r') \<Longrightarrow>
    lim_step lmt lims ttl s (s\<lparr>lt_redis := r', lt_held := drop_nth k (lt_held s)\<rparr>)"

definition held_in :: "lim_state \<Rightarrow> string \<Rightarrow> int" where
  "held_in s b = int (length (filter (\<lambda>h. fst h = b) (lt_held s)))"

definition requests_in :: "lim_state \<Rightarrow> string \<Rightarrow> int \<Rightarrow> int" where
  "requests_in s b w = int (length (filter (\<lambda>(b', w', e). b' = b \<and> w' = w) (lt_log s)))"

definition tokens_in :: "lim_state \<Rightarrow> string \<Rightarrow> int \<Rightarrow> int" where
  "tokens_in s b w = sum_list (map (\<lambda>(b', w', e). e) (filter (\<lambda>(b', w', e). b' = b \<and> w' = w) (lt_log s)))"

definition window_end :: "int \<Rightarrow> go_time" where
  "window_end w = ((w + 1) * 60 + 62135596800) * second"

definition epoch :: go_time where
  "epoch = 62135596800 * second"

lemma window_of_bounds:
  assumes "epoch \<le> t"
  shows "t < window_end (window_of t)" "window_end (window_of t) \<le> t + 60 * second"
proof -
  have "epoch div second \<le> t div second" using assms by (intro zdiv_mono1) (simp_all add: second_def)
  then have u: "0 \<le> unix_seconds t" by (simp add: unix_seconds_def epoch_def second_def)
  have w: "window_of t = unix_seconds t div 60" using u by (simp add: window_of_def go_quo_nonneg)
  have a: "unix_seconds t < (window_of t + 1) * 60" "window_of t * 60 \<le> unix_seconds t"
    by (simp_all add: w)
  have t: "t div second = unix_seconds t + 62135596800" by (simp add: unix_seconds_def)
  have s: "(t div second) * second \<le> t" "t < (t div second + 1) * second"
    by (simp_all add: second_def)
  have "(t div second + 1) * second \<le> window_end (window_of t)"
    unfolding window_end_def t using a(1) by (intro mult_right_mono) (auto simp: second_def)
  with s(2) show "t < window_end (window_of t)" by linarith
  have "window_end (window_of t) \<le> (t div second + 60) * second"
    unfolding window_end_def t using a(2) by (intro mult_right_mono) (auto simp: second_def)
  with s(1) show "window_end (window_of t) \<le> t + 60 * second" by (simp add: algebra_simps)
qed

lemma window_end_mono: "v \<le> w \<Longrightarrow> window_end v \<le> window_end w"
  by (auto simp: window_end_def second_def)

lemma window_of_mono: "epoch \<le> t \<Longrightarrow> t \<le> u \<Longrightarrow> window_of t \<le> window_of u"
proof (rule ccontr)
  assume *: "epoch \<le> t" "t \<le> u" "\<not> window_of t \<le> window_of u"
  then have "window_end (window_of u) \<le> window_end (window_of t - 1)" by (intro window_end_mono) simp
  moreover have "window_end (window_of t - 1) \<le> t"
    using window_of_bounds(2) [OF *(1)] by (simp add: window_end_def algebra_simps)
  ultimately show False using window_of_bounds(1) [of u] * by linarith
qed

lemma finish_script_eq:
  assumes "lua_exact (counter now r k)"
  shows "snd (finish_script now k r) =
    (if counter now r k \<le> 1 then redis_del k r else r(k := Some (counter now r k - 1, snd (the (r k)))))"
proof -
  have c: "lua_counter now r k \<le> 1 \<longleftrightarrow> counter now r k \<le> 1"
    by (simp add: lua_counter_exact [OF assms])
  have "redis_incrby now k (- 1) r = (Inr (counter now r k - 1), r(k := Some (counter now r k - 1, snd (the (r k)))))"
    if "\<not> counter now r k \<le> 1"
    using that assms
    by (auto simp: redis_incrby_def counter_def lua_exact_def in_i64_def split: option.splits)
  then show ?thesis by (simp add: finish_script_def c)
qed

text \<open>A key lives past a time when its expiry is after it.\<close>

definition lives_past :: "redis \<Rightarrow> string \<Rightarrow> go_time \<Rightarrow> bool" where
  "lives_past r k t \<longleftrightarrow> (\<forall>v x. r k = Some (v, x) \<longrightarrow> (\<exists>u. x = Some u \<and> t \<le> u))"

lemma counter_later:
  assumes "lives_past r k t" "now' < t" "now \<le> now'"
  shows "counter now' r k = counter now r k"
  using assms by (auto simp: counter_def redis_get_def lives_past_def split: option.splits)

lemma counter_zero_later: "counter now r k = 0 \<Longrightarrow> now \<le> now' \<Longrightarrow> counter now' r k = 0"
  by (auto simp: counter_def redis_get_def split: option.splits if_splits)

text \<open>The concurrency part of the invariant, for one bucket.\<close>

definition slots_inv :: "limiter \<Rightarrow> (string \<Rightarrow> limits) \<Rightarrow> duration \<Rightarrow> lim_state \<Rightarrow> string \<Rightarrow> bool" where
  "slots_inv lmt lims ttl s b \<longleftrightarrow>
     counter (lt_now s) (lt_redis s) (concurrent_key lmt b) = held_in s b
     \<and> held_in s b \<le> lm_max_concurrent (lims b)
     \<and> (\<forall>g. (b, g) \<in> set (lt_held s) \<longrightarrow>
          g \<le> lt_now s \<and> lives_past (lt_redis s) (concurrent_key lmt b) (g + whole_seconds ttl * second))"

text \<open>The window part, for one bucket and window.\<close>

definition window_inv :: "limiter \<Rightarrow> (string \<Rightarrow> limits) \<Rightarrow> lim_state \<Rightarrow> string \<Rightarrow> int \<Rightarrow> bool" where
  "window_inv lmt lims s b w \<longleftrightarrow>
     requests_in s b w \<le> lm_requests_per_minute (lims b)
     \<and> 0 \<le> tokens_in s b w \<and> tokens_in s b w \<le> lm_tokens_per_minute (lims b)
     \<and> (window_of (lt_now s) \<le> w \<longrightarrow>
          counter (lt_now s) (lt_redis s) (request_key lmt b w) = requests_in s b w
          \<and> counter (lt_now s) (lt_redis s) (token_key lmt b w) = tokens_in s b w
          \<and> lives_past (lt_redis s) (request_key lmt b w) (window_end w)
          \<and> lives_past (lt_redis s) (token_key lmt b w) (window_end w))"

definition lim_inv :: "limiter \<Rightarrow> (string \<Rightarrow> limits) \<Rightarrow> duration \<Rightarrow> lim_state \<Rightarrow> bool" where
  "lim_inv lmt lims ttl s \<longleftrightarrow>
     epoch \<le> lt_now s \<and> (\<forall>b. slots_inv lmt lims ttl s b) \<and> (\<forall>b w. window_inv lmt lims s b w)"

lemma lim_invD:
  "lim_inv lmt lims ttl s \<Longrightarrow> epoch \<le> lt_now s" "lim_inv lmt lims ttl s \<Longrightarrow> slots_inv lmt lims ttl s b"
  "lim_inv lmt lims ttl s \<Longrightarrow> window_inv lmt lims s b w"
  by (simp_all add: lim_inv_def)

lemma lim_inv_tick:
  assumes inv: "lim_inv lmt lims ttl s" and le: "lt_now s \<le> now'"
    and prompt: "\<forall>(b, g) \<in> set (lt_held s). now' < g + whole_seconds ttl * second"
  shows "lim_inv lmt lims ttl (s\<lparr>lt_now := now'\<rparr>)"
proof -
  have ep: "epoch \<le> lt_now s" using lim_invD(1) [OF inv] .
  have slots: "slots_inv lmt lims ttl (s\<lparr>lt_now := now'\<rparr>) b" for b
  proof -
    note I = lim_invD(2) [OF inv, of b, unfolded slots_inv_def]
    let ?k = "concurrent_key lmt b"
    have "counter now' (lt_redis s) ?k = held_in s b"
    proof (cases "\<exists>g. (b, g) \<in> set (lt_held s)")
      case True
      then obtain g where g: "(b, g) \<in> set (lt_held s)" by blast
      with I have "lives_past (lt_redis s) ?k (g + whole_seconds ttl * second)" by blast
      moreover have "now' < g + whole_seconds ttl * second" using prompt g by blast
      ultimately show ?thesis using counter_later le I by metis
    next
      case False
      then have "held_in s b = 0" by (auto simp: held_in_def filter_empty_conv)
      then show ?thesis using counter_zero_later [OF _ le] I by simp
    qed
    then show ?thesis using I le by (auto simp: slots_inv_def held_in_def)
  qed
  have "window_inv lmt lims (s\<lparr>lt_now := now'\<rparr>) b w" for b w
  proof -
    note I = lim_invD(3) [OF inv, of b w, unfolded window_inv_def]
    have "window_of (lt_now s) \<le> w \<and> now' < window_end w" if "window_of now' \<le> w"
      using that window_of_mono [OF ep le] window_of_bounds(1) [of now'] window_end_mono [OF that] ep le by linarith
    then show ?thesis
      using I counter_later [OF _ _ le, of "lt_redis s" _ "window_end w"]
      by (auto simp: window_inv_def requests_in_def tokens_in_def)
  qed
  with slots ep le show ?thesis by (simp add: lim_inv_def)
qed

lemma lim_inv_exact:
  assumes "lim_inv lmt lims ttl s" "exact_limits (lims b)"
  shows "exact_counters lmt (lt_now s) (lt_now s) b (lt_redis s)"
  using lim_invD(2) [OF assms(1), of b] lim_invD(3) [OF assms(1), of b "window_of (lt_now s)"] assms(2)
  by (auto simp: exact_counters_def slots_inv_def window_inv_def exact_limits_def lua_exact_def
      held_in_def requests_in_def)

lemma lives_past_upd:
  "lives_past (r(k := Some (v, Some u))) k' t = (if k' = k then t \<le> u else lives_past r k' t)"
  by (simp add: lives_past_def)

lemma counter_upd:
  "counter now (r(k := Some (v, Some u))) k' = (if k' = k then if now < u then v else 0 else counter now r k')"
  by (simp add: counter_def redis_get_def)

lemma admitted_eq:
  "admitted lmt now now b est ttl r =
     r(request_key lmt b (window_of now) := Some (counter now r (request_key lmt b (window_of now)) + 1, Some (now + 60 * second)),
       token_key lmt b (window_of now) := Some (counter now r (token_key lmt b (window_of now)) + est, Some (now + 60 * second)),
       concurrent_key lmt b := Some (counter now r (concurrent_key lmt b) + 1, Some (now + whole_seconds ttl * second)))"
  by (simp add: admitted_def bump_def counter_upd)

lemma limiter_allow_Inr:
  assumes "limiter_allow lmt net clock now b lms est ttl r = (Inr x, r')"
  shows "b \<noteq> ''''" "valid_limits lms"
  using assms by (auto simp: limiter_allow_def valid_limits_def split: if_splits)

lemma lim_inv_admit:
  assumes inv: "lim_inv lmt lims ttl s" and lims: "exact_limits (lims b)" and ttl: "0 < whole_seconds ttl"
    and est: "lua_exact est"
    and call: "limiter_allow lmt Answered (lt_now s) (lt_now s) b (lims b) est ttl (lt_redis s) = (Inr (d, Some p), r')"
  shows "lim_inv lmt lims ttl (s\<lparr>lt_redis := r', lt_held := lt_held s @ [(b, lt_now s)],
      lt_log := lt_log s @ [(b, window_of (lt_now s), est)]\<rparr>)" (is "lim_inv lmt lims ttl ?s")
proof -
  let ?now = "lt_now s" and ?w = "window_of (lt_now s)" and ?r = "lt_redis s"
  note eq = limiter_allow_eq [OF limiter_allow_Inr [OF call] lims est ttl lim_inv_exact [OF inv lims]]
  have r': "r' = admitted lmt ?now ?now b est ttl ?r"
    and room: "counter ?now ?r (request_key lmt b ?w) + 1 \<le> lm_requests_per_minute (lims b)"
      "counter ?now ?r (token_key lmt b ?w) + est \<le> lm_tokens_per_minute (lims b)"
      "counter ?now ?r (concurrent_key lmt b) + 1 \<le> lm_max_concurrent (lims b)"
    using call unfolding eq by (auto split: if_splits)
  have ep: "epoch \<le> ?now" using lim_invD(1) [OF inv] .
  have pos: "?now < ?now + 60 * second" "?now < ?now + whole_seconds ttl * second"
    using ttl by (simp_all add: second_def)
  have slots: "slots_inv lmt lims ttl ?s b'" for b'
  proof (cases "b' = b")
    case True
    then show ?thesis
      using lim_invD(2) [OF inv, of b] room(3) pos
      by (auto simp: slots_inv_def r' admitted_eq counter_upd lives_past_upd held_in_def)
  next
    case False
    then show ?thesis
      using lim_invD(2) [OF inv, of b'] by (auto simp: slots_inv_def r' admitted_eq counter_upd lives_past_upd held_in_def)
  qed
  have "window_inv lmt lims ?s b' w" for b' w
  proof (cases "b' = b \<and> w = ?w")
    case True
    have "window_end ?w \<le> ?now + 60 * second" using window_of_bounds(2) [OF ep] .
    then show ?thesis
      using True lim_invD(3) [OF inv, of b ?w] room(1,2) pos est
      by (auto simp: window_inv_def r' admitted_eq counter_upd lives_past_upd requests_in_def tokens_in_def lua_exact_def)
  next
    case False
    have "filter (\<lambda>(b'', w', e). b'' = b' \<and> w' = w) [(b, ?w, est)] = []" using False by auto
    then have "requests_in ?s b' w = requests_in s b' w" "tokens_in ?s b' w = tokens_in s b' w"
      by (simp_all add: requests_in_def tokens_in_def)
    then show ?thesis
      using False lim_invD(3) [OF inv, of b' w] by (auto simp: window_inv_def r' admitted_eq counter_upd lives_past_upd)
  qed
  with slots ep show ?thesis by (simp add: lim_inv_def)
qed

lemma lim_inv_reject:
  assumes inv: "lim_inv lmt lims ttl s" and lims: "exact_limits (lims b)" and ttl: "0 < whole_seconds ttl"
    and est: "lua_exact est"
    and call: "limiter_allow lmt Answered (lt_now s) (lt_now s) b (lims b) est ttl (lt_redis s) = (Inr (d, None), r')"
  shows "r' = lt_redis s"
  using call limiter_allow_eq [OF limiter_allow_Inr [OF call] lims est ttl lim_inv_exact [OF inv lims]]
  by (auto split: if_splits)

lemma filter_drop_nth:
  assumes "k < length xs"
  shows "int (length (filter P (drop_nth k xs))) = int (length (filter P xs)) - of_bool (P (xs ! k))"
proof -
  have "filter P xs = filter P (take k xs) @ filter P (xs ! k # drop (Suc k) xs)"
    using id_take_nth_drop [OF assms] by (metis filter_append)
  then show ?thesis by (simp add: drop_nth_def)
qed

lemma set_drop_nth: "x \<in> set (drop_nth k xs) \<Longrightarrow> x \<in> set xs"
  by (auto simp: drop_nth_def dest: in_set_takeD in_set_dropD)

lemma lim_inv_free:
  assumes inv: "lim_inv lmt lims ttl s" and lims: "\<forall>b. exact_limits (lims b)"
    and k: "k < length (lt_held s)"
    and call: "permit_release Answered (lt_now s)
      (Some \<lparr>pm_key = concurrent_key lmt (fst (lt_held s ! k)), pm_released = False\<rparr>) (lt_redis s) = (e, p', r')"
  shows "lim_inv lmt lims ttl (s\<lparr>lt_redis := r', lt_held := drop_nth k (lt_held s)\<rparr>)" (is "lim_inv lmt lims ttl ?s")
proof -
  let ?b = "fst (lt_held s ! k)" and ?now = "lt_now s" and ?r = "lt_redis s"
  let ?k = "concurrent_key lmt ?b"
  have ex: "lua_exact (counter ?now ?r ?k)"
    using lim_inv_exact [OF inv, of ?b] lims by (simp add: exact_counters_def)
  have r': "r' = (if counter ?now ?r ?k \<le> 1 then redis_del ?k ?r else ?r(?k := Some (counter ?now ?r ?k - 1, snd (the (?r ?k)))))"
    using call finish_script_eq [OF ex] by (auto simp: permit_release_def rpc_run_def split: sum.splits prod.splits)
  have other: "r' k' = ?r k'" if "k' \<noteq> ?k" for k' using that by (simp add: r' redis_del_def)
  have same: "counter ?now r' k' = counter ?now ?r k'" "lives_past r' k' t = lives_past ?r k' t" if "k' \<noteq> ?k" for k' t
    using other [OF that] by (simp_all add: counter_def redis_get_def lives_past_def)
  have held: "held_in ?s b = held_in s b - of_bool (b = ?b)" for b
    using filter_drop_nth [OF k, of "\<lambda>h. fst h = b"] by (auto simp: held_in_def)
  have one: "1 \<le> held_in s ?b"
    using k by (auto simp: held_in_def Suc_le_eq filter_empty_conv intro: nth_mem)
  have slots: "slots_inv lmt lims ttl ?s b" for b
  proof (cases "b = ?b")
    case False
    then show ?thesis
      using lim_invD(2) [OF inv, of b] same [of "concurrent_key lmt b"] held [of b] set_drop_nth
      by (fastforce simp: slots_inv_def)
  next
    case True
    note I = lim_invD(2) [OF inv, of ?b, unfolded slots_inv_def]
    have "counter ?now r' ?k = held_in s ?b - 1"
      using I one by (auto simp: r' counter_def redis_get_def redis_del_def split: option.splits if_splits)
    moreover have "lives_past r' ?k t" if "lives_past ?r ?k t" for t
      using that I one by (auto simp: r' lives_past_def redis_del_def counter_def redis_get_def split: option.splits if_splits)
    ultimately show ?thesis
      using True I held [of ?b] set_drop_nth by (fastforce simp: slots_inv_def)
  qed
  have "window_inv lmt lims ?s b w" for b w
    using lim_invD(3) [OF inv, of b w] same by (simp add: window_inv_def requests_in_def tokens_in_def)
  with slots lim_invD(1) [OF inv] show ?thesis by (simp add: lim_inv_def)
qed

definition fresh_limiter :: "go_time \<Rightarrow> lim_state" where
  "fresh_limiter now = \<lparr>lt_now = now, lt_redis = (\<lambda>k. None), lt_held = [], lt_log = []\<rparr>"

lemma lim_inv_fresh:
  "epoch \<le> now \<Longrightarrow> \<forall>b. exact_limits (lims b) \<Longrightarrow> lim_inv lmt lims ttl (fresh_limiter now)"
  by (auto simp: lim_inv_def fresh_limiter_def slots_inv_def window_inv_def held_in_def requests_in_def
      tokens_in_def counter_def redis_get_def lives_past_def exact_limits_def lua_exact_def)

lemma lim_inv_step:
  "lim_step lmt lims ttl s s' \<Longrightarrow> \<forall>b. exact_limits (lims b) \<Longrightarrow> 0 < whole_seconds ttl \<Longrightarrow>
     lim_inv lmt lims ttl s \<Longrightarrow> lim_inv lmt lims ttl s'"
proof (induction rule: lim_step.induct)
  case (Tick s now')
  then show ?case by (simp add: lim_inv_tick)
next
  case (Admit s b est d p r')
  then show ?case by (intro lim_inv_admit) auto
next
  case (Reject s b est d r')
  have "r' = lt_redis s" using Reject by (intro lim_inv_reject [of lmt lims ttl s b est]) auto
  with Reject show ?case by simp
next
  case (Free k s e p' r')
  then show ?case by (intro lim_inv_free) auto
qed

lemma lim_inv_steps:
  "(lim_step lmt lims ttl)\<^sup>*\<^sup>* s s' \<Longrightarrow> \<forall>b. exact_limits (lims b) \<Longrightarrow> 0 < whole_seconds ttl \<Longrightarrow>
     lim_inv lmt lims ttl s \<Longrightarrow> lim_inv lmt lims ttl s'"
  by (induction rule: rtranclp_induct) (auto intro: lim_inv_step)

subsection \<open>Properties\<close>


definition sample_limits :: limits where
  "sample_limits = \<lparr>lm_requests_per_minute = 5, lm_tokens_per_minute = 100, lm_max_concurrent = 1\<rparr>"

lemma sample_limits_ok: "exact_limits sample_limits" "valid_limits sample_limits" "0 < whole_seconds (2 * minute)"
  by (simp_all add: exact_limits_def sample_limits_def lua_exact_def valid_limits_def whole_seconds_def minute_def
      second_def go_quo_def go_rem_def)

lemma sample_admit:
  "limiter_allow (new_limiter '''') Answered epoch epoch ''b'' sample_limits 10 (2 * minute) (\<lambda>k. None)
     = (Inr (allowed, Some \<lparr>pm_key = concurrent_key (new_limiter '''') ''b'', pm_released = False\<rparr>),
        admitted (new_limiter '''') epoch epoch ''b'' 10 (2 * minute) (\<lambda>k. None))"
proof -
  have "counter epoch (\<lambda>k. None) k = 0" for k by (simp add: counter_def redis_get_def)
  then show ?thesis
    by (subst limiter_allow_eq) (simp_all add: sample_limits_ok exact_counters_def lua_exact_def,
        simp_all add: sample_limits_def)
qed


text \<open>
  C33. An admission is all or nothing: within the exact range of the script's numbers it is granted exactly
  when one more request, the estimated tokens and one more permit all fit; then the three counters grow by
  just that, and otherwise Redis is left as it was and the reason names the first limit that is exceeded.
\<close>

theorem admission_is_all_or_nothing:
  assumes "bucket \<noteq> ''''" "valid_limits lims" "exact_limits lims" "lua_exact est" "0 < whole_seconds ttl"
    and "exact_counters lmt clock now bucket r"
    and "limiter_allow lmt Answered clock now bucket lims est ttl r = (res, r')"
  shows "\<exists>d p. res = Inr (d, p)
    \<and> (dc_allowed d \<longleftrightarrow>
         counter now r (request_key lmt bucket (window_of clock)) + 1 \<le> lm_requests_per_minute lims
         \<and> counter now r (token_key lmt bucket (window_of clock)) + est \<le> lm_tokens_per_minute lims
         \<and> counter now r (concurrent_key lmt bucket) + 1 \<le> lm_max_concurrent lims)
    \<and> (if dc_allowed d
       then p = Some \<lparr>pm_key = concurrent_key lmt bucket, pm_released = False\<rparr>
         \<and> (\<forall>k. counter now r' k = counter now r k
              + (if k = request_key lmt bucket (window_of clock) then 1
                 else if k = token_key lmt bucket (window_of clock) then est
                 else if k = concurrent_key lmt bucket then 1 else 0))
       else p = None \<and> r' = r
         \<and> dc_reason d = (if lm_requests_per_minute lims < counter now r (request_key lmt bucket (window_of clock)) + 1
                          then ''requests_per_minute''
                          else if lm_tokens_per_minute lims < counter now r (token_key lmt bucket (window_of clock)) + est
                          then ''tokens_per_minute'' else ''maximum_concurrency''))"
  using assms(5,7) unfolding limiter_allow_eq [OF assms(1-6)]
  by (auto simp: admitted_def counter_bump split: if_splits) (metis decision_fields(1,2))+

theorem admission_is_all_or_nothing_witness:
  "\<exists>d. fst (limiter_allow (new_limiter '''') Answered epoch epoch ''b'' sample_limits 10 (2 * minute) (\<lambda>k. None)) = Inr d
     \<and> dc_allowed (fst d)"
proof -
  have c: "counter epoch (\<lambda>k. None) k = 0" for k by (simp add: counter_def redis_get_def)
  have "exact_counters (new_limiter '''') epoch epoch ''b'' (\<lambda>k. None)"
    by (simp add: exact_counters_def c lua_exact_def)
  from admission_is_all_or_nothing [OF _ sample_limits_ok(2,1) _ sample_limits_ok(3) this prod.collapse [symmetric], of 10]
  show ?thesis by (auto simp: c lua_exact_def) (auto simp: sample_limits_def)
qed

end
