(* ===== verification/Store.thy ===== *)
theory Store
  imports Request Auth
begin

text \<open>
  The interface \<open>persistence.Store\<close> (\<open>internal/persistence/store.go\<close>): its parameter types, the record
  \<open>store_ops\<close> of its methods over a state of the implementation's own, and its contract as two locales.
  \<open>request_store\<close> says what every implementation keeps at all times: a request only moves along allowed
  transitions, and a finished request is never touched again. \<open>reliable_store\<close> adds what the methods do
  when nothing fails and nobody interferes.
\<close>

record tenant_policy =
  tp_classification :: string
  tp_allowed :: "string set option"
  tp_requests_per_minute :: int
  tp_tokens_per_minute :: int
  tp_max_concurrent :: int
  tp_monthly_budget :: int
  tp_daily_budget :: int

record create_params =
  cre_tenant :: string
  cre_api_key :: string
  cre_user :: string
  cre_idempotency_key :: string
  cre_hash :: string
  cre_input :: chat_input
  cre_correlation :: string

record attempt_params =
  atp_request :: string
  atp_tenant :: string
  atp_number :: int
  atp_provider :: string
  atp_model :: string
  atp_correlation :: string

record completion_params =
  cmp_request :: string
  cmp_tenant :: string
  cmp_number :: int
  cmp_provider_request :: string
  cmp_response :: chat_response
  cmp_cost :: int
  cmp_started_at :: go_time
  cmp_correlation :: string

record failure_params =
  fap_request :: string
  fap_tenant :: string
  fap_number :: int
  fap_category :: string
  fap_retryable :: bool
  fap_partial :: bool
  fap_final :: bool
  fap_started_at :: go_time
  fap_correlation :: string

record 's store_ops =
  so_find_key :: "string \<Rightarrow> 's \<Rightarrow> (go_error + stored_key) \<times> 's"
  so_create :: "create_params \<Rightarrow> 's \<Rightarrow> (go_error + req_record \<times> bool) \<times> 's"
  so_get :: "string \<Rightarrow> string \<Rightarrow> 's \<Rightarrow> (go_error + req_record) \<times> 's"
  so_transition :: "string \<Rightarrow> string \<Rightarrow> req_state \<Rightarrow> req_state \<Rightarrow> 's \<Rightarrow> go_error option \<times> 's"
  so_start_attempt :: "attempt_params \<Rightarrow> 's \<Rightarrow> go_error option \<times> 's"
  so_complete :: "completion_params \<Rightarrow> 's \<Rightarrow> go_error option \<times> 's"
  so_fail_attempt :: "failure_params \<Rightarrow> 's \<Rightarrow> go_error option \<times> 's"
  so_cancel :: "string \<Rightarrow> string \<Rightarrow> string \<Rightarrow> 's \<Rightarrow> go_error option \<times> 's"
  so_policy :: "string \<Rightarrow> string \<Rightarrow> 's \<Rightarrow> (go_error + tenant_policy) \<times> 's"
  so_reserve :: "string \<Rightarrow> string \<Rightarrow> int \<Rightarrow> go_time \<Rightarrow> 's \<Rightarrow> go_error option \<times> 's"
  so_reject :: "string \<Rightarrow> string \<Rightarrow> string \<Rightarrow> int \<Rightarrow> 's \<Rightarrow> go_error option \<times> 's"
  so_reconcile :: "string \<Rightarrow> int \<Rightarrow> 's \<Rightarrow> go_error option \<times> 's"

subsection \<open>Legal evolution\<close>

definition legal_move :: "req_record \<Rightarrow> req_record \<Rightarrow> bool" where
  "legal_move r r' \<longleftrightarrow>
     rec_id r' = rec_id r \<and> rec_tenant r' = rec_tenant r \<and> rec_hash r' = rec_hash r
     \<and> rec_idempotency_key r' = rec_idempotency_key r \<and> can_transition\<^sup>*\<^sup>* (rec_state r) (rec_state r')
     \<and> (terminal (rec_state r) \<longrightarrow> r' = r)"

definition evolves :: "(string \<Rightarrow> req_record option) \<Rightarrow> (string \<Rightarrow> req_record option) \<Rightarrow> bool" where
  "evolves v v' \<longleftrightarrow> (\<forall>i r. v i = Some r \<longrightarrow> (\<exists>r'. v' i = Some r' \<and> legal_move r r'))"

lemma legal_move_refl [simp]: "legal_move r r"
  by (simp add: legal_move_def)

lemma legal_move_trans: "legal_move a b \<Longrightarrow> legal_move b c \<Longrightarrow> legal_move a c"
  by (auto simp: legal_move_def)

lemma evolves_refl [simp]: "evolves v v"
  by (simp add: evolves_def)

lemma evolves_trans [trans]: "evolves u v \<Longrightarrow> evolves v w \<Longrightarrow> evolves u w"
  unfolding evolves_def by (meson legal_move_trans)

lemma evolves_upd:
  "(\<And>r. v i = Some r \<Longrightarrow> legal_move r r') \<Longrightarrow> evolves v (v(i := Some r'))"
  by (simp add: evolves_def)

lemma legal_move_step:
  assumes "rec_id r' = rec_id r" "rec_tenant r' = rec_tenant r" "rec_hash r' = rec_hash r"
    and "rec_idempotency_key r' = rec_idempotency_key r" "can_transition (rec_state r) (rec_state r')"
  shows "legal_move r r'"
  using assms by (auto simp: legal_move_def terminal_iff_stuck)

subsection \<open>A store shared with others\<close>

text \<open>
  The store as one client sees it while others use it too: before each of the client's own operations the
  others have done whatever \<open>sh_others\<close> says.
\<close>

record 's shared =
  sh_own :: 's
  sh_others :: "nat \<Rightarrow> 's \<Rightarrow> 's"
  sh_step :: nat

definition shared_op :: "('s \<Rightarrow> 'a \<times> 's) \<Rightarrow> 's shared \<Rightarrow> 'a \<times> 's shared" where
  "shared_op f sh =
     (case f (sh_others sh (sh_step sh) (sh_own sh)) of
        (x, s') \<Rightarrow> (x, sh\<lparr>sh_own := s', sh_step := Suc (sh_step sh)\<rparr>))"

definition shared_ops :: "'s store_ops \<Rightarrow> 's shared store_ops" where
  "shared_ops so =
     \<lparr>so_find_key = (\<lambda>p. shared_op (so_find_key so p)), so_create = (\<lambda>p. shared_op (so_create so p)),
      so_get = (\<lambda>t i. shared_op (so_get so t i)), so_transition = (\<lambda>t i a b. shared_op (so_transition so t i a b)),
      so_start_attempt = (\<lambda>p. shared_op (so_start_attempt so p)), so_complete = (\<lambda>p. shared_op (so_complete so p)),
      so_fail_attempt = (\<lambda>p. shared_op (so_fail_attempt so p)), so_cancel = (\<lambda>t i c. shared_op (so_cancel so t i c)),
      so_policy = (\<lambda>t m. shared_op (so_policy so t m)), so_reserve = (\<lambda>t i n now. shared_op (so_reserve so t i n now)),
      so_reject = (\<lambda>t i c n. shared_op (so_reject so t i c n)), so_reconcile = (\<lambda>i n. shared_op (so_reconcile so i n))\<rparr>"

text \<open>The others keep the rules too.\<close>

definition shared_inv :: "('s \<Rightarrow> bool) \<Rightarrow> ('s \<Rightarrow> string \<Rightarrow> req_record option) \<Rightarrow> 's shared \<Rightarrow> bool" where
  "shared_inv ok view sh \<longleftrightarrow>
     ok (sh_own sh)
     \<and> (\<forall>k s. ok s \<longrightarrow> ok (sh_others sh k s) \<and> evolves (view s) (view (sh_others sh k s)))"

lemma shared_op_safe:
  assumes "shared_inv ok view sh"
    and "\<And>s. ok s \<Longrightarrow> evolves (view (sh_own sh)) (view s) \<Longrightarrow> ok (snd (f s)) \<and> evolves (view s) (view (snd (f s)))"
  shows "shared_inv ok view (snd (shared_op f sh))
    \<and> evolves (view (sh_own sh)) (view (sh_own (snd (shared_op f sh))))"
proof -
  let ?s = "sh_others sh (sh_step sh) (sh_own sh)"
  have s: "ok ?s" "evolves (view (sh_own sh)) (view ?s)" using assms(1) by (auto simp: shared_inv_def)
  have "ok (snd (f ?s))" "evolves (view ?s) (view (snd (f ?s)))" using assms(2) [OF s] by auto
  then show ?thesis
    using assms(1) evolves_trans [OF s(2)] by (auto simp: shared_op_def shared_inv_def split: prod.splits)
qed

subsection \<open>The contract\<close>

locale request_store =
  fixes so :: "'s store_ops"
    and inv :: "'s \<Rightarrow> bool"
    and view :: "'s \<Rightarrow> string \<Rightarrow> req_record option"
  assumes create_safe: "inv s \<Longrightarrow> inv (snd (so_create so p s)) \<and> evolves (view s) (view (snd (so_create so p s)))"
    and transition_safe: "inv s \<Longrightarrow>
      inv (snd (so_transition so t i a b s)) \<and> evolves (view s) (view (snd (so_transition so t i a b s)))"
    and start_attempt_safe: "inv s \<Longrightarrow>
      inv (snd (so_start_attempt so ap s)) \<and> evolves (view s) (view (snd (so_start_attempt so ap s)))"
    and complete_safe: "inv s \<Longrightarrow> inv (snd (so_complete so cp s)) \<and> evolves (view s) (view (snd (so_complete so cp s)))"
    and fail_attempt_safe: "inv s \<Longrightarrow>
      inv (snd (so_fail_attempt so fp s)) \<and> evolves (view s) (view (snd (so_fail_attempt so fp s)))"
    and cancel_safe: "inv s \<Longrightarrow> inv (snd (so_cancel so t i c s)) \<and> evolves (view s) (view (snd (so_cancel so t i c s)))"
    and get_safe: "inv s \<Longrightarrow> inv (snd (so_get so t i s)) \<and> evolves (view s) (view (snd (so_get so t i s)))"
    and policy_safe: "inv s \<Longrightarrow> inv (snd (so_policy so t m s)) \<and> evolves (view s) (view (snd (so_policy so t m s)))"
    and create_known: "inv s \<Longrightarrow> so_create so p s = (Inr (r, fresh), s') \<Longrightarrow> view s' (rec_id r) \<noteq> None"
    and reserve_safe: "inv s \<Longrightarrow> view s i \<noteq> None \<Longrightarrow>
      inv (snd (so_reserve so t i n now s)) \<and> evolves (view s) (view (snd (so_reserve so t i n now s)))"
    and reject_safe: "inv s \<Longrightarrow> inv (snd (so_reject so t i c n s)) \<and> evolves (view s) (view (snd (so_reject so t i c n s)))"
    and reconcile_safe: "inv s \<Longrightarrow> inv (snd (so_reconcile so i n s)) \<and> evolves (view s) (view (snd (so_reconcile so i n s)))"
begin

lemmas safe_ops = create_safe transition_safe start_attempt_safe complete_safe fail_attempt_safe cancel_safe
  get_safe policy_safe reject_safe reconcile_safe

text \<open>What a client may do to the store between two of its own states.\<close>

definition follows :: "'s \<Rightarrow> 's \<Rightarrow> bool" where
  "follows s s' \<longleftrightarrow> (inv s \<longrightarrow> inv s' \<and> evolves (view s) (view s'))"

lemma follows_refl [simp]: "follows s s"
  by (simp add: follows_def)

lemma follows_trans [trans]: "follows a b \<Longrightarrow> follows b c \<Longrightarrow> follows a c"
  by (auto simp: follows_def intro: evolves_trans)

lemma follows_ops:
  "follows s (snd (so_create so p s))" "follows s (snd (so_transition so t i a b s))"
  "follows s (snd (so_start_attempt so ap s))" "follows s (snd (so_complete so cp s))"
  "follows s (snd (so_fail_attempt so fp s))" "follows s (snd (so_cancel so t i c s))"
  "follows s (snd (so_policy so t m s))" "follows s (snd (so_reject so t i c n s))"
  "follows s (snd (so_reconcile so i n s))" "follows s (snd (so_get so t i s))"
  by (simp_all add: follows_def safe_ops)

lemma follows_reserve: "view s i \<noteq> None \<Longrightarrow> follows s (snd (so_reserve so t i n now s))"
  by (simp add: follows_def reserve_safe)

lemma follows_known: "follows s s' \<Longrightarrow> inv s \<Longrightarrow> view s i \<noteq> None \<Longrightarrow> view s' i \<noteq> None"
  by (fastforce simp: follows_def evolves_def)

lemma finished_unchanged:
  "follows s s' \<Longrightarrow> inv s \<Longrightarrow> view s i = Some r \<Longrightarrow> terminal (rec_state r) \<Longrightarrow> view s' i = Some r"
  by (fastforce simp: follows_def evolves_def legal_move_def)

text \<open>Every operation of the store is something the others may do, and a shared store keeps the contract.\<close>

lemma evolves_known: "evolves (view s) (view s') \<Longrightarrow> view s i \<noteq> None \<Longrightarrow> view s' i \<noteq> None"
  by (fastforce simp: evolves_def)

lemma shared_store: "request_store (shared_ops so) (shared_inv inv view) (\<lambda>sh. view (sh_own sh))"
proof
  fix s :: "'s shared" and p r fresh s'
  assume inv: "shared_inv inv view s" and c: "so_create (shared_ops so) p s = (Inr (r, fresh), s')"
  have "inv (sh_others s (sh_step s) (sh_own s))" using inv by (simp add: shared_inv_def)
  moreover have "so_create so p (sh_others s (sh_step s) (sh_own s)) = (Inr (r, fresh), sh_own s')"
    using c by (auto simp: shared_ops_def shared_op_def split: prod.splits)
  ultimately show "view (sh_own s') (rec_id r) \<noteq> None" by (rule create_known)
next
  fix s :: "'s shared" and t i n now
  assume "shared_inv inv view s" "view (sh_own s) i \<noteq> None"
  then show "shared_inv inv view (snd (so_reserve (shared_ops so) t i n now s))
      \<and> evolves (view (sh_own s)) (view (sh_own (snd (so_reserve (shared_ops so) t i n now s))))"
    using evolves_known reserve_safe by (simp add: shared_ops_def shared_op_safe)
qed (simp_all add: shared_ops_def shared_op_safe safe_ops)

end

text \<open>
  What makes retries safe: a new record carries the parameters it was created with, a completed one the
  response, and creating a finished request again finds its record. \<open>copy\<close> is what the store does to a
  response it hands out.
\<close>

locale idempotent_store = request_store so inv view
  for so :: "'s store_ops" and inv :: "'s \<Rightarrow> bool" and view :: "'s \<Rightarrow> string \<Rightarrow> req_record option" +
  fixes copy :: "chat_response \<Rightarrow> chat_response"
  assumes create_sets: "inv s \<Longrightarrow> so_create so p s = (Inr (r, True), s') \<Longrightarrow>
      view s' (rec_id r) = Some r \<and> rec_tenant r = cre_tenant p \<and> rec_idempotency_key r = cre_idempotency_key p
      \<and> rec_hash r = cre_hash p"
    and complete_sets: "inv s \<Longrightarrow> so_complete so cp s = (None, s') \<Longrightarrow>
      \<exists>r. view s' (cmp_request cp) = Some r \<and> rec_state r = Completed \<and> rec_response r = Some (cmp_response cp)"
    and create_finds: "inv s \<Longrightarrow> view s i = Some r \<Longrightarrow> terminal (rec_state r) \<Longrightarrow> rec_tenant r = cre_tenant p \<Longrightarrow>
      rec_idempotency_key r = cre_idempotency_key p \<Longrightarrow> rec_hash r = cre_hash p \<Longrightarrow>
      \<exists>r' s'. so_create so p s = (Inr (r', False), s') \<and> rec_id r' = rec_id r \<and> rec_state r' = rec_state r
        \<and> rec_response r' = map_option copy (rec_response r)"
begin

lemma shared_idempotent: "idempotent_store (shared_ops so) (shared_inv inv view) (\<lambda>sh. view (sh_own sh)) copy"
proof (intro idempotent_store.intro shared_store idempotent_store_axioms.intro)
  fix s :: "'s shared" and p r s'
  assume inv: "shared_inv inv view s" and c: "so_create (shared_ops so) p s = (Inr (r, True), s')"
  have "inv (sh_others s (sh_step s) (sh_own s))" using inv by (simp add: shared_inv_def)
  moreover have "so_create so p (sh_others s (sh_step s) (sh_own s)) = (Inr (r, True), sh_own s')"
    using c by (auto simp: shared_ops_def shared_op_def split: prod.splits)
  ultimately show "view (sh_own s') (rec_id r) = Some r \<and> rec_tenant r = cre_tenant p
      \<and> rec_idempotency_key r = cre_idempotency_key p \<and> rec_hash r = cre_hash p" by (rule create_sets)
next
  fix s :: "'s shared" and cp :: completion_params and s'
  assume inv: "shared_inv inv view s" and c: "so_complete (shared_ops so) cp s = (None, s')"
  have "inv (sh_others s (sh_step s) (sh_own s))" using inv by (simp add: shared_inv_def)
  moreover have "so_complete so cp (sh_others s (sh_step s) (sh_own s)) = (None, sh_own s')"
    using c by (auto simp: shared_ops_def shared_op_def split: prod.splits)
  ultimately show "\<exists>r. view (sh_own s') (cmp_request cp) = Some r \<and> rec_state r = Completed
      \<and> rec_response r = Some (cmp_response cp)" by (rule complete_sets)
next
  fix s :: "'s shared" and i and r :: req_record and p :: create_params
  assume inv: "shared_inv inv view s" and r: "view (sh_own s) i = Some r" "terminal (rec_state r)"
    and p: "rec_tenant r = cre_tenant p" "rec_idempotency_key r = cre_idempotency_key p" "rec_hash r = cre_hash p"
  let ?s = "sh_others s (sh_step s) (sh_own s)"
  have "inv ?s" "evolves (view (sh_own s)) (view ?s)" using inv by (auto simp: shared_inv_def)
  moreover have "view ?s i = Some r" using calculation(2) r by (fastforce simp: evolves_def legal_move_def)
  ultimately show "\<exists>r' s'. so_create (shared_ops so) p s = (Inr (r', False), s') \<and> rec_id r' = rec_id r
      \<and> rec_state r' = rec_state r \<and> rec_response r' = map_option copy (rec_response r)"
    using create_finds [of ?s i r p] r(2) p by (fastforce simp: shared_ops_def shared_op_def)
qed

end

text \<open>
  \<open>reserved\<close> are the active reservations, \<open>spent\<close> what a tenant was charged, \<open>started\<close> the attempts of a
  request, \<open>granted\<close> the policy of a tenant for a model.
\<close>

locale reliable_store = request_store so inv view
  for so :: "'s store_ops" and inv :: "'s \<Rightarrow> bool" and view :: "'s \<Rightarrow> string \<Rightarrow> req_record option" +
  fixes reserved :: "'s \<Rightarrow> string \<Rightarrow> int option"
    and spent :: "'s \<Rightarrow> string \<Rightarrow> int"
    and started :: "'s \<Rightarrow> string \<Rightarrow> int set"
    and granted :: "'s \<Rightarrow> string \<Rightarrow> string \<Rightarrow> go_error + tenant_policy"
  assumes create_new: "inv s \<Longrightarrow> so_create so p s = (Inr (r, True), s') \<Longrightarrow>
      view s (rec_id r) = None \<and> view s' = (view s)(rec_id r := Some r) \<and> rec_tenant r = cre_tenant p
      \<and> rec_state r = Received \<and> reserved s' = reserved s \<and> reserved s (rec_id r) = None
      \<and> spent s' = spent s \<and> started s' = started s \<and> started s (rec_id r) = {} \<and> granted s' = granted s"
    and create_old: "inv s \<Longrightarrow> so_create so p s = (x, s') \<Longrightarrow> \<forall>r. x \<noteq> Inr (r, True) \<Longrightarrow>
      view s' = view s \<and> reserved s' = reserved s \<and> spent s' = spent s \<and> started s' = started s"
    and transition_ok: "inv s \<Longrightarrow> view s i = Some r \<Longrightarrow> rec_tenant r = t \<Longrightarrow> rec_state r = a \<Longrightarrow>
      can_transition a b \<Longrightarrow> \<exists>r' s'. so_transition so t i a b s = (None, s') \<and> view s' = (view s)(i := Some r')
      \<and> rec_tenant r' = t \<and> rec_state r' = b \<and> reserved s' = reserved s \<and> spent s' = spent s \<and> started s' = started s
      \<and> granted s' = granted s"
    and policy_pure: "inv s \<Longrightarrow> fst (so_policy so t m s) = granted s t m \<and> view (snd (so_policy so t m s)) = view s
      \<and> reserved (snd (so_policy so t m s)) = reserved s \<and> spent (snd (so_policy so t m s)) = spent s
      \<and> started (snd (so_policy so t m s)) = started s"
    and start_ok: "inv s \<Longrightarrow> view s (atp_request ap) = Some r \<Longrightarrow> rec_tenant r = atp_tenant ap \<Longrightarrow>
      atp_number ap \<notin> started s (atp_request ap) \<Longrightarrow>
      \<exists>s'. so_start_attempt so ap s = (None, s') \<and> view s' = view s \<and> reserved s' = reserved s \<and> spent s' = spent s
      \<and> started s' = (started s)(atp_request ap := insert (atp_number ap) (started s (atp_request ap)))"
    and complete_ok: "inv s \<Longrightarrow> view s (cmp_request cp) = Some r \<Longrightarrow> rec_tenant r = cmp_tenant cp \<Longrightarrow>
      rec_state r = InProgress \<Longrightarrow> cmp_number cp \<in> started s (cmp_request cp) \<Longrightarrow>
      \<exists>r' s'. so_complete so cp s = (None, s') \<and> view s' = (view s)(cmp_request cp := Some r')
      \<and> rec_state r' = Completed \<and> rec_response r' = Some (cmp_response cp) \<and> rec_cost r' = cmp_cost cp
      \<and> rec_tenant r' = rec_tenant r \<and> reserved s' = reserved s \<and> spent s' = spent s \<and> started s' = started s"
    and fail_ok: "inv s \<Longrightarrow> view s (fap_request fp) = Some r \<Longrightarrow> rec_tenant r = fap_tenant fp \<Longrightarrow>
      rec_state r = InProgress \<Longrightarrow>
      \<exists>s'. so_fail_attempt so fp s = (None, s') \<and> reserved s' = reserved s \<and> spent s' = spent s \<and> started s' = started s
      \<and> (if fap_final fp
         then \<exists>r'. view s' = (view s)(fap_request fp := Some r') \<and> rec_state r' = Failed
                \<and> rec_failure r' = fap_category fp \<and> rec_partial r' = fap_partial fp \<and> rec_tenant r' = rec_tenant r
         else view s' = view s)"
    and reserve_cases: "inv s \<Longrightarrow> so_reserve so t i n now s = (e, s') \<Longrightarrow>
      view s' = view s \<and> spent s' = spent s \<and> started s' = started s
      \<and> reserved s' = (if e = None then (reserved s)(i := Some n) else reserved s)"
    and reject_ok: "inv s \<Longrightarrow> view s i = Some r \<Longrightarrow> rec_tenant r = t \<Longrightarrow> rec_state r = Validated \<Longrightarrow>
      \<exists>r' s'. so_reject so t i c n s = (None, s') \<and> view s' = (view s)(i := Some r') \<and> rec_state r' = BudgetRejected
      \<and> rec_tenant r' = t \<and> reserved s' = reserved s \<and> spent s' = spent s \<and> started s' = started s"
    and reconcile_ok: "inv s \<Longrightarrow> view s i = Some r \<Longrightarrow>
      \<exists>s'. so_reconcile so i n s = (None, s') \<and> view s' = view s \<and> reserved s' = (reserved s)(i := None)
      \<and> spent s' = (spent s)(rec_tenant r := i64 (spent s (rec_tenant r) + n)) \<and> started s' = started s"

end
