(* ===== verification/Memory_Store.thy ===== *)
theory Memory_Store
  imports Store Budget
begin

text \<open>
  The in-memory implementation of the store (\<open>internal/persistence/memory.go\<close>). Its mutex makes every
  method atomic, so a method is a function on the record \<open>memory\<close>. Go maps are partial functions, except
  the reservations, which \<open>sumMap\<close> iterates over and which are an association list. The time of a method
  and the bytes of \<open>randomID\<close> are arguments; \<open>clone\<close> is the JSON round trip that \<open>cloneRecord\<close> sends a
  response through.
\<close>

record memory_attempt =
  ma_params :: attempt_params
  ma_final :: bool

record memory =
  mem_keys :: "string \<Rightarrow> stored_key option"
  mem_requests :: "string \<Rightarrow> req_record option"
  mem_idempotency :: "string \<Rightarrow> string option"
  mem_attempts :: "string \<Rightarrow> (int \<Rightarrow> memory_attempt option) option"
  mem_policies :: "string \<Rightarrow> tenant_policy option"
  mem_reservations :: "(string \<times> int) list"
  mem_used :: "string \<Rightarrow> int"

definition new_memory :: memory where
  "new_memory = \<lparr>mem_keys = (\<lambda>k. None), mem_requests = (\<lambda>k. None), mem_idempotency = (\<lambda>k. None),
     mem_attempts = (\<lambda>k. None), mem_policies = (\<lambda>k. None), mem_reservations = [], mem_used = (\<lambda>k. 0)\<rparr>"

definition add_api_key :: "stored_key \<Rightarrow> memory \<Rightarrow> memory" where
  "add_api_key key m = m\<lparr>mem_keys := (mem_keys m)(sk_prefix key := Some key)\<rparr>"

definition set_tenant_policy :: "string \<Rightarrow> tenant_policy \<Rightarrow> memory \<Rightarrow> memory" where
  "set_tenant_policy tenant policy m = m\<lparr>mem_policies := (mem_policies m)(tenant := Some policy)\<rparr>"

definition find_api_key :: "string \<Rightarrow> memory \<Rightarrow> go_error + stored_key" where
  "find_api_key prefix m = (case mem_keys m prefix of None \<Rightarrow> Inl ErrNotFound | Some key \<Rightarrow> Inr key)"

definition zero_record :: req_record where
  "zero_record = \<lparr>rec_id = '''', rec_tenant = '''', rec_api_key = '''', rec_idempotency_key = '''', rec_hash = '''',
     rec_model = '''', rec_state = Received, rec_stream = False, rec_partial = False, rec_response = None,
     rec_failure = '''', rec_correlation = '''', rec_created_at = 0, rec_updated_at = 0, rec_completed_at = None,
     rec_prompt_tokens = 0, rec_completion_tokens = 0, rec_cost = 0\<rparr>"

definition clone_record :: "(chat_response \<Rightarrow> chat_response) \<Rightarrow> req_record \<Rightarrow> req_record" where
  "clone_record clone r = r\<lparr>rec_response := map_option clone (rec_response r)\<rparr>"

definition random_id :: "string \<Rightarrow> string" where
  "random_id bytes = hex_encode bytes"

definition idempotency_key :: "string \<Rightarrow> string \<Rightarrow> string" where
  "idempotency_key tenant key = tenant @ [CHR 0x00] @ key"

definition create_or_get_request ::
  "(chat_response \<Rightarrow> chat_response) \<Rightarrow> go_time \<Rightarrow> string \<Rightarrow> create_params \<Rightarrow> memory
     \<Rightarrow> (go_error + req_record \<times> bool) \<times> memory" where
  "create_or_get_request clone now bytes params m =
     (let ikey = idempotency_key (cre_tenant params) (cre_idempotency_key params) in
      case mem_idempotency m ikey of
        Some existing_id \<Rightarrow>
          let existing = (case mem_requests m existing_id of None \<Rightarrow> zero_record | Some r \<Rightarrow> r) in
          if rec_hash existing \<noteq> cre_hash params then (Inl ErrConflict, m)
          else (Inr (clone_record clone existing, False), m)
      | None \<Rightarrow>
          let r = \<lparr>rec_id = random_id bytes, rec_tenant = cre_tenant params, rec_api_key = cre_api_key params,
                   rec_idempotency_key = cre_idempotency_key params, rec_hash = cre_hash params,
                   rec_model = ci_model (cre_input params), rec_state = Received,
                   rec_stream = ci_stream (cre_input params), rec_partial = False, rec_response = None,
                   rec_failure = '''', rec_correlation = cre_correlation params, rec_created_at = now,
                   rec_updated_at = now, rec_completed_at = None, rec_prompt_tokens = 0,
                   rec_completion_tokens = 0, rec_cost = 0\<rparr>
          in (Inr (clone_record clone r, True),
              m\<lparr>mem_requests := (mem_requests m)(rec_id r := Some r),
                mem_idempotency := (mem_idempotency m)(ikey := Some (rec_id r))\<rparr>))"

definition find_request :: "string \<Rightarrow> string \<Rightarrow> memory \<Rightarrow> req_record option" where
  "find_request tenant i m =
     (case mem_requests m i of
        None \<Rightarrow> None
      | Some r \<Rightarrow> if rec_tenant r \<noteq> tenant then None else Some r)"

definition get_request ::
  "(chat_response \<Rightarrow> chat_response) \<Rightarrow> string \<Rightarrow> string \<Rightarrow> memory \<Rightarrow> go_error + req_record" where
  "get_request clone tenant i m =
     (case find_request tenant i m of None \<Rightarrow> Inl ErrNotFound | Some r \<Rightarrow> Inr (clone_record clone r))"

definition put_request :: "string \<Rightarrow> req_record \<Rightarrow> memory \<Rightarrow> memory" where
  "put_request i r m = m\<lparr>mem_requests := (mem_requests m)(i := Some r)\<rparr>"

definition transition_request ::
  "go_time \<Rightarrow> string \<Rightarrow> string \<Rightarrow> req_state \<Rightarrow> req_state \<Rightarrow> memory \<Rightarrow> go_error option \<times> memory" where
  "transition_request now tenant i a b m =
     (case find_request tenant i m of
        None \<Rightarrow> (Some ErrNotFound, m)
      | Some r \<Rightarrow>
          if rec_state r \<noteq> a then (Some (ErrWrap (''expected '' @ state_text a) ErrAlreadyFinal), m)
          else case transition a b of
            Some e \<Rightarrow> (Some e, m)
          | None \<Rightarrow> (None, put_request i (r\<lparr>rec_state := b, rec_updated_at := now\<rparr>) m))"

definition start_attempt :: "attempt_params \<Rightarrow> memory \<Rightarrow> go_error option \<times> memory" where
  "start_attempt params m =
     (case find_request (atp_tenant params) (atp_request params) m of
        None \<Rightarrow> (Some ErrNotFound, m)
      | Some r \<Rightarrow>
          let tries = (case mem_attempts m (atp_request params) of None \<Rightarrow> (\<lambda>n. None) | Some t \<Rightarrow> t);
              m' = m\<lparr>mem_attempts := (mem_attempts m)(atp_request params := Some tries)\<rparr>
          in case tries (atp_number params) of
               Some a \<Rightarrow> (Some ErrConflict, m')
             | None \<Rightarrow>
                 (None, m\<lparr>mem_attempts := (mem_attempts m)(atp_request params :=
                    Some (tries(atp_number params := Some \<lparr>ma_params = params, ma_final = False\<rparr>)))\<rparr>))"

definition zero_attempt :: memory_attempt where
  "zero_attempt = \<lparr>ma_params = \<lparr>atp_request = '''', atp_tenant = '''', atp_number = 0, atp_provider = '''',
     atp_model = '''', atp_correlation = ''''\<rparr>, ma_final = False\<rparr>"

text \<open>The final assignment panics when no attempt of the request was started: its map is nil.\<close>

definition complete_request :: "go_time \<Rightarrow> completion_params \<Rightarrow> memory \<Rightarrow> go_error option \<times> memory" where
  "complete_request now params m =
     (case find_request (cmp_tenant params) (cmp_request params) m of
        None \<Rightarrow> (Some ErrNotFound, m)
      | Some r \<Rightarrow>
          if rec_state r \<noteq> InProgress then (Some ErrAlreadyFinal, m)
          else
            let r' = r\<lparr>rec_state := Completed, rec_response := Some (cmp_response params),
                       rec_completed_at := Some now, rec_updated_at := now,
                       rec_prompt_tokens := prompt_tokens (cr_usage (cmp_response params)),
                       rec_completion_tokens := completion_tokens (cr_usage (cmp_response params)),
                       rec_cost := cmp_cost params\<rparr>;
                m' = put_request (rec_id r) r' m
            in case mem_attempts m (cmp_request params) of
                 None \<Rightarrow> (Some (GoPanic ''assignment to entry in nil map''), m')
               | Some tries \<Rightarrow>
                   let attempt = (case tries (cmp_number params) of None \<Rightarrow> zero_attempt | Some a \<Rightarrow> a)
                   in (None, m'\<lparr>mem_attempts := (mem_attempts m')(cmp_request params :=
                         Some (tries(cmp_number params := Some (attempt\<lparr>ma_final := True\<rparr>))))\<rparr>))"

definition fail_attempt :: "go_time \<Rightarrow> failure_params \<Rightarrow> memory \<Rightarrow> go_error option \<times> memory" where
  "fail_attempt now params m =
     (case find_request (fap_tenant params) (fap_request params) m of
        None \<Rightarrow> (Some ErrNotFound, m)
      | Some r \<Rightarrow>
          if fap_final params then
            if rec_state r \<noteq> InProgress then (Some ErrAlreadyFinal, m)
            else (None, put_request (rec_id r)
                    (r\<lparr>rec_state := Failed, rec_failure := fap_category params, rec_partial := fap_partial params,
                      rec_completed_at := Some now, rec_updated_at := now\<rparr>) m)
          else (None, m))"

definition cancel_request :: "go_time \<Rightarrow> string \<Rightarrow> string \<Rightarrow> memory \<Rightarrow> go_error option \<times> memory" where
  "cancel_request now tenant i m =
     (case find_request tenant i m of
        None \<Rightarrow> (Some ErrNotFound, m)
      | Some r \<Rightarrow>
          if rec_state r = Completed \<or> rec_state r = Failed \<or> rec_state r = Cancelled \<or> rec_state r = BudgetRejected
          then (Some ErrAlreadyFinal, m)
          else (None, put_request i (r\<lparr>rec_state := Cancelled, rec_completed_at := Some now, rec_updated_at := now\<rparr>) m))"

definition memory_policy :: "string \<Rightarrow> memory \<Rightarrow> go_error + tenant_policy" where
  "memory_policy tenant m = (case mem_policies m tenant of None \<Rightarrow> Inl ErrModelForbidden | Some p \<Rightarrow> Inr p)"

fun sum_map :: "(string \<times> int) list \<Rightarrow> (string \<Rightarrow> req_record option) \<Rightarrow> string \<Rightarrow> int" where
  "sum_map [] requests tenant = 0"
| "sum_map ((i, amount) # rest) requests tenant =
     (let r = (case requests i of None \<Rightarrow> zero_record | Some r \<Rightarrow> r)
      in if rec_tenant r = tenant then i64 (amount + sum_map rest requests tenant) else sum_map rest requests tenant)"

definition reserve_budget :: "string \<Rightarrow> string \<Rightarrow> int \<Rightarrow> memory \<Rightarrow> go_error option \<times> memory" where
  "reserve_budget tenant i amount m =
     (case mem_policies m tenant of
        None \<Rightarrow> (Some ErrNotFound, m)
      | Some policy \<Rightarrow>
          (case can_reserve (tp_monthly_budget policy) (mem_used m tenant)
                  (sum_map (mem_reservations m) (mem_requests m) tenant) amount of
             Some e \<Rightarrow> (Some e, m)
           | None \<Rightarrow> (None, m\<lparr>mem_reservations := AList.update i amount (mem_reservations m)\<rparr>)))"

definition reject_budget :: "go_time \<Rightarrow> string \<Rightarrow> string \<Rightarrow> memory \<Rightarrow> go_error option \<times> memory" where
  "reject_budget now tenant i m = transition_request now tenant i Validated BudgetRejected m"

definition reconcile_budget :: "string \<Rightarrow> int \<Rightarrow> memory \<Rightarrow> go_error option \<times> memory" where
  "reconcile_budget i actual m =
     (case mem_requests m i of
        None \<Rightarrow> (Some ErrNotFound, m)
      | Some r \<Rightarrow>
          (None, m\<lparr>mem_reservations := AList.delete i (mem_reservations m),
                   mem_used := (mem_used m)(rec_tenant r := i64 (mem_used m (rec_tenant r) + actual))\<rparr>))"

subsection \<open>The store interface\<close>

text \<open>
  The state behind the interface: the maps, what the clock and the random source will deliver, and how many
  calls were made. The bytes of different calls give different identifiers.
\<close>

record mem_state =
  ms_memory :: memory
  ms_clock :: "nat \<Rightarrow> go_time"
  ms_random :: "nat \<Rightarrow> string"
  ms_step :: nat

definition mem_op :: "(go_time \<Rightarrow> string \<Rightarrow> memory \<Rightarrow> 'a \<times> memory) \<Rightarrow> mem_state \<Rightarrow> 'a \<times> mem_state" where
  "mem_op f ms =
     (case f (ms_clock ms (ms_step ms)) (ms_random ms (ms_step ms)) (ms_memory ms) of
        (res, m') \<Rightarrow> (res, ms\<lparr>ms_memory := m', ms_step := Suc (ms_step ms)\<rparr>))"

definition memory_ops :: "(chat_response \<Rightarrow> chat_response) \<Rightarrow> mem_state store_ops" where
  "memory_ops clone =
     \<lparr>so_find_key = (\<lambda>p. mem_op (\<lambda>now b m. (find_api_key p m, m))),
      so_create = (\<lambda>p. mem_op (\<lambda>now b. create_or_get_request clone now b p)),
      so_get = (\<lambda>t i. mem_op (\<lambda>now b m. (get_request clone t i m, m))),
      so_transition = (\<lambda>t i x y. mem_op (\<lambda>now b. transition_request now t i x y)),
      so_start_attempt = (\<lambda>p. mem_op (\<lambda>now b. start_attempt p)),
      so_complete = (\<lambda>p. mem_op (\<lambda>now b. complete_request now p)),
      so_fail_attempt = (\<lambda>p. mem_op (\<lambda>now b. fail_attempt now p)),
      so_cancel = (\<lambda>t i c. mem_op (\<lambda>now b. cancel_request now t i)),
      so_policy = (\<lambda>t model. mem_op (\<lambda>now b m. (memory_policy t m, m))),
      so_reserve = (\<lambda>t i n time. mem_op (\<lambda>now b. reserve_budget t i n)),
      so_reject = (\<lambda>t i c n. mem_op (\<lambda>now b. reject_budget now t i)),
      so_reconcile = (\<lambda>i n. mem_op (\<lambda>now b. reconcile_budget i n))\<rparr>"

definition mem_view :: "mem_state \<Rightarrow> string \<Rightarrow> req_record option" where
  "mem_view ms = mem_requests (ms_memory ms)"

definition mem_reserved :: "mem_state \<Rightarrow> string \<Rightarrow> int option" where
  "mem_reserved ms = map_of (mem_reservations (ms_memory ms))"

definition mem_spent :: "mem_state \<Rightarrow> string \<Rightarrow> int" where
  "mem_spent ms = mem_used (ms_memory ms)"

definition mem_started :: "mem_state \<Rightarrow> string \<Rightarrow> int set" where
  "mem_started ms i = (case mem_attempts (ms_memory ms) i of None \<Rightarrow> {} | Some t \<Rightarrow> {n. t n \<noteq> None})"

definition mem_granted :: "mem_state \<Rightarrow> string \<Rightarrow> string \<Rightarrow> go_error + tenant_policy" where
  "mem_granted ms tenant model = memory_policy tenant (ms_memory ms)"

subsection \<open>Invariant\<close>

definition mem_wf :: "memory \<Rightarrow> bool" where
  "mem_wf m \<longleftrightarrow>
     (\<forall>i r. mem_requests m i = Some r \<longrightarrow>
        rec_id r = i \<and> mem_idempotency m (idempotency_key (rec_tenant r) (rec_idempotency_key r)) = Some i)
     \<and> (\<forall>k i. mem_idempotency m k = Some i \<longrightarrow>
          (\<exists>r. mem_requests m i = Some r \<and> k = idempotency_key (rec_tenant r) (rec_idempotency_key r)))
     \<and> (\<forall>i \<in> fst ` set (mem_reservations m). mem_requests m i \<noteq> None)
     \<and> (\<forall>i. mem_attempts m i \<noteq> None \<longrightarrow> mem_requests m i \<noteq> None)
     \<and> distinct (map fst (mem_reservations m))"

definition mem_inv :: "mem_state \<Rightarrow> bool" where
  "mem_inv ms \<longleftrightarrow>
     mem_wf (ms_memory ms)
     \<and> (\<forall>n \<ge> ms_step ms. mem_requests (ms_memory ms) (random_id (ms_random ms n)) = None)
     \<and> inj_on (\<lambda>n. random_id (ms_random ms n)) {ms_step ms..}"

lemma find_request_Some: "find_request t i m = Some r \<longleftrightarrow> mem_requests m i = Some r \<and> rec_tenant r = t"
  by (auto simp: find_request_def split: option.splits)

lemma mem_wfD:
  assumes "mem_wf m" "mem_requests m i = Some r"
  shows "rec_id r = i" "mem_idempotency m (idempotency_key (rec_tenant r) (rec_idempotency_key r)) = Some i"
  using assms by (auto simp: mem_wf_def)

text \<open>A method other than the creation changes one record at most, by a legal move.\<close>

definition keeps :: "memory \<Rightarrow> memory \<Rightarrow> bool" where
  "keeps m m' \<longleftrightarrow> mem_wf m' \<and> dom (mem_requests m') = dom (mem_requests m) \<and> evolves (mem_requests m) (mem_requests m')"

lemma keeps_refl: "mem_wf m \<Longrightarrow> keeps m m"
  by (simp add: keeps_def)

lemma keeps_put:
  assumes "mem_wf m" "mem_requests m i = Some r" "legal_move r r'"
  shows "keeps m (put_request i r' m)"
proof -
  have id: "rec_id r' = i" "rec_tenant r' = rec_tenant r" "rec_idempotency_key r' = rec_idempotency_key r"
    using assms mem_wfD [OF assms(1,2)] by (auto simp: legal_move_def)
  have "mem_wf (put_request i r' m)"
    using assms(1) id mem_wfD(2) [OF assms(1,2)] assms(2)
    by (auto simp: mem_wf_def put_request_def) (metis option.inject)+
  moreover have "evolves (mem_requests m) (mem_requests (put_request i r' m))"
    using assms(2,3) by (auto simp: put_request_def intro: evolves_upd)
  ultimately show ?thesis using assms(2) by (auto simp: keeps_def put_request_def)
qed

lemma transition_request_keeps: "mem_wf m \<Longrightarrow> keeps m (snd (transition_request now t i a b m))"
  by (auto simp: transition_request_def find_request_Some keeps_refl split: option.splits
      intro!: keeps_put legal_move_step)

lemma fail_attempt_keeps: "mem_wf m \<Longrightarrow> keeps m (snd (fail_attempt now p m))"
  by (auto simp: fail_attempt_def find_request_Some keeps_refl mem_wfD(1) split: option.splits
      intro!: keeps_put legal_move_step)

lemma cancel_request_keeps: "mem_wf m \<Longrightarrow> keeps m (snd (cancel_request now t i m))"
proof -
  assume wf: "mem_wf m"
  have "can_transition s Cancelled" if "s \<noteq> Completed" "s \<noteq> Failed" "s \<noteq> Cancelled" "s \<noteq> BudgetRejected" for s
    using that by (cases s) auto
  then show ?thesis using wf
    by (auto simp: cancel_request_def find_request_Some keeps_refl split: option.splits
        intro!: keeps_put legal_move_step)
qed

lemma keeps_attempts:
  "mem_wf m \<Longrightarrow> mem_requests m i \<noteq> None \<Longrightarrow> keeps m (m\<lparr>mem_attempts := (mem_attempts m)(i := Some t)\<rparr>)"
  by (auto simp: keeps_def mem_wf_def)

lemma keeps_trans: "keeps a b \<Longrightarrow> keeps b c \<Longrightarrow> keeps a c"
  by (auto simp: keeps_def intro: evolves_trans)

lemma start_attempt_keeps: "mem_wf m \<Longrightarrow> keeps m (snd (start_attempt p m))"
  by (auto simp: start_attempt_def find_request_Some keeps_refl Let_def split: option.splits intro!: keeps_attempts)

lemma complete_request_keeps: "mem_wf m \<Longrightarrow> keeps m (snd (complete_request now p m))"
proof (cases "find_request (cmp_tenant p) (cmp_request p) m")
  case (Some r)
  assume wf: "mem_wf m"
  have r: "mem_requests m (cmp_request p) = Some r" using Some by (simp add: find_request_Some)
  define r' where "r' = r\<lparr>rec_state := Completed, rec_response := Some (cmp_response p),
      rec_completed_at := Some now, rec_updated_at := now,
      rec_prompt_tokens := prompt_tokens (cr_usage (cmp_response p)),
      rec_completion_tokens := completion_tokens (cr_usage (cmp_response p)), rec_cost := cmp_cost p\<rparr>"
  show ?thesis
  proof (cases "rec_state r = InProgress")
    case True
    have put: "keeps m (put_request (rec_id r) r' m)"
      using wf r mem_wfD(1) [OF wf r] True by (auto intro!: keeps_put legal_move_step simp: r'_def)
    then have "keeps m ((put_request (rec_id r) r' m)\<lparr>mem_attempts :=
        (mem_attempts (put_request (rec_id r) r' m))(cmp_request p := Some t)\<rparr>)" for t
      using mem_wfD(1) [OF wf r]
      by (intro keeps_trans [OF put] keeps_attempts) (auto simp: keeps_def put_request_def)
    with put show ?thesis using Some True by (simp add: complete_request_def Let_def r'_def split: option.splits)
  next
    case False
    then show ?thesis using Some wf by (simp add: complete_request_def keeps_refl)
  qed
qed (simp add: complete_request_def keeps_refl)

lemma reserve_budget_keeps:
  assumes "mem_wf m" "mem_requests m i \<noteq> None"
  shows "keeps m (snd (reserve_budget t i n m))"
proof -
  have "fst ` set (AList.update i n (mem_reservations m)) = {i} \<union> fst ` set (mem_reservations m)"
    by (rule AList.dom_update)
  then have "keeps m (m\<lparr>mem_reservations := AList.update i n (mem_reservations m)\<rparr>)"
    using assms by (simp add: keeps_def mem_wf_def AList.distinct_update)
  then show ?thesis using assms by (auto simp: reserve_budget_def keeps_refl split: option.splits)
qed

lemma reconcile_budget_keeps:
  assumes "mem_wf m"
  shows "keeps m (snd (reconcile_budget i n m))"
proof -
  have "\<forall>j \<in> fst ` set (AList.delete i (mem_reservations m)). mem_requests m j \<noteq> None"
  proof
    fix j
    assume "j \<in> fst ` set (AList.delete i (mem_reservations m))"
    then have "j \<in> fst ` set (mem_reservations m)" by (rule subsetD [OF AList.dom_delete_subset])
    then show "mem_requests m j \<noteq> None" using assms by (auto simp: mem_wf_def)
  qed
  then have "keeps m (m\<lparr>mem_reservations := AList.delete i (mem_reservations m), mem_used := u\<rparr>)" for u
    using assms by (simp add: keeps_def mem_wf_def AList.distinct_delete)
  then show ?thesis using assms by (auto simp: reconcile_budget_def keeps_refl split: option.splits)
qed

text \<open>The creation adds a record under a fresh identifier.\<close>

lemma create_cases:
  assumes "mem_wf m" "mem_requests m (random_id bytes) = None"
    and "create_or_get_request clone now bytes p m = (res, m')"
  shows "(m' = m \<and> (\<forall>r. res \<noteq> Inr (r, True)))
    \<or> (\<exists>r. res = Inr (r, True) \<and> rec_id r = random_id bytes \<and> rec_tenant r = cre_tenant p
        \<and> rec_idempotency_key r = cre_idempotency_key p \<and> rec_hash r = cre_hash p
        \<and> rec_state r = Received \<and> rec_response r = None
        \<and> m' = m\<lparr>mem_requests := (mem_requests m)(rec_id r := Some r),
                 mem_idempotency := (mem_idempotency m)(idempotency_key (cre_tenant p) (cre_idempotency_key p) := Some (rec_id r))\<rparr>
        \<and> mem_idempotency m (idempotency_key (cre_tenant p) (cre_idempotency_key p)) = None)"
  using assms(3)
  by (auto simp: create_or_get_request_def clone_record_def Let_def split: option.splits if_splits)

lemma create_wf:
  assumes "mem_wf m" "mem_requests m (random_id bytes) = None"
  shows "mem_wf (snd (create_or_get_request clone now bytes p m))
    \<and> evolves (mem_requests m) (mem_requests (snd (create_or_get_request clone now bytes p m)))"
proof -
  obtain res m' where c: "create_or_get_request clone now bytes p m = (res, m')" by fastforce
  from create_cases [OF assms c] show ?thesis
  proof (elim disjE conjE exE)
    fix r
    assume r: "rec_id r = random_id bytes" "rec_tenant r = cre_tenant p" "rec_idempotency_key r = cre_idempotency_key p"
      and m': "m' = m\<lparr>mem_requests := (mem_requests m)(rec_id r := Some r),
          mem_idempotency := (mem_idempotency m)(idempotency_key (cre_tenant p) (cre_idempotency_key p) := Some (rec_id r))\<rparr>"
      and new: "mem_idempotency m (idempotency_key (cre_tenant p) (cre_idempotency_key p)) = None"
    have "evolves (mem_requests m) (mem_requests m')" using assms(2) r(1) by (auto simp: m' intro!: evolves_upd)
    moreover have "mem_wf m'"
    proof -
      have a: "idempotency_key (rec_tenant q) (rec_idempotency_key q)
          \<noteq> idempotency_key (cre_tenant p) (cre_idempotency_key p)" if "mem_requests m i = Some q" for i q
        using mem_wfD(2) [OF assms(1) that] new by auto
      have b: "i \<noteq> random_id bytes" if "mem_idempotency m k = Some i" for k i
      proof -
        have "\<exists>q. mem_requests m i = Some q" using assms(1) that unfolding mem_wf_def by blast
        then show ?thesis using assms(2) by auto
      qed
      show ?thesis using assms r new a b by (auto simp: m' mem_wf_def)
    qed
    ultimately show ?thesis by (simp add: c)
  qed (simp add: c assms)
qed

subsection \<open>The in-memory store meets the contract\<close>

lemma mem_op_eq:
  "mem_op f ms = (fst (f (ms_clock ms (ms_step ms)) (ms_random ms (ms_step ms)) (ms_memory ms)),
     ms\<lparr>ms_memory := snd (f (ms_clock ms (ms_step ms)) (ms_random ms (ms_step ms)) (ms_memory ms)),
        ms_step := Suc (ms_step ms)\<rparr>)"
  by (simp add: mem_op_def split: prod.splits)

lemma mem_inv_keeps:
  assumes "mem_inv ms" "keeps (ms_memory ms) m'"
  shows "mem_inv (ms\<lparr>ms_memory := m', ms_step := Suc (ms_step ms)\<rparr>)
    \<and> evolves (mem_view ms) (mem_view (ms\<lparr>ms_memory := m', ms_step := Suc (ms_step ms)\<rparr>))"
proof -
  have none: "mem_requests m' i = None \<longleftrightarrow> mem_requests (ms_memory ms) i = None" for i
    using assms(2) unfolding keeps_def by (metis domIff)
  have "inj_on (\<lambda>n. random_id (ms_random ms n)) {Suc (ms_step ms)..}"
    using assms(1) unfolding mem_inv_def by (auto elim: inj_on_subset)
  then show ?thesis using assms by (simp add: mem_inv_def keeps_def mem_view_def none)
qed

lemma mem_inv_create:
  fixes p :: create_params and clone :: "chat_response \<Rightarrow> chat_response"
  assumes "mem_inv ms"
  defines "m' \<equiv> snd (create_or_get_request clone (ms_clock ms (ms_step ms)) (ms_random ms (ms_step ms)) p (ms_memory ms))"
  shows "mem_inv (ms\<lparr>ms_memory := m', ms_step := Suc (ms_step ms)\<rparr>)
    \<and> evolves (mem_view ms) (mem_view (ms\<lparr>ms_memory := m', ms_step := Suc (ms_step ms)\<rparr>))"
proof -
  let ?b = "ms_random ms (ms_step ms)" and ?m = "ms_memory ms"
  have wf: "mem_wf ?m" and fresh: "mem_requests ?m (random_id ?b) = None"
    and inj: "inj_on (\<lambda>n. random_id (ms_random ms n)) {ms_step ms..}"
    using assms(1) by (auto simp: mem_inv_def)
  have later: "mem_requests m' (random_id (ms_random ms n)) = None" if "Suc (ms_step ms) \<le> n" for n
  proof -
    have "random_id (ms_random ms n) \<noteq> random_id ?b" using inj_onD [OF inj, of n "ms_step ms"] that by auto
    moreover have "mem_requests ?m (random_id (ms_random ms n)) = None" using assms(1) that by (simp add: mem_inv_def)
    ultimately show ?thesis
      using create_cases [OF wf fresh prod.collapse [symmetric], of clone "ms_clock ms (ms_step ms)" p]
      by (auto simp: m'_def)
  qed
  have "inj_on (\<lambda>n. random_id (ms_random ms n)) {Suc (ms_step ms)..}" using inj by (rule inj_on_subset) auto
  then show ?thesis
    using create_wf [OF wf fresh, of clone "ms_clock ms (ms_step ms)" p] later by (simp add: mem_inv_def mem_view_def m'_def)
qed

lemma mem_inv_wf: "mem_inv ms \<Longrightarrow> mem_wf (ms_memory ms)"
  by (simp add: mem_inv_def)

lemma mem_op_keeps:
  assumes "mem_inv ms" "\<And>now b. keeps (ms_memory ms) (snd (f now b (ms_memory ms)))"
  shows "mem_inv (snd (mem_op f ms))" "evolves (mem_view ms) (mem_view (snd (mem_op f ms)))"
  using mem_inv_keeps [OF assms] by (simp_all add: mem_op_eq)

lemma mem_op_create:
  assumes "mem_inv ms"
  shows "mem_inv (snd (mem_op (\<lambda>now b. create_or_get_request clone now b p) ms))"
    "evolves (mem_view ms) (mem_view (snd (mem_op (\<lambda>now b. create_or_get_request clone now b p) ms)))"
  using mem_inv_create [OF assms] by (simp_all add: mem_op_eq)

lemma mem_op_reserve:
  assumes "mem_inv ms" "\<exists>r. mem_view ms i = Some r"
  shows "mem_inv (snd (mem_op (\<lambda>now b. reserve_budget t i n) ms))"
    "evolves (mem_view ms) (mem_view (snd (mem_op (\<lambda>now b. reserve_budget t i n) ms)))"
proof -
  have "keeps (ms_memory ms) (snd (reserve_budget t i n (ms_memory ms)))"
    using assms by (intro reserve_budget_keeps) (auto simp: mem_inv_wf mem_view_def)
  from mem_op_keeps [OF assms(1), of "\<lambda>now b. reserve_budget t i n"] this
  show "mem_inv (snd (mem_op (\<lambda>now b. reserve_budget t i n) ms))"
    "evolves (mem_view ms) (mem_view (snd (mem_op (\<lambda>now b. reserve_budget t i n) ms)))"
    by blast+
qed

interpretation mem: request_store "memory_ops clone" mem_inv mem_view for clone
proof unfold_locales
  fix s :: mem_state and p r fresh s'
  assume inv: "mem_inv s" and c: "so_create (memory_ops clone) p s = (Inr (r, fresh), s')"
  let ?m = "ms_memory s" and ?b = "ms_random s (ms_step s)" and ?t = "ms_clock s (ms_step s)"
  have wf: "mem_wf ?m" and new: "mem_requests ?m (random_id ?b) = None" using inv by (auto simp: mem_inv_def)
  have c': "create_or_get_request clone ?t ?b p ?m = (Inr (r, fresh), ms_memory s')"
    using c by (auto simp: memory_ops_def mem_op_eq prod_eq_iff)
  show "mem_view s' (rec_id r) \<noteq> None"
  proof (cases fresh)
    case True
    then show ?thesis using create_cases [OF wf new c'] by (auto simp: mem_view_def)
  next
    case False
    then obtain i where i: "mem_idempotency ?m (idempotency_key (cre_tenant p) (cre_idempotency_key p)) = Some i"
        "r = clone_record clone (case mem_requests ?m i of None \<Rightarrow> zero_record | Some r \<Rightarrow> r)" "ms_memory s' = ?m"
      using c' by (auto simp: create_or_get_request_def Let_def split: option.splits if_splits)
    obtain q where q: "mem_requests ?m i = Some q" using wf i(1) unfolding mem_wf_def by blast
    with i mem_wfD(1) [OF wf q] show ?thesis by (simp add: mem_view_def clone_record_def)
  qed
qed (simp_all add: memory_ops_def mem_op_create mem_op_reserve mem_op_keeps mem_inv_wf keeps_refl transition_request_keeps
    start_attempt_keeps complete_request_keeps fail_attempt_keeps cancel_request_keeps
    reject_budget_def reconcile_budget_keeps)

lemma complete_request_sets:
  assumes "mem_wf m" "complete_request now cp m = (None, m')"
  shows "\<exists>r. mem_requests m' (cmp_request cp) = Some r \<and> rec_state r = Completed \<and> rec_response r = Some (cmp_response cp)"
proof -
  obtain r where r: "mem_requests m (cmp_request cp) = Some r"
    using assms(2) by (auto simp: complete_request_def find_request_def split: option.splits)
  show ?thesis
    using assms(2) r mem_wfD(1) [OF assms(1) r]
    by (auto simp: complete_request_def find_request_def Let_def put_request_def split: option.splits if_splits)
qed

interpretation mem: idempotent_store "memory_ops clone" mem_inv mem_view clone for clone
proof unfold_locales
  fix s :: mem_state and p r s'
  assume inv: "mem_inv s" and c: "so_create (memory_ops clone) p s = (Inr (r, True), s')"
  let ?m = "ms_memory s" and ?b = "ms_random s (ms_step s)" and ?t = "ms_clock s (ms_step s)"
  have wf: "mem_wf ?m" and new: "mem_requests ?m (random_id ?b) = None" using inv by (auto simp: mem_inv_def)
  have c': "create_or_get_request clone ?t ?b p ?m = (Inr (r, True), ms_memory s')"
    using c by (auto simp: memory_ops_def mem_op_eq prod_eq_iff)
  show "mem_view s' (rec_id r) = Some r \<and> rec_tenant r = cre_tenant p \<and> rec_idempotency_key r = cre_idempotency_key p
      \<and> rec_hash r = cre_hash p"
    using create_cases [OF wf new c'] by (auto simp: mem_view_def)
next
  fix s :: mem_state and cp :: completion_params and s'
  assume inv: "mem_inv s" and c: "so_complete (memory_ops clone) cp s = (None, s')"
  have "complete_request (ms_clock s (ms_step s)) cp (ms_memory s) = (None, ms_memory s')"
    using c by (auto simp: memory_ops_def mem_op_eq prod_eq_iff)
  from complete_request_sets [OF _ this] inv
  show "\<exists>r. mem_view s' (cmp_request cp) = Some r \<and> rec_state r = Completed \<and> rec_response r = Some (cmp_response cp)"
    by (simp add: mem_view_def mem_inv_def)
next
  fix s :: mem_state and i and r :: req_record and p :: create_params
  assume inv: "mem_inv s" and r: "mem_view s i = Some r" and p: "rec_tenant r = cre_tenant p"
    "rec_idempotency_key r = cre_idempotency_key p" "rec_hash r = cre_hash p"
  have wf: "mem_wf (ms_memory s)" and req: "mem_requests (ms_memory s) i = Some r" using inv r by (auto simp: mem_inv_def mem_view_def)
  have "mem_idempotency (ms_memory s) (idempotency_key (cre_tenant p) (cre_idempotency_key p)) = Some i"
    using mem_wfD(2) [OF wf req] p by simp
  with req p show "\<exists>r' s'. so_create (memory_ops clone) p s = (Inr (r', False), s') \<and> rec_id r' = rec_id r
      \<and> rec_state r' = rec_state r \<and> rec_response r' = map_option clone (rec_response r)"
    by (simp add: memory_ops_def mem_op_eq create_or_get_request_def clone_record_def)
qed

text \<open>Every method draws its time and randomness, and hands on the rest.\<close>

lemma mem_opE:
  assumes "mem_op f ms = (res, ms')"
  obtains "res = fst (f (ms_clock ms (ms_step ms)) (ms_random ms (ms_step ms)) (ms_memory ms))"
    "ms_memory ms' = snd (f (ms_clock ms (ms_step ms)) (ms_random ms (ms_step ms)) (ms_memory ms))"
  using assms by (auto simp: mem_op_eq)

lemmas mem_obs = mem_view_def mem_reserved_def mem_spent_def mem_started_def mem_granted_def memory_policy_def

interpretation mem: reliable_store "memory_ops clone" mem_inv mem_view mem_reserved mem_spent mem_started mem_granted for clone
proof unfold_locales
  fix s :: mem_state and p r s'
  assume inv: "mem_inv s" and c: "so_create (memory_ops clone) p s = (Inr (r, True), s')"
  let ?m = "ms_memory s" and ?b = "ms_random s (ms_step s)" and ?t = "ms_clock s (ms_step s)"
  have wf: "mem_wf ?m" and new: "mem_requests ?m (random_id ?b) = None" using inv by (auto simp: mem_inv_def)
  have c': "create_or_get_request clone ?t ?b p ?m = (Inr (r, True), ms_memory s')"
    using c by (auto simp: memory_ops_def mem_op_eq prod_eq_iff)
  have none: "map_of (mem_reservations ?m) (random_id ?b) = None" "mem_attempts ?m (random_id ?b) = None"
    using wf new by (auto simp: mem_wf_def map_of_eq_None_iff)
  show "mem_view s (rec_id r) = None \<and> mem_view s' = (mem_view s)(rec_id r := Some r) \<and> rec_tenant r = cre_tenant p
      \<and> rec_state r = Received \<and> mem_reserved s' = mem_reserved s \<and> mem_reserved s (rec_id r) = None
      \<and> mem_spent s' = mem_spent s \<and> mem_started s' = mem_started s \<and> mem_started s (rec_id r) = {}
      \<and> mem_granted s' = mem_granted s"
    using create_cases [OF wf new c'] new none by (auto simp: mem_obs fun_eq_iff)
next
  fix s :: mem_state and p s' and x :: "go_error + req_record \<times> bool"
  assume inv: "mem_inv s" and c: "so_create (memory_ops clone) p s = (x, s')" and x: "\<forall>r. x \<noteq> Inr (r, True)"
  let ?m = "ms_memory s" and ?b = "ms_random s (ms_step s)" and ?t = "ms_clock s (ms_step s)"
  have wf: "mem_wf ?m" and new: "mem_requests ?m (random_id ?b) = None" using inv by (auto simp: mem_inv_def)
  have c': "create_or_get_request clone ?t ?b p ?m = (x, ms_memory s')"
    using c by (auto simp: memory_ops_def mem_op_eq prod_eq_iff)
  show "mem_view s' = mem_view s \<and> mem_reserved s' = mem_reserved s \<and> mem_spent s' = mem_spent s
      \<and> mem_started s' = mem_started s"
    using create_cases [OF wf new c'] x by (auto simp: mem_obs fun_eq_iff)
next
  fix s :: mem_state and ap :: attempt_params and r :: req_record
  assume "mem_inv s" "mem_view s (atp_request ap) = Some r" "rec_tenant r = atp_tenant ap"
    "atp_number ap \<notin> mem_started s (atp_request ap)"
  then show "\<exists>s'. so_start_attempt (memory_ops clone) ap s = (None, s') \<and> mem_view s' = mem_view s
      \<and> mem_reserved s' = mem_reserved s \<and> mem_spent s' = mem_spent s
      \<and> mem_started s' = (mem_started s)(atp_request ap := insert (atp_number ap) (mem_started s (atp_request ap)))"
    by (auto simp: memory_ops_def mem_op_eq start_attempt_def find_request_def mem_obs Let_def fun_eq_iff
        split: option.splits)
next
  fix s :: mem_state and cp :: completion_params and r :: req_record
  assume inv: "mem_inv s" and r: "mem_view s (cmp_request cp) = Some r" "rec_tenant r = cmp_tenant cp"
    "rec_state r = InProgress" and n: "cmp_number cp \<in> mem_started s (cmp_request cp)"
  have id: "rec_id r = cmp_request cp" using mem_wfD(1) [OF mem_inv_wf [OF inv]] r(1) by (simp add: mem_view_def)
  obtain tries a where tries: "mem_attempts (ms_memory s) (cmp_request cp) = Some tries" "tries (cmp_number cp) = Some a"
    using n by (auto simp: mem_started_def split: option.splits)
  define r' where "r' = r\<lparr>rec_state := Completed, rec_response := Some (cmp_response cp),
      rec_completed_at := Some (ms_clock s (ms_step s)), rec_updated_at := ms_clock s (ms_step s),
      rec_prompt_tokens := prompt_tokens (cr_usage (cmp_response cp)),
      rec_completion_tokens := completion_tokens (cr_usage (cmp_response cp)), rec_cost := cmp_cost cp\<rparr>"
  define s' where "s' = snd (so_complete (memory_ops clone) cp s)"
  have call: "so_complete (memory_ops clone) cp s = (None, s')"
    and m': "ms_memory s' = (put_request (cmp_request cp) r' (ms_memory s))\<lparr>mem_attempts :=
      (mem_attempts (ms_memory s))(cmp_request cp := Some (tries(cmp_number cp := Some (a\<lparr>ma_final := True\<rparr>))))\<rparr>"
    using r id tries by (simp_all add: s'_def r'_def memory_ops_def mem_op_eq complete_request_def find_request_def
        mem_view_def Let_def put_request_def)
  have "mem_view s' = (mem_view s)(cmp_request cp := Some r')" "mem_reserved s' = mem_reserved s" "mem_spent s' = mem_spent s"
    by (simp_all add: mem_obs m' put_request_def)
  moreover have "mem_started s' = mem_started s"
    by (auto simp: mem_started_def m' put_request_def tries fun_eq_iff)
  ultimately show "\<exists>r' s'. so_complete (memory_ops clone) cp s = (None, s')
      \<and> mem_view s' = (mem_view s)(cmp_request cp := Some r')
      \<and> rec_state r' = Completed \<and> rec_response r' = Some (cmp_response cp) \<and> rec_cost r' = cmp_cost cp
      \<and> rec_tenant r' = rec_tenant r \<and> mem_reserved s' = mem_reserved s \<and> mem_spent s' = mem_spent s
      \<and> mem_started s' = mem_started s"
    using call by (intro exI [of _ r'] exI [of _ s']) (simp add: r'_def)
next
  fix s :: mem_state and fp :: failure_params and r :: req_record
  assume inv: "mem_inv s" and r: "mem_view s (fap_request fp) = Some r" "rec_tenant r = fap_tenant fp"
    "rec_state r = InProgress"
  have "rec_id r = fap_request fp" using mem_wfD(1) [OF mem_inv_wf [OF inv]] r(1) by (simp add: mem_view_def)
  then show "\<exists>s'. so_fail_attempt (memory_ops clone) fp s = (None, s') \<and> mem_reserved s' = mem_reserved s
      \<and> mem_spent s' = mem_spent s \<and> mem_started s' = mem_started s
      \<and> (if fap_final fp
         then \<exists>r'. mem_view s' = (mem_view s)(fap_request fp := Some r') \<and> rec_state r' = Failed
                \<and> rec_failure r' = fap_category fp \<and> rec_partial r' = fap_partial fp \<and> rec_tenant r' = rec_tenant r
         else mem_view s' = mem_view s)"
    using r by (auto simp: memory_ops_def mem_op_eq fail_attempt_def find_request_def mem_obs put_request_def
        fun_eq_iff intro!: exI)
next
  fix s :: mem_state and i t c n and r :: req_record
  assume "mem_inv s" "mem_view s i = Some r" "rec_tenant r = t" "rec_state r = Validated"
  then show "\<exists>r' s'. so_reject (memory_ops clone) t i c n s = (None, s') \<and> mem_view s' = (mem_view s)(i := Some r')
      \<and> rec_state r' = BudgetRejected \<and> rec_tenant r' = t \<and> mem_reserved s' = mem_reserved s
      \<and> mem_spent s' = mem_spent s \<and> mem_started s' = mem_started s"
    by (auto simp: memory_ops_def mem_op_eq reject_budget_def transition_request_def find_request_def mem_obs
        put_request_def fun_eq_iff transition_def intro!: exI)
next
  fix s :: mem_state and i t a b and r :: req_record
  assume "mem_inv s" "mem_view s i = Some r" "rec_tenant r = t" "rec_state r = a" "can_transition a b"
  then show "\<exists>r' s'. so_transition (memory_ops clone) t i a b s = (None, s') \<and> mem_view s' = (mem_view s)(i := Some r')
      \<and> rec_tenant r' = t \<and> rec_state r' = b \<and> mem_reserved s' = mem_reserved s \<and> mem_spent s' = mem_spent s
      \<and> mem_started s' = mem_started s \<and> mem_granted s' = mem_granted s"
    by (auto simp: memory_ops_def mem_op_eq transition_request_def find_request_def mem_obs
        put_request_def fun_eq_iff transition_def intro!: exI)
next
  fix s :: mem_state and t i n now e s'
  assume "mem_inv s" "so_reserve (memory_ops clone) t i n now s = (e, s')"
  then show "mem_view s' = mem_view s \<and> mem_spent s' = mem_spent s \<and> mem_started s' = mem_started s
      \<and> mem_reserved s' = (if e = None then (mem_reserved s)(i := Some n) else mem_reserved s)"
    by (auto simp: memory_ops_def mem_op_eq reserve_budget_def mem_obs fun_eq_iff AList.update_conv'
        split: option.splits)
next
  fix s :: mem_state and i n and r :: req_record
  assume "mem_inv s" "mem_view s i = Some r"
  then show "\<exists>s'. so_reconcile (memory_ops clone) i n s = (None, s') \<and> mem_view s' = mem_view s
      \<and> mem_reserved s' = (mem_reserved s)(i := None)
      \<and> mem_spent s' = (mem_spent s)(rec_tenant r := i64 (mem_spent s (rec_tenant r) + n)) \<and> mem_started s' = mem_started s"
    by (auto simp: memory_ops_def mem_op_eq reconcile_budget_def mem_obs fun_eq_iff AList.delete_conv')
qed (simp_all add: memory_ops_def mem_op_eq mem_obs fun_eq_iff)

end
