(* ===== verification/Memory_Budget.thy ===== *)
theory Memory_Budget
  imports Memory_Store
begin

text \<open>
  The monthly budget in the in-memory store: over every interleaving of the store's methods by any number of
  clients, what a tenant was charged and what is reserved for it stay within its limit, as long as no
  client reconciles more than it reserved.
\<close>

definition owner :: "memory \<Rightarrow> string \<Rightarrow> string" where
  "owner m i = (case mem_requests m i of None \<Rightarrow> '''' | Some r \<Rightarrow> rec_tenant r)"

text \<open>What is reserved for a tenant, as a mathematical sum.\<close>

definition held_in :: "(string \<Rightarrow> string) \<Rightarrow> string \<Rightarrow> (string \<times> int) list \<Rightarrow> int" where
  "held_in own t rs = (\<Sum>(i, n) \<leftarrow> rs. if own i = t then n else 0)"

definition held :: "memory \<Rightarrow> string \<Rightarrow> int" where
  "held m t = held_in (owner m) t (mem_reservations m)"

definition reserved_for :: "memory \<Rightarrow> string \<Rightarrow> int" where
  "reserved_for m i = (case map_of (mem_reservations m) i of None \<Rightarrow> 0 | Some n \<Rightarrow> n)"

definition limited :: "memory \<Rightarrow> string \<Rightarrow> int \<Rightarrow> bool" where
  "limited m t limit \<longleftrightarrow> (\<exists>p. mem_policies m t = Some p \<and> tp_monthly_budget p = limit) \<and> 0 < limit"

definition budget_ok :: "memory \<Rightarrow> bool" where
  "budget_ok m \<longleftrightarrow>
     (\<forall>t limit. limited m t limit \<longrightarrow>
        limit \<le> max_int64 \<and> 0 \<le> mem_used m t \<and> mem_used m t + held m t \<le> limit
        \<and> (\<forall>(i, n) \<in> set (mem_reservations m). owner m i = t \<longrightarrow> 0 \<le> n))"

text \<open>
  One call of a method of the store by some client. A client reserves for its own requests, and reconciles
  at most what the request has reserved.
\<close>

inductive mem_step :: "memory \<Rightarrow> memory \<Rightarrow> bool" where
  step_create: "mem_requests m (random_id bytes) = None \<Longrightarrow>
     mem_step m (snd (create_or_get_request clone now bytes p m))"
| step_transition: "mem_step m (snd (transition_request now t i a b m))"
| step_start: "mem_step m (snd (start_attempt ap m))"
| step_complete: "mem_step m (snd (complete_request now cp m))"
| step_fail: "mem_step m (snd (fail_attempt now fp m))"
| step_cancel: "mem_step m (snd (cancel_request now t i m))"
| step_reject: "mem_step m (snd (reject_budget now t i m))"
| step_reserve: "find_request t i m \<noteq> None \<Longrightarrow> in_i64 n \<Longrightarrow> mem_step m (snd (reserve_budget t i n m))"
| step_reconcile: "0 \<le> n \<Longrightarrow> n \<le> reserved_for m i \<Longrightarrow> mem_step m (snd (reconcile_budget i n m))"

subsection \<open>Sums of reservations\<close>

lemma held_in_Nil [simp]: "held_in own t [] = 0"
  by (simp add: held_in_def)

lemma held_in_Cons [simp]: "held_in own t ((i, n) # rs) = (if own i = t then n else 0) + held_in own t rs"
  by (simp add: held_in_def)

lemma held_in_cong: "(\<And>i. i \<in> fst ` set rs \<Longrightarrow> own i = own' i) \<Longrightarrow> held_in own t rs = held_in own' t rs"
  by (induction rs) auto

lemma held_in_nonneg: "\<forall>(i, n) \<in> set rs. own i = t \<longrightarrow> 0 \<le> n \<Longrightarrow> 0 \<le> held_in own t rs"
  by (induction rs) auto

lemma held_in_delete:
  assumes "distinct (map fst rs)"
  shows "held_in own t (AList.delete i rs) = held_in own t rs
    - (case map_of rs i of None \<Rightarrow> 0 | Some n \<Rightarrow> if own i = t then n else 0)"
  using assms
proof (induction rs)
  case (Cons x rs)
  obtain j n where x: "x = (j, n)" by fastforce
  have "AList.delete i rs = rs" if "i \<notin> fst ` set rs" using that by (rule AList.delete_id)
  moreover have "map_of rs i = None" if "i \<notin> fst ` set rs" using that by (simp add: map_of_eq_None_iff)
  ultimately show ?case using Cons x by (auto split: option.splits)
qed (simp split: option.splits)

lemma held_in_update:
  assumes "distinct (map fst rs)"
  shows "held_in own t (AList.update i n rs) = held_in own t rs
    + (if own i = t then n - (case map_of rs i of None \<Rightarrow> 0 | Some k \<Rightarrow> k) else 0)"
  using assms
proof (induction rs)
  case (Cons x rs)
  obtain j k where x: "x = (j, k)" by fastforce
  have "map_of rs j = None" using Cons.prems x by (simp add: map_of_eq_None_iff)
  then show ?case using Cons x by (auto split: option.splits)
qed simp

text \<open>Within the limit the wrapping sum of the code is the mathematical one.\<close>

lemma sum_map_held:
  assumes "\<forall>(i, n) \<in> set rs. own i = t \<longrightarrow> 0 \<le> n" "held_in own t rs \<le> max_int64"
    and "\<And>i. own i = (case reqs i of None \<Rightarrow> '''' | Some r \<Rightarrow> rec_tenant r)"
  shows "sum_map rs reqs t = held_in own t rs"
  using assms(1,2)
proof (induction rs)
  case (Cons x rs)
  obtain i n where x: "x = (i, n)" by fastforce
  have nn: "0 \<le> held_in own t rs" using Cons.prems(1) by (intro held_in_nonneg) auto
  have own: "rec_tenant (case reqs i of None \<Rightarrow> zero_record | Some r \<Rightarrow> r) = own i"
    by (simp add: assms(3) zero_record_def split: option.splits)
  have n: "own i = t \<Longrightarrow> 0 \<le> n" using Cons.prems(1) x by auto
  have IH: "sum_map rs reqs t = held_in own t rs" using Cons.IH Cons.prems n x by (auto split: if_splits)
  show ?case
    using IH own nn n Cons.prems(2) x by (auto simp: Let_def in_i64_def max_int64_def intro!: i64_id)
qed simp

subsection \<open>The invariant\<close>

definition ledger :: "memory \<Rightarrow> (string \<times> int) list \<times> (string \<Rightarrow> int) \<times> (string \<Rightarrow> tenant_policy option)" where
  "ledger m = (mem_reservations m, mem_used m, mem_policies m)"

lemma ledger_put [simp]: "ledger (put_request i r m) = ledger m" "ledger (m\<lparr>mem_attempts := t\<rparr>) = ledger m"
  "ledger (m\<lparr>mem_requests := q, mem_idempotency := k\<rparr>) = ledger m"
  by (simp_all add: ledger_def put_request_def)

lemma ledger_ops [simp]:
  "ledger (snd (create_or_get_request clone now bytes p m)) = ledger m"
  "ledger (snd (transition_request now t i a b m)) = ledger m" "ledger (snd (start_attempt ap m)) = ledger m"
  "ledger (snd (complete_request now cp m)) = ledger m" "ledger (snd (fail_attempt now fp m)) = ledger m"
  "ledger (snd (cancel_request now t i m)) = ledger m" "ledger (snd (reject_budget now t i m)) = ledger m"
  by (auto simp: create_or_get_request_def transition_request_def start_attempt_def complete_request_def
      fail_attempt_def cancel_request_def reject_budget_def Let_def split: option.splits if_splits)

lemma owner_evolves: "evolves (mem_requests m) (mem_requests m') \<Longrightarrow> mem_requests m i \<noteq> None \<Longrightarrow> owner m' i = owner m i"
  by (fastforce simp: evolves_def owner_def legal_move_def)

lemma held_evolves:
  assumes "mem_wf m" "evolves (mem_requests m) (mem_requests m')"
  shows "held_in (owner m') t (mem_reservations m) = held m t"
    "(\<forall>(i, n) \<in> set (mem_reservations m). owner m' i = t \<longrightarrow> 0 \<le> n)
      \<longleftrightarrow> (\<forall>(i, n) \<in> set (mem_reservations m). owner m i = t \<longrightarrow> 0 \<le> n)"
proof -
  have own: "owner m' i = owner m i" if "i \<in> fst ` set (mem_reservations m)" for i
    using assms that by (intro owner_evolves) (auto simp: mem_wf_def)
  then show "held_in (owner m') t (mem_reservations m) = held m t"
    unfolding held_def by (rule held_in_cong)
  show "(\<forall>(i, n) \<in> set (mem_reservations m). owner m' i = t \<longrightarrow> 0 \<le> n)
      \<longleftrightarrow> (\<forall>(i, n) \<in> set (mem_reservations m). owner m i = t \<longrightarrow> 0 \<le> n)"
    using own by force
qed

lemma budget_ok_evolves:
  assumes "budget_ok m" "mem_wf m" "evolves (mem_requests m) (mem_requests m')" "ledger m' = ledger m"
  shows "budget_ok m'"
proof -
  have l: "mem_reservations m' = mem_reservations m" "mem_used m' = mem_used m" "mem_policies m' = mem_policies m"
    using assms(4) by (simp_all add: ledger_def)
  have "limited m' = limited m" by (simp add: limited_def l fun_eq_iff)
  then show ?thesis
    using assms(1) by (simp add: budget_ok_def held_def [of m'] l held_evolves [OF assms(2,3)])
qed

lemma owner_ledger_only: "owner (m\<lparr>mem_reservations := r\<rparr>) = owner m" "owner (m\<lparr>mem_reservations := r, mem_used := u\<rparr>) = owner m"
  "limited (m\<lparr>mem_reservations := r\<rparr>) = limited m" "limited (m\<lparr>mem_reservations := r, mem_used := u\<rparr>) = limited m"
  by (simp_all add: owner_def limited_def fun_eq_iff)

lemma set_update: "set (AList.update i n rs) \<subseteq> insert (i, n) (set rs)"
  by (induction rs) auto

lemma budget_ok_reserve:
  assumes "budget_ok m" "mem_wf m" "find_request t i m \<noteq> None" "in_i64 n"
  shows "budget_ok (snd (reserve_budget t i n m))"
proof (cases "fst (reserve_budget t i n m)")
  case None
  then obtain p where p: "mem_policies m t = Some p"
      "can_reserve (tp_monthly_budget p) (mem_used m t) (sum_map (mem_reservations m) (mem_requests m) t) n = None"
      "snd (reserve_budget t i n m) = m\<lparr>mem_reservations := AList.update i n (mem_reservations m)\<rparr>"
    by (auto simp: reserve_budget_def split: option.splits)
  let ?rs = "mem_reservations m"
  have own: "owner m i = t" using assms(3) by (auto simp: owner_def find_request_def split: option.splits if_splits)
  have dist: "distinct (map fst ?rs)" using assms(2) by (simp add: mem_wf_def)
  have "limit \<le> max_int64 \<and> 0 \<le> mem_used m u \<and> mem_used m u + held_in (owner m) u (AList.update i n ?rs) \<le> limit
      \<and> (\<forall>(j, k) \<in> set (AList.update i n ?rs). owner m j = u \<longrightarrow> 0 \<le> k)" if lim: "limited m u limit" for u limit
  proof (cases "u = t")
    case False
    have "held_in (owner m) u (AList.update i n ?rs) = held m u" using False own by (simp add: held_in_update dist held_def)
    moreover have "\<forall>(j, k) \<in> set (AList.update i n ?rs). owner m j = u \<longrightarrow> 0 \<le> k"
    proof -
      have "\<forall>(j, k) \<in> set ?rs. owner m j = u \<longrightarrow> 0 \<le> k" using assms(1) lim by (simp add: budget_ok_def)
      then show ?thesis using set_update [of i n ?rs] False own by blast
    qed
    ultimately show ?thesis using assms(1) lim by (simp add: budget_ok_def)
  next
    case True
    have ok: "limit \<le> max_int64" "0 \<le> mem_used m t" "mem_used m t + held m t \<le> limit"
        "\<forall>(j, k) \<in> set ?rs. owner m j = t \<longrightarrow> 0 \<le> k"
      using assms(1) lim True by (auto simp: budget_ok_def)
    have nn: "0 \<le> held m t" unfolding held_def using ok(4) by (rule held_in_nonneg)
    have sum: "sum_map ?rs (mem_requests m) t = held m t"
      unfolding held_def
    proof (rule sum_map_held [OF ok(4)])
      show "held_in (owner m) t ?rs \<le> max_int64" using ok(1-3) by (simp add: held_def)
    qed (simp add: owner_def)
    have lim': "tp_monthly_budget p = limit" "0 < limit" using lim p(1) True by (auto simp: limited_def)
    have "in_i64 limit" "in_i64 (mem_used m t)" "in_i64 (held m t)"
      using ok nn lim'(2) by (auto simp: in_i64_def max_int64_def)
    from can_reserve_eq [OF this assms(4)] p(2) sum lim' have n: "0 \<le> n" "mem_used m t + held m t + n \<le> limit"
      by (auto split: if_splits)
    have "0 \<le> k" if "map_of ?rs i = Some k" for k using ok(4) own map_of_SomeD [OF that] by auto
    then have "held_in (owner m) t (AList.update i n ?rs) \<le> held m t + n"
      using own by (auto simp: held_in_update dist held_def split: option.splits)
    moreover have "\<forall>(j, k) \<in> set (AList.update i n ?rs). owner m j = t \<longrightarrow> 0 \<le> k"
      using ok(4) n(1) set_update [of i n ?rs] by auto
    ultimately show ?thesis using ok n True by auto
  qed
  then show ?thesis by (simp add: p(3) budget_ok_def held_def owner_ledger_only)
next
  case (Some e)
  then have "snd (reserve_budget t i n m) = m" by (auto simp: reserve_budget_def split: option.splits)
  with assms(1) show ?thesis by simp
qed

lemma budget_ok_reconcile:
  assumes "budget_ok m" "mem_wf m" "0 \<le> n" "n \<le> reserved_for m i"
  shows "budget_ok (snd (reconcile_budget i n m))"
proof (cases "mem_requests m i")
  case None
  with assms(1) show ?thesis by (simp add: reconcile_budget_def)
next
  case (Some r)
  let ?rs = "mem_reservations m" and ?t = "rec_tenant r"
  have own: "owner m i = ?t" using Some by (simp add: owner_def)
  have dist: "distinct (map fst ?rs)" using assms(2) by (simp add: mem_wf_def)
  have sub: "set (AList.delete i ?rs) \<subseteq> set ?rs" by (auto simp: AList.delete_eq)
  have held: "held_in (owner m) u (AList.delete i ?rs) = held m u - (if u = ?t then reserved_for m i else 0)" for u
    using own by (auto simp: held_in_delete dist held_def reserved_for_def split: option.splits)
  define u' where "u' = (mem_used m)(?t := i64 (mem_used m ?t + n))"
  have "limit \<le> max_int64 \<and> 0 \<le> u' t \<and> u' t + held_in (owner m) t (AList.delete i ?rs) \<le> limit
      \<and> (\<forall>(j, k) \<in> set (AList.delete i ?rs). owner m j = t \<longrightarrow> 0 \<le> k)" if lim: "limited m t limit" for t limit
  proof -
    have ok: "limit \<le> max_int64" "0 \<le> mem_used m t" "mem_used m t + held m t \<le> limit"
        "\<forall>(j, k) \<in> set ?rs. owner m j = t \<longrightarrow> 0 \<le> k"
      using assms(1) lim by (auto simp: budget_ok_def)
    have keep: "\<forall>(j, k) \<in> set (AList.delete i ?rs). owner m j = t \<longrightarrow> 0 \<le> k" using ok(4) sub by blast
    have left: "0 \<le> held_in (owner m) t (AList.delete i ?rs)" using keep by (rule held_in_nonneg)
    have "u' t = mem_used m t + (if t = ?t then n else 0)"
    proof (cases "t = ?t")
      case True
      have "in_i64 (mem_used m t + n)"
        using True ok(1-3) left held [of t] assms(3,4) by (auto simp: in_i64_def max_int64_def)
      with True show ?thesis by (simp add: u'_def)
    qed (simp add: u'_def)
    then show ?thesis using ok(1-3) keep held [of t] assms(3,4) by auto
  qed
  then show ?thesis
    using Some by (simp add: reconcile_budget_def budget_ok_def held_def owner_ledger_only u'_def)
qed

lemma mem_step_wf: "mem_step m m' \<Longrightarrow> mem_wf m \<Longrightarrow> mem_wf m' \<and> evolves (mem_requests m) (mem_requests m')"
proof (induction rule: mem_step.induct)
  case (step_create m bytes clone now p)
  then show ?case using create_wf by blast
next
  case (step_reserve t i m n)
  then have "mem_requests m i \<noteq> None" by (auto simp: find_request_def split: option.splits)
  with step_reserve reserve_budget_keeps show ?case by (auto simp: keeps_def)
next
  case (step_reject m now t i)
  then show ?case using transition_request_keeps by (auto simp: keeps_def reject_budget_def)
next
  case (step_transition m now t i a b)
  then show ?case using transition_request_keeps by (auto simp: keeps_def)
next
  case (step_start m ap)
  then show ?case using start_attempt_keeps by (auto simp: keeps_def)
next
  case (step_complete m now cp)
  then show ?case using complete_request_keeps by (auto simp: keeps_def)
next
  case (step_fail m now fp)
  then show ?case using fail_attempt_keeps by (auto simp: keeps_def)
next
  case (step_cancel m now t i)
  then show ?case using cancel_request_keeps by (auto simp: keeps_def)
next
  case (step_reconcile n m i)
  then show ?case using reconcile_budget_keeps by (auto simp: keeps_def)
qed

lemma mem_step_budget: "mem_step m m' \<Longrightarrow> mem_wf m \<Longrightarrow> budget_ok m \<Longrightarrow> budget_ok m'"
proof -
  assume step: "mem_step m m'" and wf: "mem_wf m" and ok: "budget_ok m"
  have "ledger m' = ledger m \<Longrightarrow> budget_ok m'" using budget_ok_evolves ok wf mem_step_wf [OF step wf] by blast
  with step ok wf show ?thesis
    by (cases rule: mem_step.cases) (auto intro: budget_ok_reserve budget_ok_reconcile)
qed

lemma mem_step_policies: "mem_step m m' \<Longrightarrow> mem_policies m' = mem_policies m"
proof -
  assume step: "mem_step m m'"
  have "ledger m' = ledger m \<Longrightarrow> mem_policies m' = mem_policies m" by (simp add: ledger_def)
  with step show ?thesis
    by (cases rule: mem_step.cases) (auto simp: reserve_budget_def reconcile_budget_def split: option.splits)
qed

lemma mem_steps_keep:
  "mem_step\<^sup>*\<^sup>* m0 m \<Longrightarrow> mem_wf m0 \<Longrightarrow> budget_ok m0 \<Longrightarrow> mem_wf m \<and> budget_ok m \<and> mem_policies m = mem_policies m0"
  by (induction rule: rtranclp_induct) (auto simp: mem_step_wf mem_step_budget mem_step_policies)


definition sample_policy :: tenant_policy where
  "sample_policy = \<lparr>tp_classification = ''PUBLIC'', tp_allowed = None, tp_requests_per_minute = 60,
     tp_tokens_per_minute = 1000, tp_max_concurrent = 2, tp_monthly_budget = 1000, tp_daily_budget = 0\<rparr>"

definition sample_record :: req_record where
  "sample_record = zero_record\<lparr>rec_id := ''q'', rec_tenant := ''t'', rec_idempotency_key := ''k'', rec_state := Validated\<rparr>"

definition sample_memory :: memory where
  "sample_memory = new_memory\<lparr>mem_policies := [''t'' \<mapsto> sample_policy], mem_requests := [''q'' \<mapsto> sample_record],
     mem_idempotency := [idempotency_key ''t'' ''k'' \<mapsto> ''q'']\<rparr>"

lemma sample_memory_ok: "mem_wf sample_memory" "budget_ok sample_memory"
  by (auto simp: sample_memory_def sample_record_def sample_policy_def new_memory_def mem_wf_def zero_record_def
      budget_ok_def limited_def held_def max_int64_def split: if_splits)


end
