(* ===== verification/Gateway.thy ===== *)
theory Gateway
  imports Routing Rate_Limit Store Budget
begin

text \<open>
  The package \<open>internal/gateway\<close>: the life of one chat request from validation to the final response.

  The service works on a state \<open>gw\<close> of the store's own state, the router, the Redis key space and a world
  that answers what the code asks its surroundings: the time, the providers, the client's callback, the
  network to Redis, randomness and sleeping. The methods of the store and of the world are arguments
  (\<open>store_ops\<close>, \<open>world_ops\<close>), so the lemmas hold for every store and every behaviour of the providers. A
  cancelled context shows as the errors these methods return. \<open>gw_calls\<close> is a history variable: the
  provider calls made, each with whether it handed content to the client.
\<close>

record 'w world_ops =
  wo_marshal :: "chat_input \<Rightarrow> go_error + string"
  wo_sum256 :: "string \<Rightarrow> string"
  wo_now :: "'w \<Rightarrow> go_time \<times> 'w"
  wo_complete :: "string \<Rightarrow> duration \<Rightarrow> completion_request \<Rightarrow> 'w \<Rightarrow> (go_error + completion) \<times> 'w"
  wo_stream :: "string \<Rightarrow> duration \<Rightarrow> completion_request \<Rightarrow> 'w \<Rightarrow> stream_act \<times> 'w"
  wo_emit :: "chunk \<Rightarrow> 'w \<Rightarrow> go_error option \<times> 'w"
  wo_redis :: "'w \<Rightarrow> (rpc \<times> go_time) \<times> 'w"
  wo_random :: "'w \<Rightarrow> nat \<times> 'w"
  wo_sleep :: "duration \<Rightarrow> 'w \<Rightarrow> go_error option \<times> 'w"

record ('s, 'w) gw =
  gw_store :: 's
  gw_router :: router
  gw_redis :: redis
  gw_world :: 'w
  gw_calls :: "(string \<times> bool) list"

definition on_store :: "('s \<Rightarrow> 'a \<times> 's) \<Rightarrow> ('s, 'w) gw \<Rightarrow> 'a \<times> ('s, 'w) gw" where
  "on_store f g = (case f (gw_store g) of (x, s) \<Rightarrow> (x, g\<lparr>gw_store := s\<rparr>))"

definition on_router :: "(router \<Rightarrow> 'a \<times> router) \<Rightarrow> ('s, 'w) gw \<Rightarrow> 'a \<times> ('s, 'w) gw" where
  "on_router f g = (case f (gw_router g) of (x, r) \<Rightarrow> (x, g\<lparr>gw_router := r\<rparr>))"

definition on_world :: "('w \<Rightarrow> 'a \<times> 'w) \<Rightarrow> ('s, 'w) gw \<Rightarrow> 'a \<times> ('s, 'w) gw" where
  "on_world f g = (case f (gw_world g) of (x, w) \<Rightarrow> (x, g\<lparr>gw_world := w\<rparr>))"

subsection \<open>Configuration\<close>

record gateway_config =
  gc_strategy :: strategy
  gc_max_attempts :: int
  gc_initial_backoff :: duration
  gc_maximum_backoff :: duration
  gc_default_max_tokens :: int
  gc_maximum_stream_bytes :: int

record service =
  sv_limiter :: "limiter option"
  sv_config :: gateway_config

definition new_service :: "limiter option \<Rightarrow> gateway_config \<Rightarrow> service" where
  "new_service lmt c =
     (let c1 = (if gc_max_attempts c \<le> 0 then c\<lparr>gc_max_attempts := 3\<rparr> else c);
          c2 = (if gc_initial_backoff c1 \<le> 0 then c1\<lparr>gc_initial_backoff := 50 * millisecond\<rparr> else c1);
          c3 = (if gc_maximum_backoff c2 \<le> 0 then c2\<lparr>gc_maximum_backoff := second\<rparr> else c2);
          c4 = (if gc_default_max_tokens c3 \<le> 0 then c3\<lparr>gc_default_max_tokens := 1024\<rparr> else c3);
          c5 = (if gc_maximum_stream_bytes c4 \<le> 0 then c4\<lparr>gc_maximum_stream_bytes := 1048576\<rparr> else c4);
          c6 = (if gc_strategy c5 = '''' then c5\<lparr>gc_strategy := weighted_round_robin\<rparr> else c5)
      in \<lparr>sv_limiter = lmt, sv_config = c6\<rparr>)"

record outcome =
  ou_record :: req_record
  ou_response :: "chat_response option"
  ou_replayed :: bool
  ou_pending :: bool

text \<open>The arguments of \<open>Submit\<close> and \<open>Stream\<close>; a streaming call has a callback.\<close>

record call_args =
  ca_principal :: principal
  ca_key :: string
  ca_correlation :: string
  ca_input :: chat_input
  ca_streaming :: bool

definition ca_tenant :: "call_args \<Rightarrow> string" where
  "ca_tenant a = pr_tenant (ca_principal a)"

subsection \<open>Helpers\<close>

definition estimate_prompt_tokens :: "message list \<Rightarrow> int" where
  "estimate_prompt_tokens messages = go_quo (content_bytes messages + 3) 4"

definition error_category :: "go_error \<Rightarrow> string" where
  "error_category err =
     (case errors_as_provider err of
        Some pe \<Rightarrow> pe_category pe
      | None \<Rightarrow>
          if errors_is err CtxCanceled then ''cancelled''
          else if errors_is err CtxDeadlineExceeded then ''deadline_exceeded''
          else ''provider_unavailable'')"

definition build_response :: "string \<Rightarrow> string \<Rightarrow> go_time \<Rightarrow> completion \<Rightarrow> chat_response" where
  "build_response i model now c =
     \<lparr>cr_id = ''chatcmpl-'' @ i, cr_object = ''chat.completion'', cr_created = unix_seconds now, cr_model = model,
      cr_choices = [\<lparr>ch_index = 0, ch_message = \<lparr>msg_role = ''assistant'', msg_content = cp_content c\<rparr>,
                     ch_finish_reason = cp_finish_reason c\<rparr>],
      cr_usage = cp_usage c, cr_aegis = \<lparr>rm_request_id = i, rm_status = Completed\<rparr>\<rparr>"

definition backoff_delay :: "duration \<Rightarrow> duration \<Rightarrow> int \<Rightarrow> duration" where
  "backoff_delay initial maximum attempt =
     (let delay = i64 (initial * 2 ^ nat (attempt - 1))
      in if delay > maximum then maximum else delay)"

definition backoff_time :: "duration \<Rightarrow> nat \<Rightarrow> duration" where
  "backoff_time delay rnd =
     go_quo delay 2 + int (rnd mod nat (max nanosecond (go_quo delay 2)))"

definition wait_backoff ::
  "'w world_ops \<Rightarrow> duration \<Rightarrow> duration \<Rightarrow> int \<Rightarrow> ('s, 'w) gw \<Rightarrow> go_error option \<times> ('s, 'w) gw" where
  "wait_backoff wo initial maximum attempt g =
     (case on_world (wo_random wo) g of
        (rnd, g1) \<Rightarrow> on_world (wo_sleep wo (backoff_time (backoff_delay initial maximum attempt) rnd)) g1)"

subsection \<open>Permits\<close>

fun release_permits :: "'w world_ops \<Rightarrow> permit option list \<Rightarrow> ('s, 'w) gw \<Rightarrow> ('s, 'w) gw" where
  "release_permits wo [] g = g"
| "release_permits wo (p # ps) g =
     (case on_world (wo_redis wo) g of
        ((net, now), g1) \<Rightarrow>
          (case permit_release net now p (gw_redis g1) of
             (e, p', r') \<Rightarrow> release_permits wo ps (g1\<lparr>gw_redis := r'\<rparr>)))"

fun admit_buckets ::
  "'w world_ops \<Rightarrow> limiter \<Rightarrow> limits \<Rightarrow> int \<Rightarrow> string list \<Rightarrow> permit option list \<Rightarrow> ('s, 'w) gw
     \<Rightarrow> (go_error + permit option list) \<times> ('s, 'w) gw" where
  "admit_buckets wo lmt lims est [] permits g = (Inr permits, g)"
| "admit_buckets wo lmt lims est (bucket # rest) permits g =
     (case on_world (wo_now wo) g of
        (clock, g1) \<Rightarrow>
          (case on_world (wo_redis wo) g1 of
             ((net, now), g2) \<Rightarrow>
               (case limiter_allow lmt net clock now bucket lims est (2 * minute) (gw_redis g2) of
                  (Inl e, r') \<Rightarrow> (Inl e, release_permits wo permits (g2\<lparr>gw_redis := r'\<rparr>))
                | (Inr (d, p), r') \<Rightarrow>
                    if \<not> dc_allowed d
                    then (Inl (ErrMsg (''rate limit rejected: '' @ dc_reason d)),
                          release_permits wo permits (g2\<lparr>gw_redis := r'\<rparr>))
                    else admit_buckets wo lmt lims est rest (permits @ [p]) (g2\<lparr>gw_redis := r'\<rparr>))))"

definition admit ::
  "'w world_ops \<Rightarrow> service \<Rightarrow> principal \<Rightarrow> tenant_policy \<Rightarrow> int \<Rightarrow> ('s, 'w) gw
     \<Rightarrow> (go_error + permit option list) \<times> ('s, 'w) gw" where
  "admit wo sv pr policy est g =
     (case sv_limiter sv of
        None \<Rightarrow> (Inr [], g)
      | Some lmt \<Rightarrow>
          admit_buckets wo lmt
            \<lparr>lm_requests_per_minute = tp_requests_per_minute policy, lm_tokens_per_minute = tp_tokens_per_minute policy,
             lm_max_concurrent = tp_max_concurrent policy\<rparr>
            est [''tenant:'' @ pr_tenant pr, ''key:'' @ pr_api_key pr] [] g)"

subsection \<open>One provider call\<close>

definition stream_emit ::
  "'w world_ops \<Rightarrow> int \<Rightarrow> chunk \<Rightarrow> string \<times> bool \<times> 'w \<Rightarrow> go_error option \<times> (string \<times> bool \<times> 'w)" where
  "stream_emit wo limit ck st =
     (case st of (content, partial, w) \<Rightarrow>
        if int (length content) + int (length (ck_content ck)) > limit
        then (Some (ErrMsg ''stream exceeded bounded response size''), st)
        else
          case wo_emit wo ck w of
            (r, w') \<Rightarrow>
              if ck_content ck \<noteq> '''' then (r, (content @ ck_content ck, True, w'))
              else (r, (content, partial, w')))"

definition call_provider ::
  "'w world_ops \<Rightarrow> service \<Rightarrow> string \<Rightarrow> duration \<Rightarrow> string \<Rightarrow> call_args \<Rightarrow> ('s, 'w) gw
     \<Rightarrow> ((go_error + completion) \<times> bool) \<times> ('s, 'w) gw" where
  "call_provider wo sv name timeout i a g =
     (let inp = ca_input a;
          cq = \<lparr>cq_request_id = i, cq_model = ci_model inp, cq_messages = ci_messages inp,
                cq_temperature = ci_temperature inp, cq_max_tokens = ci_max_tokens inp\<rparr>
      in if \<not> ca_streaming a
         then case wo_complete wo name timeout cq (gw_world g) of
           (res, w') \<Rightarrow> ((res, False), g\<lparr>gw_world := w', gw_calls := gw_calls g @ [(name, False)]\<rparr>)
         else case wo_stream wo name timeout cq (gw_world g) of
           (act, w1) \<Rightarrow>
             (case run_stream (stream_emit wo (gc_maximum_stream_bytes (sv_config sv))) act ('''', False, w1) of
                (res, (content, partial, w2)) \<Rightarrow>
                  (((case res of
                       Inl e \<Rightarrow> Inl e
                     | Inr u \<Rightarrow> Inr \<lparr>cp_provider_request_id = '''', cp_model = ci_model inp, cp_content = content,
                                      cp_finish_reason = ''stop'', cp_usage = u\<rparr>), partial),
                   g\<lparr>gw_world := w2, gw_calls := gw_calls g @ [(name, partial)]\<rparr>)))"

subsection \<open>The attempt loop\<close>

text \<open>
  How the loop over the attempts is left: by a return from \<open>execute\<close>, or by its end or a \<open>break\<close> with the
  variables \<open>lastErr\<close> and \<open>finalized\<close>. A panic unwinds as a return; the lease of the attempt is then kept.
  One iteration leaves the loop or goes on, with the provider it used and its error.
\<close>

datatype loop_end = Returned "go_error + outcome" | Ended "go_error option" bool

datatype iteration = Leave loop_end | Again string go_error

definition give_back :: "'w world_ops \<Rightarrow> bool \<Rightarrow> lease \<Rightarrow> ('s, 'w) gw \<Rightarrow> ('s, 'w) gw" where
  "give_back wo retryable l g =
     (case on_world (wo_now wo) g of
        (now, g1) \<Rightarrow> snd (on_router (lease_failure retryable now l) g1))"

text \<open>The branch for a provider call without error.\<close>

definition accept_completion ::
  "'s store_ops \<Rightarrow> 'w world_ops \<Rightarrow> call_args \<Rightarrow> req_record \<Rightarrow> int \<Rightarrow> lease \<Rightarrow> go_time \<Rightarrow> completion \<Rightarrow> ('s, 'w) gw
     \<Rightarrow> (go_error + outcome) \<times> ('s, 'w) gw" where
  "accept_completion so wo a r number l start c g =
     (case cost_micro_usd (prompt_tokens (cp_usage c)) (completion_tokens (cp_usage c)) (ls_input_cost l) (ls_output_cost l) of
        Inl e \<Rightarrow> (Inl e, give_back wo False l g)
      | Inr cost \<Rightarrow>
        (case on_world (wo_now wo) g of
           (now, g1) \<Rightarrow>
           let response = build_response (rec_id r) (ci_model (ca_input a)) now c in
           (case on_store (so_complete so \<lparr>cmp_request = rec_id r, cmp_tenant = ca_tenant a, cmp_number = number,
                    cmp_provider_request = cp_provider_request_id c, cmp_response = response, cmp_cost = cost,
                    cmp_started_at = start, cmp_correlation = ca_correlation a\<rparr>) g1 of
              (Some e, g2) \<Rightarrow> if is_panic e then (Inl e, g2) else (Inl e, give_back wo False l g2)
            | (None, g2) \<Rightarrow>
              (case on_world (wo_now wo) g2 of
                 (end_time, g3) \<Rightarrow>
                 let g4 = snd (on_router (lease_success (time_sub end_time start) l) g3);
                     g5 = snd (on_store (so_reconcile so (rec_id r) cost) g4)
                 in (Inr \<lparr>ou_record = r\<lparr>rec_state := Completed, rec_response := Some response, rec_cost := cost\<rparr>,
                          ou_response = Some response, ou_replayed = False, ou_pending = False\<rparr>, g5)))))"

text \<open>The branch for a provider call that failed.\<close>

definition reject_completion ::
  "'s store_ops \<Rightarrow> 'w world_ops \<Rightarrow> service \<Rightarrow> call_args \<Rightarrow> req_record \<Rightarrow> int \<Rightarrow> lease \<Rightarrow> go_time \<Rightarrow> go_error \<Rightarrow> bool
     \<Rightarrow> ('s, 'w) gw \<Rightarrow> iteration \<times> ('s, 'w) gw" where
  "reject_completion so wo sv a r number l start e partial g =
     (let retryable = (is_retryable e \<and> \<not> partial \<and> number < gc_max_attempts (sv_config sv));
          g1 = give_back wo retryable l g
      in case on_store (so_fail_attempt so \<lparr>fap_request = rec_id r, fap_tenant = ca_tenant a,
                fap_number = number, fap_category = error_category e, fap_retryable = retryable,
                fap_partial = partial, fap_final = (\<not> retryable), fap_started_at = start,
                fap_correlation = ca_correlation a\<rparr>) g1 of
           (Some e', g2) \<Rightarrow> (Leave (Returned (Inl e')), g2)
         | (None, g2) \<Rightarrow>
             if \<not> retryable then (Leave (Ended (Some e) True), g2)
             else case wait_backoff wo (gc_initial_backoff (sv_config sv)) (gc_maximum_backoff (sv_config sv)) number g2 of
               (Some e', g3) \<Rightarrow> (Leave (Ended (Some e') False), g3)
             | (None, g3) \<Rightarrow> (Again (ls_provider l) e, g3))"

text \<open>The body of the loop.\<close>

definition attempt ::
  "'s store_ops \<Rightarrow> 'w world_ops \<Rightarrow> service \<Rightarrow> call_args \<Rightarrow> req_record \<Rightarrow> selection \<Rightarrow> int \<Rightarrow> string set
     \<Rightarrow> ('s, 'w) gw \<Rightarrow> iteration \<times> ('s, 'w) gw" where
  "attempt so wo sv a r sel number excluded g =
     (case on_world (wo_now wo) g of
        (now, g1) \<Rightarrow>
        (case on_router (select now (sel\<lparr>sl_excluded := excluded, sl_now := now\<rparr>)) g1 of
           (Inl e, g2) \<Rightarrow> (Leave (if is_panic e then Returned (Inl e) else Ended (Some e) False), g2)
         | (Inr l, g2) \<Rightarrow>
           (case on_store (so_start_attempt so \<lparr>atp_request = rec_id r, atp_tenant = ca_tenant a, atp_number = number,
                    atp_provider = ls_provider l, atp_model = ci_model (ca_input a),
                    atp_correlation = ca_correlation a\<rparr>) g2 of
              (Some e, g3) \<Rightarrow> (Leave (Returned (Inl e)), give_back wo False l g3)
            | (None, g3) \<Rightarrow>
              (case on_world (wo_now wo) g3 of
                 (start, g4) \<Rightarrow>
                 (case call_provider wo sv (ls_provider l) (ls_timeout l) (rec_id r) a g4 of
                    ((Inr c, partial), g5) \<Rightarrow>
                      (case accept_completion so wo a r number l start c g5 of (res, g6) \<Rightarrow> (Leave (Returned res), g6))
                  | ((Inl e, partial), g5) \<Rightarrow>
                      if is_panic e then (Leave (Returned (Inl e)), g5)
                      else reject_completion so wo sv a r number l start e partial g5)))))"

text \<open>The loop; \<open>left\<close> counts the iterations that \<open>MaxAttempts\<close> still allows.\<close>

fun attempts ::
  "'s store_ops \<Rightarrow> 'w world_ops \<Rightarrow> service \<Rightarrow> call_args \<Rightarrow> req_record \<Rightarrow> selection \<Rightarrow> nat \<Rightarrow> int
     \<Rightarrow> string set \<Rightarrow> go_error option \<Rightarrow> ('s, 'w) gw \<Rightarrow> loop_end \<times> ('s, 'w) gw" where
  "attempts so wo sv a r sel 0 number excluded last_err g = (Ended last_err False, g)"
| "attempts so wo sv a r sel (Suc left) number excluded last_err g =
     (case attempt so wo sv a r sel number excluded g of
        (Leave e, g') \<Rightarrow> (e, g')
      | (Again name e, g') \<Rightarrow> attempts so wo sv a r sel left (number + 1) (insert name excluded) (Some e) g')"

subsection \<open>The request\<close>

text \<open>What follows the loop.\<close>

definition finish_failed ::
  "'s store_ops \<Rightarrow> 'w world_ops \<Rightarrow> call_args \<Rightarrow> req_record \<Rightarrow> go_error option \<Rightarrow> bool \<Rightarrow> ('s, 'w) gw
     \<Rightarrow> (go_error + outcome) \<times> ('s, 'w) gw" where
  "finish_failed so wo a r last_err finalized g =
     (let err = (case last_err of None \<Rightarrow> ErrNoEligibleProvider | Some e \<Rightarrow> e);
          g1 = (if finalized then g
                else case on_world (wo_now wo) g of
                  (now, g0) \<Rightarrow>
                    snd (on_store (so_fail_attempt so \<lparr>fap_request = rec_id r, fap_tenant = ca_tenant a, fap_number = 0,
                      fap_category = error_category err, fap_retryable = False, fap_partial = False, fap_final = True,
                      fap_started_at = now, fap_correlation = ca_correlation a\<rparr>) g0));
          g2 = snd (on_store (so_reconcile so (rec_id r) 0) g1)
      in (Inl err, g2))"

definition route_request ::
  "'s store_ops \<Rightarrow> 'w world_ops \<Rightarrow> service \<Rightarrow> call_args \<Rightarrow> req_record \<Rightarrow> selection \<Rightarrow> ('s, 'w) gw
     \<Rightarrow> (go_error + outcome) \<times> ('s, 'w) gw" where
  "route_request so wo sv a r sel g =
     (case attempts so wo sv a r sel (nat (gc_max_attempts (sv_config sv))) 1 {} None g of
        (Returned res, g1) \<Rightarrow> (res, g1)
      | (Ended last_err finalized, g1) \<Rightarrow> finish_failed so wo a r last_err finalized g1)"

definition max_completion :: "service \<Rightarrow> chat_input \<Rightarrow> int" where
  "max_completion sv inp = (if ci_max_tokens inp = 0 then gc_default_max_tokens (sv_config sv) else ci_max_tokens inp)"

definition selection_for :: "service \<Rightarrow> chat_input \<Rightarrow> tenant_policy \<Rightarrow> selection" where
  "selection_for sv inp policy =
     \<lparr>sl_model = ci_model inp, sl_classification = tp_classification policy, sl_allowed = tp_allowed policy,
      sl_excluded = {}, sl_strategy = gc_strategy (sv_config sv), sl_now = 0\<rparr>"

text \<open>From the prices to the end of the request, with the permits held.\<close>

definition reserve_and_route ::
  "'s store_ops \<Rightarrow> 'w world_ops \<Rightarrow> service \<Rightarrow> call_args \<Rightarrow> req_record \<Rightarrow> tenant_policy \<Rightarrow> ('s, 'w) gw
     \<Rightarrow> (go_error + outcome) \<times> ('s, 'w) gw" where
  "reserve_and_route so wo sv a r policy g =
     (let inp = ca_input a; i = rec_id r; t = ca_tenant a; sel = selection_for sv inp policy in
      case highest_prices sel (gw_router g) of
        Inl e \<Rightarrow> (Inl e, snd (on_store (so_transition so t i Validated Failed) g))
      | Inr (in_price, out_price) \<Rightarrow>
        (case cost_micro_usd (estimate_prompt_tokens (ci_messages inp)) (max_completion sv inp) in_price out_price of
           Inl e \<Rightarrow> (Inl e, g)
         | Inr reservation \<Rightarrow>
           (case on_world (wo_now wo) g of
              (now, g1) \<Rightarrow>
              (case on_store (so_reserve so t i reservation now) g1 of
                 (Some e, g2) \<Rightarrow>
                   if errors_is e ErrExceeded
                   then (Inl e, snd (on_store (so_reject so t i (ca_correlation a) reservation) g2))
                   else (Inl e, g2)
               | (None, g2) \<Rightarrow>
                 (case on_store (so_transition so t i Validated Routing) g2 of
                    (Some e, g3) \<Rightarrow> (Inl e, g3)
                  | (None, g3) \<Rightarrow>
                    (case on_store (so_transition so t i Routing InProgress) g3 of
                       (Some e, g4) \<Rightarrow> (Inl e, g4)
                     | (None, g4) \<Rightarrow>
                       route_request so wo sv a r sel g4))))))"

text \<open>A request that this call created.\<close>

definition run_created ::
  "'s store_ops \<Rightarrow> 'w world_ops \<Rightarrow> service \<Rightarrow> call_args \<Rightarrow> req_record \<Rightarrow> ('s, 'w) gw
     \<Rightarrow> (go_error + outcome) \<times> ('s, 'w) gw" where
  "run_created so wo sv a r g =
     (let inp = ca_input a; i = rec_id r; t = ca_tenant a in
      case on_store (so_transition so t i Received Validated) g of
        (Some e, g1) \<Rightarrow> (Inl e, g1)
      | (None, g1) \<Rightarrow>
        (case on_store (so_policy so t (ci_model inp)) g1 of
           (Inl e, g2) \<Rightarrow> (Inl e, snd (on_store (so_transition so t i Validated Failed) g2))
         | (Inr policy, g2) \<Rightarrow>
           (case admit wo sv (ca_principal a) policy
                   (i64 (estimate_prompt_tokens (ci_messages inp) + max_completion sv inp)) g2 of
              (Inl e, g3) \<Rightarrow> (Inl e, snd (on_store (so_transition so t i Validated Failed) g3))
            | (Inr permits, g3) \<Rightarrow>
              (case reserve_and_route so wo sv a r policy g3 of
                 (res, g4) \<Rightarrow> (res, release_permits wo permits g4)))))"

definition execute ::
  "'s store_ops \<Rightarrow> 'w world_ops \<Rightarrow> service \<Rightarrow> call_args \<Rightarrow> ('s, 'w) gw \<Rightarrow> (go_error + outcome) \<times> ('s, 'w) gw" where
  "execute so wo sv a g =
     (let inp = ca_input a in
      case validate inp of
        Some e \<Rightarrow> (Inl e, g)
      | None \<Rightarrow>
        (case hash_chat (wo_marshal wo) (wo_sum256 wo) inp of
           Inl e \<Rightarrow> (Inl e, g)
         | Inr hash \<Rightarrow>
           (case on_store (so_create so \<lparr>cre_tenant = ca_tenant a, cre_api_key = pr_api_key (ca_principal a),
                    cre_user = pr_user (ca_principal a), cre_idempotency_key = ca_key a, cre_hash = hash,
                    cre_input = inp, cre_correlation = ca_correlation a\<rparr>) g of
              (Inl e, g1) \<Rightarrow> (Inl e, g1)
            | (Inr (r, created), g1) \<Rightarrow>
                if \<not> created then
                  if rec_response r \<noteq> None \<and> rec_state r = Completed
                  then (Inr \<lparr>ou_record = r, ou_response = rec_response r, ou_replayed = True, ou_pending = False\<rparr>, g1)
                  else (Inr \<lparr>ou_record = r, ou_response = None, ou_replayed = True, ou_pending = True\<rparr>, g1)
                else run_created so wo sv a r g1)))"

definition submit ::
  "'s store_ops \<Rightarrow> 'w world_ops \<Rightarrow> service \<Rightarrow> call_args \<Rightarrow> ('s, 'w) gw \<Rightarrow> (go_error + outcome) \<times> ('s, 'w) gw" where
  "submit so wo sv a g = execute so wo sv (a\<lparr>ca_streaming := False\<rparr>) g"

text \<open>\<open>has_emitter\<close> tells whether the callback is non-nil.\<close>

definition stream_request ::
  "'s store_ops \<Rightarrow> 'w world_ops \<Rightarrow> service \<Rightarrow> bool \<Rightarrow> call_args \<Rightarrow> ('s, 'w) gw \<Rightarrow> (go_error + outcome) \<times> ('s, 'w) gw" where
  "stream_request so wo sv has_emitter a g =
     (if \<not> has_emitter then (Inl (ErrMsg ''stream emitter is required''), g)
      else execute so wo sv (a\<lparr>ca_streaming := True\<rparr>) g)"

definition service_get :: "'s store_ops \<Rightarrow> string \<Rightarrow> string \<Rightarrow> ('s, 'w) gw \<Rightarrow> (go_error + req_record) \<times> ('s, 'w) gw" where
  "service_get so tenant i = on_store (so_get so tenant i)"

definition service_cancel ::
  "'s store_ops \<Rightarrow> string \<Rightarrow> string \<Rightarrow> string \<Rightarrow> ('s, 'w) gw \<Rightarrow> go_error option \<times> ('s, 'w) gw" where
  "service_cancel so tenant i correlation = on_store (so_cancel so tenant i correlation)"

end
