(* ===== verification/Gateway_Paths.thy ===== *)
theory Gateway_Paths
  imports Gateway
begin

text \<open>
  The ways through a request of the gateway, as case rules for each part of \<open>execute\<close>, a rule for the
  attempt loop, and the frame of the store operations along every path.
\<close>

subsection \<open>Frames of the store\<close>

text \<open>
  A relation between store states that is closed under the operations of one request; every part of the
  request's execution then stays in it.
\<close>

locale store_frame =
  fixes so :: "'s store_ops" and t i :: string and R :: "'s \<Rightarrow> 's \<Rightarrow> bool"
  assumes frame_refl: "R s s"
    and frame_trans: "R s s' \<Longrightarrow> R s' s'' \<Longrightarrow> R s s''"
    and frame_transition: "so_transition so t i x y s = (e, s') \<Longrightarrow> R s s'"
    and frame_policy: "so_policy so t m s = (pol, s') \<Longrightarrow> R s s'"
    and frame_start: "so_start_attempt so ap s = (e, s') \<Longrightarrow> atp_request ap = i \<Longrightarrow> atp_tenant ap = t \<Longrightarrow> R s s'"
    and frame_complete: "so_complete so cp s = (e, s') \<Longrightarrow> cmp_request cp = i \<Longrightarrow> cmp_tenant cp = t \<Longrightarrow> R s s'"
    and frame_fail: "so_fail_attempt so fp s = (e, s') \<Longrightarrow> fap_request fp = i \<Longrightarrow> fap_tenant fp = t \<Longrightarrow> R s s'"
    and frame_reserve: "so_reserve so t i n now s = (e, s') \<Longrightarrow> R s s'"
    and frame_reject: "so_reject so t i c n s = (e, s') \<Longrightarrow> R s s'"
    and frame_reconcile: "so_reconcile so i n s = (e, s') \<Longrightarrow> R s s'"
begin

lemmas frame_ops = frame_transition frame_policy frame_start frame_complete frame_fail frame_reserve
  frame_reject frame_reconcile

end

subsection \<open>What the parts leave alone\<close>

definition same_core :: "('s, 'w) gw \<Rightarrow> ('s, 'w) gw \<Rightarrow> bool" where
  "same_core g g' \<longleftrightarrow> gw_store g' = gw_store g \<and> gw_router g' = gw_router g \<and> gw_calls g' = gw_calls g"

lemma same_core_refl [simp]: "same_core g g"
  by (simp add: same_core_def)

lemma same_core_trans: "same_core a b \<Longrightarrow> same_core b c \<Longrightarrow> same_core a c"
  by (simp add: same_core_def)

lemma same_core_upd [simp]:
  "same_core (g\<lparr>gw_redis := x\<rparr>) g' = same_core g g'" "same_core (g\<lparr>gw_world := w\<rparr>) g' = same_core g g'"
  "same_core g (g'\<lparr>gw_redis := x\<rparr>) = same_core g g'" "same_core g (g'\<lparr>gw_world := w\<rparr>) = same_core g g'"
  by (simp_all add: same_core_def)

lemma same_core_wait_backoff: "wait_backoff wo d m n g = (e, g') \<Longrightarrow> same_core g g'"
  by (auto simp: wait_backoff_def on_world_def split: prod.splits)

lemma same_core_release_permits: "same_core g (release_permits wo ps g)"
  by (induction wo ps g rule: release_permits.induct)
     (force simp: on_world_def split: prod.splits)+

lemma same_core_admit_buckets: "admit_buckets wo lmt lims est bs ps g = (res, g') \<Longrightarrow> same_core g g'"
proof (induction wo lmt lims est bs ps g rule: admit_buckets.induct)
  case (2 wo lmt lims est bucket rest permits g)
  have "same_core g (release_permits wo permits (g\<lparr>gw_world := w, gw_redis := r\<rparr>))" for w r
    using same_core_release_permits [of "g\<lparr>gw_world := w, gw_redis := r\<rparr>" wo permits] by simp
  with 2 show ?case
    by (auto simp: on_world_def split: prod.splits sum.splits if_splits)
qed simp

lemma same_core_admit: "admit wo sv p policy est g = (res, g') \<Longrightarrow> same_core g g'"
  unfolding admit_def by (cases "sv_limiter sv") (auto simp del: admit_buckets.simps intro: same_core_admit_buckets)

lemma call_provider_fields:
  assumes "call_provider wo sv name timeout i a g = ((res, partial), g')"
  shows "gw_store g' = gw_store g" "gw_router g' = gw_router g" "gw_redis g' = gw_redis g"
    "gw_calls g' = gw_calls g @ [(name, partial)]"
  using assms by (auto simp: call_provider_def Let_def split: if_splits prod.splits)

lemma give_back_fields [simp]:
  "gw_store (give_back wo b l g) = gw_store g" "gw_calls (give_back wo b l g) = gw_calls g"
  "gw_redis (give_back wo b l g) = gw_redis g"
  by (simp_all add: give_back_def on_world_def on_router_def split: prod.splits)

lemma give_back_router: "\<exists>now. gw_router (give_back wo b l g) = snd (lease_failure b now l (gw_router g))"
proof -
  obtain now w where "wo_now wo (gw_world g) = (now, w)" by fastforce
  then show ?thesis by (auto simp: give_back_def on_world_def on_router_def split: prod.splits intro!: exI [of _ now])
qed

subsection \<open>One iteration\<close>

text \<open>
  The three ways through the body of the loop: no lease, an attempt the store refused, a provider call.
\<close>

lemma attempt_cases:
  assumes "attempt so wo sv a r sel number excluded g = (it, g')"
  obtains
    (no_lease) now w e rt where
      "select now (sel\<lparr>sl_excluded := excluded, sl_now := now\<rparr>) (gw_router g) = (Inl e, rt)"
      "it = Leave (if is_panic e then Returned (Inl e) else Ended (Some e) False)"
      "g' = g\<lparr>gw_world := w, gw_router := rt\<rparr>"
  | (refused) now w l rt s e where
      "select now (sel\<lparr>sl_excluded := excluded, sl_now := now\<rparr>) (gw_router g) = (Inr l, rt)"
      "so_start_attempt so \<lparr>atp_request = rec_id r, atp_tenant = ca_tenant a, atp_number = number,
         atp_provider = ls_provider l, atp_model = ci_model (ca_input a), atp_correlation = ca_correlation a\<rparr> (gw_store g)
         = (Some e, s)"
      "it = Leave (Returned (Inl e))"
      "g' = give_back wo False l (g\<lparr>gw_world := w, gw_router := rt, gw_store := s\<rparr>)"
  | (called) now l rt s start g4 res partial g5 where
      "select now (sel\<lparr>sl_excluded := excluded, sl_now := now\<rparr>) (gw_router g) = (Inr l, rt)"
      "so_start_attempt so \<lparr>atp_request = rec_id r, atp_tenant = ca_tenant a, atp_number = number,
         atp_provider = ls_provider l, atp_model = ci_model (ca_input a), atp_correlation = ca_correlation a\<rparr> (gw_store g)
         = (None, s)"
      "call_provider wo sv (ls_provider l) (ls_timeout l) (rec_id r) a g4 = ((res, partial), g5)"
      "gw_store g5 = s" "gw_router g5 = rt" "gw_redis g5 = gw_redis g" "gw_calls g5 = gw_calls g @ [(ls_provider l, partial)]"
      "case res of
         Inr c \<Rightarrow> \<exists>x. accept_completion so wo a r number l start c g5 = (x, g') \<and> it = Leave (Returned x)
       | Inl e \<Rightarrow> if is_panic e then it = Leave (Returned (Inl e)) \<and> g' = g5
                else reject_completion so wo sv a r number l start e partial g5 = (it, g')"
proof -
  obtain now w where now: "wo_now wo (gw_world g) = (now, w)" by fastforce
  obtain sl rt where sl: "select now (sel\<lparr>sl_excluded := excluded, sl_now := now\<rparr>) (gw_router g) = (sl, rt)" by fastforce
  show thesis
  proof (cases sl)
    case (Inl e)
    with assms now sl show thesis
      by (intro no_lease [of now e rt w]) (auto simp: attempt_def on_world_def on_router_def)
  next
    case (Inr l)
    let ?ap = "\<lparr>atp_request = rec_id r, atp_tenant = ca_tenant a, atp_number = number,
         atp_provider = ls_provider l, atp_model = ci_model (ca_input a), atp_correlation = ca_correlation a\<rparr>"
    obtain o1 s where s: "so_start_attempt so ?ap (gw_store g) = (o1, s)" by fastforce
    show thesis
    proof (cases o1)
      case (Some e)
      with assms now sl s Inr show thesis
        by (intro refused [of now l rt e s w]) (auto simp: attempt_def on_world_def on_router_def on_store_def)
    next
      case None
      obtain start w2 where start: "wo_now wo w = (start, w2)" by fastforce
      let ?g4 = "g\<lparr>gw_router := rt, gw_store := s, gw_world := w2\<rparr>"
      obtain res partial g5 where
        call: "call_provider wo sv (ls_provider l) (ls_timeout l) (rec_id r) a ?g4 = ((res, partial), g5)"
        by (metis surj_pair)
      note fields = call_provider_fields [OF call]
      show thesis
        using sl Inr s None
        by (intro called [OF _ _ call, of now rt s start])
          (use assms now sl s Inr None start call fields in
            \<open>auto simp: attempt_def on_world_def on_router_def on_store_def split: sum.splits prod.splits if_splits\<close>)
    qed
  qed
qed

lemma accept_cases:
  assumes "accept_completion so wo a r number l start c g = (res, g')"
  obtains
    (no_price) e where "res = Inl e" "g' = give_back wo False l g"
      "cost_micro_usd (prompt_tokens (cp_usage c)) (completion_tokens (cp_usage c)) (ls_input_cost l) (ls_output_cost l) = Inl e"
  | (refused) e now cost w s where "res = Inl e"
      "cost_micro_usd (prompt_tokens (cp_usage c)) (completion_tokens (cp_usage c)) (ls_input_cost l) (ls_output_cost l) = Inr cost"
      "so_complete so \<lparr>cmp_request = rec_id r, cmp_tenant = ca_tenant a, cmp_number = number,
         cmp_provider_request = cp_provider_request_id c, cmp_response = build_response (rec_id r) (ci_model (ca_input a)) now c,
         cmp_cost = cost, cmp_started_at = start, cmp_correlation = ca_correlation a\<rparr> (gw_store g) = (Some e, s)"
      "g' = (if is_panic e then g\<lparr>gw_world := w, gw_store := s\<rparr> else give_back wo False l (g\<lparr>gw_world := w, gw_store := s\<rparr>))"
  | (accepted) now end_time cost w s e2 s2 response where
      "cost_micro_usd (prompt_tokens (cp_usage c)) (completion_tokens (cp_usage c)) (ls_input_cost l) (ls_output_cost l) = Inr cost"
      "response = build_response (rec_id r) (ci_model (ca_input a)) now c"
      "so_complete so \<lparr>cmp_request = rec_id r, cmp_tenant = ca_tenant a, cmp_number = number,
         cmp_provider_request = cp_provider_request_id c, cmp_response = response,
         cmp_cost = cost, cmp_started_at = start, cmp_correlation = ca_correlation a\<rparr> (gw_store g) = (None, s)"
      "so_reconcile so (rec_id r) cost s = (e2, s2)"
      "res = Inr \<lparr>ou_record = r\<lparr>rec_state := Completed, rec_response := Some response, rec_cost := cost\<rparr>,
                  ou_response = Some response, ou_replayed = False, ou_pending = False\<rparr>"
      "g' = g\<lparr>gw_world := w, gw_store := s2,
              gw_router := snd (lease_success (time_sub end_time start) l (gw_router g))\<rparr>"
proof (cases "cost_micro_usd (prompt_tokens (cp_usage c)) (completion_tokens (cp_usage c)) (ls_input_cost l) (ls_output_cost l)")
  case (Inl e)
  with assms show thesis by (intro no_price) (auto simp: accept_completion_def)
next
  case (Inr cost)
  obtain now w where now: "wo_now wo (gw_world g) = (now, w)" by fastforce
  define response where "response = build_response (rec_id r) (ci_model (ca_input a)) now c"
  obtain o1 s where s: "so_complete so \<lparr>cmp_request = rec_id r, cmp_tenant = ca_tenant a, cmp_number = number,
         cmp_provider_request = cp_provider_request_id c, cmp_response = response,
         cmp_cost = cost, cmp_started_at = start, cmp_correlation = ca_correlation a\<rparr> (gw_store g) = (o1, s)" by fastforce
  show thesis
  proof (cases o1)
    case (Some e)
    with assms Inr now s show thesis
      by (intro refused [of e cost now s w])
        (auto simp: accept_completion_def on_world_def on_store_def Let_def response_def split: if_splits)
  next
    case None
    obtain end_time w2 where e: "wo_now wo w = (end_time, w2)" by fastforce
    obtain e2 s2 where "so_reconcile so (rec_id r) cost s = (e2, s2)" by fastforce
    with assms Inr now s None e show thesis
      by (intro accepted [of cost response now s e2 s2 end_time w2])
        (auto simp: accept_completion_def on_world_def on_store_def on_router_def Let_def response_def split: prod.splits)
  qed
qed

lemma reject_cases:
  assumes "reject_completion so wo sv a r number l start e partial g = (it, g')"
  obtains retryable fp o1 where
    "retryable \<longleftrightarrow> is_retryable e \<and> \<not> partial \<and> number < gc_max_attempts (sv_config sv)"
    "fp = \<lparr>fap_request = rec_id r, fap_tenant = ca_tenant a, fap_number = number, fap_category = error_category e,
           fap_retryable = retryable, fap_partial = partial, fap_final = (\<not> retryable), fap_started_at = start,
           fap_correlation = ca_correlation a\<rparr>"
    "so_fail_attempt so fp (gw_store g) = (o1, gw_store g')"
    "gw_router g' = gw_router (give_back wo retryable l g)" "gw_calls g' = gw_calls g"
    "case o1 of
       Some e' \<Rightarrow> it = Leave (Returned (Inl e'))
     | None \<Rightarrow> if \<not> retryable then it = Leave (Ended (Some e) True)
              else it = Again (ls_provider l) e \<or> (\<exists>e'. it = Leave (Ended (Some e') False))"
proof -
  define retryable where "retryable = (is_retryable e \<and> \<not> partial \<and> number < gc_max_attempts (sv_config sv))"
  define fp where "fp = \<lparr>fap_request = rec_id r, fap_tenant = ca_tenant a, fap_number = number, fap_category = error_category e,
           fap_retryable = retryable, fap_partial = partial, fap_final = (\<not> retryable), fap_started_at = start,
           fap_correlation = ca_correlation a\<rparr>"
  obtain o1 s where s: "so_fail_attempt so fp (gw_store g) = (o1, s)" by fastforce
  let ?g2 = "(give_back wo retryable l g)\<lparr>gw_store := s\<rparr>"
  obtain o2 g3 where wait: "wait_backoff wo (gc_initial_backoff (sv_config sv)) (gc_maximum_backoff (sv_config sv))
      number ?g2 = (o2, g3)" by fastforce
  have g3: "gw_store g3 = s" "gw_router g3 = gw_router (give_back wo retryable l g)" "gw_calls g3 = gw_calls g"
    using same_core_wait_backoff [OF wait] by (simp_all add: same_core_def)
  have rej: "(it, g') =
      (case o1 of
         Some e' \<Rightarrow> (Leave (Returned (Inl e')), ?g2)
       | None \<Rightarrow> if \<not> retryable then (Leave (Ended (Some e) True), ?g2)
                else (case o2 of Some e' \<Rightarrow> Leave (Ended (Some e') False) | None \<Rightarrow> Again (ls_provider l) e, g3))"
    using assms s wait
    by (auto simp: reject_completion_def Let_def on_store_def fp_def retryable_def split: option.splits if_splits)
  show thesis
  proof (rule that)
    show "so_fail_attempt so fp (gw_store g) = (o1, gw_store g')"
      using rej s g3 by (auto split: option.splits if_splits)
    show "case o1 of
       Some e' \<Rightarrow> it = Leave (Returned (Inl e'))
     | None \<Rightarrow> if \<not> retryable then it = Leave (Ended (Some e) True)
              else it = Again (ls_provider l) e \<or> (\<exists>e'. it = Leave (Ended (Some e') False))"
      using rej by (auto split: option.splits if_splits)
  qed (use rej g3 in \<open>auto simp: fp_def retryable_def split: option.splits if_splits\<close>)
qed

subsection \<open>The ways through a request\<close>

lemma reserve_and_route_cases:
  assumes "reserve_and_route so wo sv a r policy g = (res, g')"
  obtains
    (no_prices) e e' s where "highest_prices (selection_for sv (ca_input a) policy) (gw_router g) = Inl e"
      "so_transition so (ca_tenant a) (rec_id r) Validated Failed (gw_store g) = (e', s)"
      "res = Inl e" "g' = g\<lparr>gw_store := s\<rparr>"
  | (no_cost) e in_price out_price where
      "highest_prices (selection_for sv (ca_input a) policy) (gw_router g) = Inr (in_price, out_price)"
      "cost_micro_usd (estimate_prompt_tokens (ci_messages (ca_input a))) (max_completion sv (ca_input a)) in_price out_price
         = Inl e"
      "res = Inl e" "g' = g"
  | (rejected) e in_price out_price reservation now w s where
      "highest_prices (selection_for sv (ca_input a) policy) (gw_router g) = Inr (in_price, out_price)"
      "cost_micro_usd (estimate_prompt_tokens (ci_messages (ca_input a))) (max_completion sv (ca_input a)) in_price out_price
         = Inr reservation"
      "res = Inl e" "so_reserve so (ca_tenant a) (rec_id r) reservation now (gw_store g) = (Some e, s)"
      "g' = g\<lparr>gw_world := w, gw_store := (if errors_is e ErrExceeded
              then snd (so_reject so (ca_tenant a) (rec_id r) (ca_correlation a) reservation s) else s)\<rparr>"
  | (stuck) e in_price out_price reservation now w s s2 where
      "highest_prices (selection_for sv (ca_input a) policy) (gw_router g) = Inr (in_price, out_price)"
      "cost_micro_usd (estimate_prompt_tokens (ci_messages (ca_input a))) (max_completion sv (ca_input a)) in_price out_price
         = Inr reservation"
      "res = Inl e" "so_reserve so (ca_tenant a) (rec_id r) reservation now (gw_store g) = (None, s)"
      "so_transition so (ca_tenant a) (rec_id r) Validated Routing s = (Some e, s2)
       \<or> (\<exists>s1. so_transition so (ca_tenant a) (rec_id r) Validated Routing s = (None, s1)
              \<and> so_transition so (ca_tenant a) (rec_id r) Routing InProgress s1 = (Some e, s2))"
      "g' = g\<lparr>gw_world := w, gw_store := s2\<rparr>"
  | (routed) in_price out_price reservation now w s1 s2 s3 g4 where
      "highest_prices (selection_for sv (ca_input a) policy) (gw_router g) = Inr (in_price, out_price)"
      "cost_micro_usd (estimate_prompt_tokens (ci_messages (ca_input a))) (max_completion sv (ca_input a)) in_price out_price
         = Inr reservation"
      "so_reserve so (ca_tenant a) (rec_id r) reservation now (gw_store g) = (None, s1)"
      "so_transition so (ca_tenant a) (rec_id r) Validated Routing s1 = (None, s2)"
      "so_transition so (ca_tenant a) (rec_id r) Routing InProgress s2 = (None, s3)"
      "g4 = g\<lparr>gw_world := w, gw_store := s3\<rparr>"
      "route_request so wo sv a r (selection_for sv (ca_input a) policy) g4 = (res, g')"
proof -
  let ?t = "ca_tenant a" and ?i = "rec_id r"
  let ?hp = "highest_prices (selection_for sv (ca_input a) policy) (gw_router g)"
  let ?cost = "cost_micro_usd (estimate_prompt_tokens (ci_messages (ca_input a))) (max_completion sv (ca_input a))"
  note defs = reserve_and_route_def on_store_def on_world_def Let_def
  show thesis
  proof (cases ?hp)
    case (Inl e)
    obtain e' s where "so_transition so ?t ?i Validated Failed (gw_store g) = (e', s)" by fastforce
    with Inl assms show thesis by (intro no_prices [of e e' s]) (auto simp: defs)
  next
    case (Inr prices)
    obtain in_price out_price where hp: "?hp = Inr (in_price, out_price)" using Inr by (cases prices) auto
    show thesis
    proof (cases "?cost in_price out_price")
      case (Inl e)
      with hp assms show thesis by (intro no_cost [OF hp Inl]) (auto simp: defs)
    next
      case (Inr reservation)
      obtain now w where now: "wo_now wo (gw_world g) = (now, w)" by fastforce
      obtain o1 s1 where s1: "so_reserve so ?t ?i reservation now (gw_store g) = (o1, s1)" by fastforce
      obtain o2 s2 where s2: "so_transition so ?t ?i Validated Routing s1 = (o2, s2)" by fastforce
      obtain o3 s3 where s3: "so_transition so ?t ?i Routing InProgress s2 = (o3, s3)" by fastforce
      note eqs = assms hp Inr now s1 s2 s3
      show thesis
      proof (cases o1)
        case (Some e)
        with eqs show thesis by (intro rejected [OF hp Inr, of e now s1 w]) (auto simp: defs split: if_splits prod.splits)
      next
        case None
        note o1 = this
        show thesis
        proof (cases o2)
          case (Some e)
          with eqs o1 show thesis by (intro stuck [OF hp Inr, of e now s1 s2 w]) (auto simp: defs)
        next
          case None
          note o2 = this
          show thesis
          proof (cases o3)
            case (Some e)
            with eqs o1 o2 show thesis by (intro stuck [OF hp Inr, of e now s1 s3 w]) (auto simp: defs)
          next
            case None
            with eqs o1 o2 show thesis by (intro routed [OF hp Inr, of now s1 s2 s3 _ w]) (auto simp: defs)
          qed
        qed
      qed
    qed
  qed
qed

lemma run_created_cases:
  assumes "run_created so wo sv a r g = (res, g')"
  obtains
    (not_validated) e s where "so_transition so (ca_tenant a) (rec_id r) Received Validated (gw_store g) = (Some e, s)"
      "res = Inl e" "g' = g\<lparr>gw_store := s\<rparr>"
  | (turned_away) e s1 pol s2 e' s3 where
      "so_transition so (ca_tenant a) (rec_id r) Received Validated (gw_store g) = (None, s1)"
      "so_policy so (ca_tenant a) (ci_model (ca_input a)) s1 = (pol, s2)"
      "so_transition so (ca_tenant a) (rec_id r) Validated Failed s2 = (e', s3)"
      "res = Inl e" "same_core (g\<lparr>gw_store := s3\<rparr>) g'"
      "pol = Inl e \<or> (\<exists>policy est h. pol = Inr policy \<and> admit wo sv (ca_principal a) policy est (g\<lparr>gw_store := s2\<rparr>) = (Inl e, h))"
  | (admitted) s1 policy s2 h h' where
      "so_transition so (ca_tenant a) (rec_id r) Received Validated (gw_store g) = (None, s1)"
      "so_policy so (ca_tenant a) (ci_model (ca_input a)) s1 = (Inr policy, s2)"
      "same_core (g\<lparr>gw_store := s2\<rparr>) h" "reserve_and_route so wo sv a r policy h = (res, h')" "same_core h' g'"
proof -
  let ?t = "ca_tenant a" and ?i = "rec_id r"
  note defs = run_created_def on_store_def Let_def
  obtain o1 s1 where s1: "so_transition so ?t ?i Received Validated (gw_store g) = (o1, s1)" by fastforce
  obtain pol s2 where s2: "so_policy so ?t (ci_model (ca_input a)) s1 = (pol, s2)" by fastforce
  show thesis
  proof (cases o1)
    case (Some e)
    with s1 assms show thesis by (intro not_validated [of e s1]) (auto simp: defs)
  next
    case None
    note o1 = this
    show thesis
    proof (cases pol)
      case (Inl e)
      obtain e' s3 where s3: "so_transition so ?t ?i Validated Failed s2 = (e', s3)" by fastforce
      with Inl s1 s2 o1 assms show thesis by (intro turned_away [of s1 pol s2 e' s3 e]) (auto simp: defs same_core_def)
    next
      case (Inr policy)
      let ?g2 = "g\<lparr>gw_store := s2\<rparr>"
      obtain adm h where adm: "admit wo sv (ca_principal a) policy
          (i64 (estimate_prompt_tokens (ci_messages (ca_input a)) + max_completion sv (ca_input a))) ?g2 = (adm, h)"
        by fastforce
      have core: "same_core ?g2 h" by (rule same_core_admit [OF adm])
      show thesis
      proof (cases adm)
        case (Inl e)
        obtain e' s3 where s3: "so_transition so ?t ?i Validated Failed s2 = (e', s3)" by fastforce
        with Inl Inr s1 s2 o1 assms adm core show thesis
          by (intro turned_away [of s1 pol s2 e' s3 e]) (auto simp: defs same_core_def)
      next
        case (Inr permits)
        obtain x h' where "reserve_and_route so wo sv a r policy h = (x, h')" by fastforce
        with Inr \<open>pol = Inr policy\<close> s1 s2 o1 assms adm core same_core_release_permits [of h' wo permits] show thesis
          by (intro admitted [of s1 policy s2 h h']) (auto simp: defs)
      qed
    qed
  qed
qed

lemma execute_cases:
  assumes "execute so wo sv a g = (res, g')"
  obtains
    (invalid) e where "res = Inl e" "g' = g"
      "validate (ca_input a) = Some e \<or> hash_chat (wo_marshal wo) (wo_sum256 wo) (ca_input a) = Inl e"
  | (refused) hash e s where "hash_chat (wo_marshal wo) (wo_sum256 wo) (ca_input a) = Inr hash"
      "so_create so \<lparr>cre_tenant = ca_tenant a, cre_api_key = pr_api_key (ca_principal a),
         cre_user = pr_user (ca_principal a), cre_idempotency_key = ca_key a, cre_hash = hash,
         cre_input = ca_input a, cre_correlation = ca_correlation a\<rparr> (gw_store g) = (Inl e, s)"
      "res = Inl e" "g' = g\<lparr>gw_store := s\<rparr>"
  | (repeated) hash r s where "hash_chat (wo_marshal wo) (wo_sum256 wo) (ca_input a) = Inr hash"
      "so_create so \<lparr>cre_tenant = ca_tenant a, cre_api_key = pr_api_key (ca_principal a),
         cre_user = pr_user (ca_principal a), cre_idempotency_key = ca_key a, cre_hash = hash,
         cre_input = ca_input a, cre_correlation = ca_correlation a\<rparr> (gw_store g) = (Inr (r, False), s)"
      "res = Inr (if rec_response r \<noteq> None \<and> rec_state r = Completed
         then \<lparr>ou_record = r, ou_response = rec_response r, ou_replayed = True, ou_pending = False\<rparr>
         else \<lparr>ou_record = r, ou_response = None, ou_replayed = True, ou_pending = True\<rparr>)"
      "g' = g\<lparr>gw_store := s\<rparr>"
  | (created) hash r s where "validate (ca_input a) = None" "hash_chat (wo_marshal wo) (wo_sum256 wo) (ca_input a) = Inr hash"
      "so_create so \<lparr>cre_tenant = ca_tenant a, cre_api_key = pr_api_key (ca_principal a),
         cre_user = pr_user (ca_principal a), cre_idempotency_key = ca_key a, cre_hash = hash,
         cre_input = ca_input a, cre_correlation = ca_correlation a\<rparr> (gw_store g) = (Inr (r, True), s)"
      "run_created so wo sv a r (g\<lparr>gw_store := s\<rparr>) = (res, g')"
proof (cases "validate (ca_input a)")
  case (Some e)
  with assms show thesis by (intro invalid [of e]) (simp_all add: execute_def)
next
  case None
  note valid = this
  show thesis
  proof (cases "hash_chat (wo_marshal wo) (wo_sum256 wo) (ca_input a)")
    case (Inl e)
    with valid assms show thesis by (intro invalid [of e]) (simp_all add: execute_def)
  next
    case (Inr hash)
    obtain x s where x: "so_create so \<lparr>cre_tenant = ca_tenant a, cre_api_key = pr_api_key (ca_principal a),
         cre_user = pr_user (ca_principal a), cre_idempotency_key = ca_key a, cre_hash = hash,
         cre_input = ca_input a, cre_correlation = ca_correlation a\<rparr> (gw_store g) = (x, s)" by fastforce
    note eqs = assms valid Inr x
    consider (error) e where "x = Inl e" | (old) r where "x = Inr (r, False)" | (new) r where "x = Inr (r, True)"
      by (metis (full_types) obj_sumE surj_pair)
    then show thesis
    proof cases
      case error
      with eqs show thesis by (intro refused [OF Inr, of e s]) (simp_all add: execute_def on_store_def)
    next
      case old
      with eqs show thesis
        by (intro repeated [OF Inr, of r s]) (auto simp: execute_def on_store_def split: if_splits)
    next
      case new
      with eqs show thesis by (intro created [OF valid Inr, of r s]) (simp_all add: execute_def on_store_def)
    qed
  qed
qed

text \<open>The loop rule.\<close>

lemma attempts_rule:
  assumes "attempts so wo sv a r sel left number excluded last_err g = (e, g')"
    and "I number excluded g"
    and "\<And>number excluded g it g'. attempt so wo sv a r sel number excluded g = (it, g') \<Longrightarrow> I number excluded g \<Longrightarrow>
      (case it of Leave e \<Rightarrow> Q e g' | Again name e \<Rightarrow> I (number + 1) (insert name excluded) g')"
    and "\<And>number excluded g last_err. I number excluded g \<Longrightarrow> Q (Ended last_err False) g"
  shows "Q e g'"
  using assms(1,2)
proof (induction "left" arbitrary: number excluded last_err g)
  case 0
  then show ?case using assms(4) by auto
next
  case (Suc "left")
  obtain it g1 where it: "attempt so wo sv a r sel number excluded g = (it, g1)" by fastforce
  show ?case
  proof (cases it)
    case (Leave x)
    then show ?thesis using Suc.prems it assms(3) [OF it Suc.prems(2)] by simp
  next
    case (Again name x)
    then show ?thesis using Suc.prems it Suc.IH assms(3) [OF it Suc.prems(2)] by simp
  qed
qed

context store_frame
begin

lemma frame_accepted:
  assumes "rec_id r = i" "ca_tenant a = t" "accept_completion so wo a r number l start c g = (res, g')"
  shows "R (gw_store g) (gw_store g')"
  using assms(3)
proof (cases rule: accept_cases)
  case (refused e now cost w s)
  have "R (gw_store g) s" using refused(3) by (rule frame_complete) (use assms in simp_all)
  with refused(4) show ?thesis by simp
next
  case (accepted now end_time cost w s e2 s2 response)
  have "R (gw_store g) s" using accepted(3) by (rule frame_complete) (use assms in simp_all)
  moreover have "R s s2" using accepted(4) assms(1) by (simp add: frame_reconcile)
  ultimately show ?thesis using accepted(6) frame_trans by simp
qed (simp add: frame_refl)

lemma frame_rejected:
  assumes "rec_id r = i" "ca_tenant a = t" "reject_completion so wo sv a r number l start e partial g = (it, g')"
  shows "R (gw_store g) (gw_store g')"
  using assms(3) by (cases rule: reject_cases) (use assms in \<open>auto intro!: frame_fail\<close>)

lemma frame_attempt:
  assumes "rec_id r = i" "ca_tenant a = t" "attempt so wo sv a r sel number excluded g = (it, g')"
  shows "R (gw_store g) (gw_store g')"
  using assms(3)
proof (cases rule: attempt_cases)
  case (refused now w l rt s e)
  have "R (gw_store g) s" using refused(2) by (rule frame_start) (use assms in simp_all)
  with refused(4) show ?thesis by simp
next
  case (called now l rt s start g4 res partial g5)
  have "R (gw_store g) (gw_store g5)" using called(2,4) assms by (auto intro: frame_start)
  moreover have "R (gw_store g5) (gw_store g')"
    using called(8) frame_accepted [OF assms(1,2)] frame_rejected [OF assms(1,2)] frame_refl
    by (auto split: sum.splits if_splits)
  ultimately show ?thesis by (rule frame_trans)
qed (simp add: frame_refl)

lemma frame_attempts:
  assumes "rec_id r = i" "ca_tenant a = t" "attempts so wo sv a r sel n number excluded last_err g = (e, g')"
  shows "R (gw_store g) (gw_store g')"
  using assms(3)
proof (rule attempts_rule [where I = "\<lambda>_ _ h. R (gw_store g) (gw_store h)"])
  fix number excluded h it h'
  assume "attempt so wo sv a r sel number excluded h = (it, h')" "R (gw_store g) (gw_store h)"
  then have "R (gw_store g) (gw_store h')" using frame_attempt [OF assms(1,2)] frame_trans by blast
  then show "case it of Leave e \<Rightarrow> R (gw_store g) (gw_store h') | Again name e \<Rightarrow> R (gw_store g) (gw_store h')"
    by (simp split: iteration.split)
qed (simp_all add: frame_refl)

lemma frame_finish:
  assumes "rec_id r = i" "ca_tenant a = t" "finish_failed so wo a r last_err finalized g = (res, g')"
  shows "R (gw_store g) (gw_store g')"
proof -
  obtain now w where now: "wo_now wo (gw_world g) = (now, w)" by fastforce
  define err where "err = (case last_err of None \<Rightarrow> ErrNoEligibleProvider | Some e \<Rightarrow> e)"
  obtain e1 s1 where s1: "so_fail_attempt so \<lparr>fap_request = rec_id r, fap_tenant = ca_tenant a, fap_number = 0,
                      fap_category = error_category err, fap_retryable = False, fap_partial = False, fap_final = True,
                      fap_started_at = now, fap_correlation = ca_correlation a\<rparr> (gw_store g) = (e1, s1)" by fastforce
  define s where "s = (if finalized then gw_store g else s1)"
  obtain e2 s2 where s2: "so_reconcile so (rec_id r) 0 s = (e2, s2)" by fastforce
  have "R (gw_store g) s" using frame_fail [OF s1] assms(1,2) frame_refl by (simp add: s_def)
  moreover have "R s s2" using frame_reconcile s2 assms(1) by simp
  moreover have "gw_store g' = s2"
    using assms(3) now s1 s2
    by (auto simp: finish_failed_def Let_def on_world_def on_store_def s_def err_def split: prod.splits if_splits)
  ultimately show ?thesis using frame_trans by simp
qed

lemma frame_route:
  assumes "rec_id r = i" "ca_tenant a = t" "route_request so wo sv a r sel g = (res, g')"
  shows "R (gw_store g) (gw_store g')"
  using assms(3)
  by (auto simp: route_request_def split: prod.splits loop_end.splits dest!: frame_attempts [OF assms(1,2)]
      frame_finish [OF assms(1,2)] intro: frame_trans)

lemma frame_reserve_and_route:
  assumes "rec_id r = i" "ca_tenant a = t" "reserve_and_route so wo sv a r policy g = (res, g')"
  shows "R (gw_store g) (gw_store g')"
  using assms(3)
proof (cases rule: reserve_and_route_cases)
  case (no_prices e e' s)
  then show ?thesis using frame_transition assms by auto
next
  case (rejected e in_price out_price reservation now w s)
  have "R (gw_store g) s" using rejected(4) assms(1,2) by (auto intro: frame_reserve)
  moreover have "R s (gw_store g')"
    using rejected(5) frame_refl frame_reject [OF surjective_pairing] assms(1,2) by auto
  ultimately show ?thesis by (rule frame_trans)
next
  case (stuck e in_price out_price reservation now w s s2)
  have "R (gw_store g) s" using stuck(4) assms(1,2) by (auto intro: frame_reserve)
  moreover have "R s (gw_store g')"
    using stuck(5,6) assms(1,2) by (auto intro: frame_transition frame_trans)
  ultimately show ?thesis by (rule frame_trans)
next
  case (routed in_price out_price reservation now w s1 s2 s3 g4)
  have "R (gw_store g) s1" using routed(3) assms(1,2) by (auto intro: frame_reserve)
  moreover have "R s1 s2" "R s2 s3" using routed(4,5) assms(1,2) by (auto intro: frame_transition)
  moreover have "R s3 (gw_store g')" using frame_route [OF assms(1,2) routed(7)] routed(6) by simp
  ultimately show ?thesis by (meson frame_trans)
qed (simp add: frame_refl)

lemma frame_run_created:
  assumes "rec_id r = i" "ca_tenant a = t" "run_created so wo sv a r g = (res, g')"
  shows "R (gw_store g) (gw_store g')"
  using assms(3)
proof (cases rule: run_created_cases)
  case (not_validated e s)
  then show ?thesis using assms(1,2) by (auto intro: frame_transition)
next
  case (turned_away e s1 pol s2 e' s3)
  have "R (gw_store g) s1" "R s1 s2" "R s2 s3"
    using turned_away(1-3) assms(1,2) by (auto intro: frame_transition frame_policy)
  with turned_away(5) show ?thesis by (auto simp: same_core_def intro: frame_trans)
next
  case (admitted s1 policy s2 h h')
  have "R (gw_store g) s1" "R s1 s2" using admitted(1,2) assms(1,2) by (auto intro: frame_transition frame_policy)
  moreover have "R (gw_store h) (gw_store h')" using frame_reserve_and_route [OF assms(1,2) admitted(4)] .
  ultimately show ?thesis using admitted(3,5) by (auto simp: same_core_def intro: frame_trans)
qed

end

end
