(* ===== verification/Gateway_Sample.thy ===== *)
theory Gateway_Sample
  imports Gateway Memory_Budget
begin

text \<open>
  A small running gateway on which the properties are instantiated: two providers, an in-memory store with
  one tenant and one request under way, no rate limiter, and another client that keeps cancelling that
  request.
\<close>

definition sample_usage :: usage where
  "sample_usage = \<lparr>prompt_tokens = 0, completion_tokens = 0, total_tokens = 0\<rparr>"

definition sample_world :: "unit world_ops" where
  "sample_world =
     \<lparr>wo_marshal = (\<lambda>inp. Inr (ci_model inp)), wo_sum256 = (\<lambda>s. s), wo_now = (\<lambda>w. (5, w)),
      wo_complete = (\<lambda>name timeout cq w. (Inr \<lparr>cp_provider_request_id = name, cp_model = cq_model cq, cp_content = ''ok'',
         cp_finish_reason = ''stop'', cp_usage = sample_usage\<rparr>, w)),
      wo_stream = (\<lambda>name timeout cq w. (Emit \<lparr>ck_content = ''ok'', ck_finish_reason = ''''\<rparr> (\<lambda>r. StreamOk sample_usage), w)),
      wo_emit = (\<lambda>ck w. (None, w)), wo_redis = (\<lambda>w. ((Answered, 5), w)), wo_random = (\<lambda>w. (0, w)),
      wo_sleep = (\<lambda>d w. (None, w))\<rparr>"

definition sample_service :: service where
  "sample_service = new_service None
     \<lparr>gc_strategy = priority_fallback, gc_max_attempts = 2, gc_initial_backoff = 0, gc_maximum_backoff = 0,
      gc_default_max_tokens = 10, gc_maximum_stream_bytes = 0\<rparr>"

definition sample_args :: call_args where
  "sample_args =
     \<lparr>ca_principal = \<lparr>pr_api_key = ''x'', pr_tenant = ''t'', pr_user = ''u'', pr_scopes = {}\<rparr>, ca_key = ''key'',
      ca_correlation = ''c'',
      ca_input = \<lparr>ci_model = ''m'', ci_messages = [\<lparr>msg_role = ''user'', msg_content = ''hello''\<rparr>], ci_temperature = None,
        ci_max_tokens = 5, ci_stream = False, ci_metadata = None\<rparr>,
      ca_streaming = False\<rparr>"

definition sample_store :: mem_state where
  "sample_store = \<lparr>ms_memory = sample_memory, ms_clock = int, ms_random = (\<lambda>n. replicate (Suc n) CHR 0x41), ms_step = 0\<rparr>"

definition sample_shared :: "mem_state shared" where
  "sample_shared = \<lparr>sh_own = sample_store,
     sh_others = (\<lambda>k s. snd (so_cancel (memory_ops (\<lambda>x. x)) ''t'' ''q'' '''' s)), sh_step = 0\<rparr>"

definition sample_gw :: "'s \<Rightarrow> ('s, unit) gw" where
  "sample_gw s = \<lparr>gw_store = s, gw_router = sample_router, gw_redis = (\<lambda>k. None), gw_world = (), gw_calls = []\<rparr>"

lemma random_id_replicate: "random_id (replicate n c) = concat (replicate n (hex_encode [c]))"
  by (simp add: random_id_def hex_encode_def)

lemma length_random_id: "length (random_id (replicate n c)) = 2 * n"
  by (induction n) (simp_all add: random_id_def hex_encode_def)

lemma sample_store_inv: "mem_inv sample_store"
proof -
  have "random_id (replicate (Suc n) CHR 0x41) \<noteq> ''q''" for n
    using length_random_id [of "Suc n" "CHR 0x41"] by auto
  moreover have "inj_on (\<lambda>n. random_id (replicate (Suc n) CHR 0x41)) {0..}"
  proof (rule inj_onI)
    fix x y
    assume "random_id (replicate (Suc x) CHR 0x41) = random_id (replicate (Suc y) CHR 0x41)"
    from arg_cong [OF this, of length] show "x = y" unfolding length_random_id by simp
  qed
  ultimately show ?thesis
    using sample_memory_ok(1) by (simp add: mem_inv_def sample_store_def sample_memory_def)
qed

lemma sample_shared_inv: "shared_inv mem_inv mem_view sample_shared"
proof -
  have "mem_inv (snd (so_cancel (memory_ops (\<lambda>x. x)) ''t'' ''q'' '''' s))
      \<and> evolves (mem_view s) (mem_view (snd (so_cancel (memory_ops (\<lambda>x. x)) ''t'' ''q'' '''' s)))" if "mem_inv s" for s
    using that by (rule mem.cancel_safe)
  with sample_store_inv show ?thesis by (simp add: shared_inv_def sample_shared_def)
qed

definition fresh_answer :: "go_error + outcome \<Rightarrow> bool" where
  "fresh_answer res = (case res of Inl e \<Rightarrow> False | Inr ou \<Rightarrow> \<not> ou_replayed ou)"

lemmas sample_defs = sample_world_def sample_service_def sample_args_def sample_store_def sample_gw_def sample_memory_def
  sample_record_def sample_policy_def sample_router_def sample_managed_def sample_config_def sample_usage_def

lemma sample_valid: "validate (ca_input sample_args) = None"
proof -
  have "trim_space ''m'' = ''m''" "trim_space ''hello'' = ''hello''"
    by (simp_all add: trim_space_def trim_left_of.simps space_encodings_def)
  then show ?thesis by (simp add: validate_def sample_args_def)
qed

lemma sample_selection_for:
  "selection_for sample_service (ca_input sample_args) sample_policy\<lparr>sl_excluded := {}, sl_now := 5\<rparr> = sample_selection priority_fallback"
  by (simp add: selection_for_def sample_defs new_service_def sample_selection_def priority_fallback_def Let_def)

lemma sample_select:
  obtains i rt where "select 5 (sample_selection priority_fallback) sample_router = (Inr (make_lease i sample_router), rt)"
    "ls_input_cost (make_lease i sample_router) \<ge> 0" "ls_output_cost (make_lease i sample_router) \<ge> 0"
proof -
  obtain i where i: "admissible (effective 5 (sample_selection priority_fallback)) sample_router i"
      "fst (select 5 (sample_selection priority_fallback) sample_router) = Inr (make_lease i sample_router)"
    using select_result [OF sample_router_inv, of 5 "sample_selection priority_fallback"] sample_admissible [of 0] by auto
  then have "i < 2" by (simp add: admissible_def)
  then have "ls_input_cost (make_lease i sample_router) \<ge> 0" "ls_output_cost (make_lease i sample_router) \<ge> 0"
    by (auto simp: make_lease_def Let_def less_2_cases_iff sample_managed_def sample_config_def)
  then show thesis using that i(2) by (metis surjective_pairing)
qed

lemma sample_prices: "highest_prices (selection_for sample_service (ca_input sample_args) sample_policy) sample_router = Inr (30, 30)"
  by (simp add: highest_prices_def price_relevant_def policy_allows_def can_serve_def sample_managed_def sample_config_def
      selection_for_def sample_args_def sample_policy_def)

lemma sample_free: "0 \<le> ip \<Longrightarrow> 0 \<le> op \<Longrightarrow> cost_micro_usd 0 0 ip op = Inr 0"
  by (simp add: cost_micro_usd_eq exact_price_def ceil_price_def max_int64_def)

lemma sample_reservation: "cost_micro_usd 2 5 30 30 = Inr 1"
  by (simp add: cost_micro_usd_eq exact_price_def ceil_price_def max_int64_def)


lemmas memory_defs = mem_op_def create_or_get_request_def transition_request_def memory_policy_def
  reserve_budget_def start_attempt_def complete_request_def reconcile_budget_def find_request_def put_request_def
  cancel_request_def clone_record_def idempotency_key_def random_id_def hex_encode_def hex_digit_def new_memory_def
  zero_record_def

lemmas gateway_defs = execute_def run_created_def reserve_and_route_def route_request_def attempt_def
  accept_completion_def call_provider_def admit_def on_store_def on_world_def on_router_def Let_def

lemma sample_fields:
  "gc_max_attempts (sv_config sample_service) = 2" "sv_limiter sample_service = None"
  "max_completion sample_service (ca_input sample_args) = 5" "estimate_prompt_tokens (ci_messages (ca_input sample_args)) = 2"
  "ca_tenant sample_args = ''t''" "ca_key sample_args = ''key''" "ca_streaming sample_args = False"
  "hash_chat (wo_marshal sample_world) (wo_sum256 sample_world) (ca_input sample_args) = Inr ''m''"
  "wo_now sample_world w = (5, w)"
  "wo_complete sample_world name timeout cq w = (Inr \<lparr>cp_provider_request_id = name, cp_model = cq_model cq, cp_content = ''ok'',
         cp_finish_reason = ''stop'', cp_usage = sample_usage\<rparr>, w)"
  "tp_monthly_budget sample_policy = 1000"
  by (simp_all add: sample_service_def new_service_def Let_def sample_args_def max_completion_def estimate_prompt_tokens_def
      go_quo_def ca_tenant_def hash_chat_def sample_world_def sample_policy_def)

lemma shared_memory_ops:
  "so_create (shared_ops (memory_ops clone)) p = shared_op (mem_op (\<lambda>now b. create_or_get_request clone now b p))"
  "so_transition (shared_ops (memory_ops clone)) t i x y = shared_op (mem_op (\<lambda>now b. transition_request now t i x y))"
  "so_start_attempt (shared_ops (memory_ops clone)) ap = shared_op (mem_op (\<lambda>now b. start_attempt ap))"
  "so_complete (shared_ops (memory_ops clone)) cp = shared_op (mem_op (\<lambda>now b. complete_request now cp))"
  "so_policy (shared_ops (memory_ops clone)) t model = shared_op (mem_op (\<lambda>now b m. (memory_policy t m, m)))"
  "so_reserve (shared_ops (memory_ops clone)) t i n time = shared_op (mem_op (\<lambda>now b. reserve_budget t i n))"
  "so_reconcile (shared_ops (memory_ops clone)) i n = shared_op (mem_op (\<lambda>now b. reconcile_budget i n))"
  "so_cancel (memory_ops clone) t i c = mem_op (\<lambda>now b. cancel_request now t i)"
  by (simp_all add: shared_ops_def memory_ops_def)

lemma sample_completes:
  "fresh_answer (fst (execute (shared_ops (memory_ops (\<lambda>x. x))) sample_world sample_service sample_args (sample_gw sample_shared)))"
proof -
  obtain i rt where sel: "select 5 (sample_selection priority_fallback) sample_router = (Inr (make_lease i sample_router), rt)"
      "ls_input_cost (make_lease i sample_router) \<ge> 0" "ls_output_cost (make_lease i sample_router) \<ge> 0"
    by (rule sample_select)
  show ?thesis
    by (simp add: gateway_defs memory_defs shared_memory_ops shared_op_def sample_fields sample_valid sample_gw_def
        sample_shared_def sample_store_def sample_memory_def sample_record_def sample_prices sample_reservation
        sample_selection_for sel sample_free transition_def can_reserve_def in_i64_def numeral_2_eq_2 sample_usage_def fresh_answer_def)
qed

lemma plain_memory_ops:
  "so_create (memory_ops clone) p = mem_op (\<lambda>now b. create_or_get_request clone now b p)"
  "so_transition (memory_ops clone) t i x y = mem_op (\<lambda>now b. transition_request now t i x y)"
  "so_start_attempt (memory_ops clone) ap = mem_op (\<lambda>now b. start_attempt ap)"
  "so_complete (memory_ops clone) cp = mem_op (\<lambda>now b. complete_request now cp)"
  "so_policy (memory_ops clone) t model = mem_op (\<lambda>now b m. (memory_policy t m, m))"
  "so_reserve (memory_ops clone) t i n time = mem_op (\<lambda>now b. reserve_budget t i n)"
  "so_reconcile (memory_ops clone) i n = mem_op (\<lambda>now b. reconcile_budget i n)"
  by (simp_all add: memory_ops_def)

lemma sample_completes_alone:
  "fresh_answer (fst (execute (memory_ops (\<lambda>x. x)) sample_world sample_service sample_args (sample_gw sample_store)))"
proof -
  obtain i rt where sel: "select 5 (sample_selection priority_fallback) sample_router = (Inr (make_lease i sample_router), rt)"
      "ls_input_cost (make_lease i sample_router) \<ge> 0" "ls_output_cost (make_lease i sample_router) \<ge> 0"
    by (rule sample_select)
  show ?thesis
    by (simp add: gateway_defs memory_defs plain_memory_ops sample_fields sample_valid sample_gw_def
        sample_store_def sample_memory_def sample_record_def sample_prices sample_reservation
        sample_selection_for sel sample_free transition_def can_reserve_def in_i64_def numeral_2_eq_2 sample_usage_def fresh_answer_def)
qed

end
