(* ===== verification/Gateway_Safety.thy ===== *)
theory Gateway_Safety
  imports Gateway_Paths Gateway_Sample
begin

text \<open>
  What holds of a request through the gateway on every path and for every behaviour of its surroundings:
  the records evolve legally, the leases are given back, the provider calls are bounded.
\<close>

subsection \<open>Finished requests\<close>

text \<open>Every store of the contract frames a known request by legal evolution.\<close>

context request_store
begin

definition keeps_known :: "string \<Rightarrow> 's \<Rightarrow> 's \<Rightarrow> bool" where
  "keeps_known i s s' \<longleftrightarrow> (inv s \<and> view s i \<noteq> None \<longrightarrow> inv s' \<and> view s' i \<noteq> None \<and> evolves (view s) (view s'))"

lemma keeps_knownI:
  "(inv s \<Longrightarrow> view s i \<noteq> None \<Longrightarrow> inv s' \<and> evolves (view s) (view s')) \<Longrightarrow> keeps_known i s s'"
  by (auto simp: keeps_known_def dest: evolves_known)

lemma keeps_known_ops:
  "inv s \<Longrightarrow> inv (snd x) \<and> evolves (view s) (view (snd x)) \<Longrightarrow> x = (e, s') \<Longrightarrow> keeps_known i s s'"
  by (auto intro: keeps_knownI)

end

sublocale request_store \<subseteq> own: store_frame so t i "keeps_known i" for t i
proof
  show "keeps_known i s s''" if "keeps_known i s s'" "keeps_known i s' s''" for s s' s''
    using that by (auto simp: keeps_known_def intro: evolves_trans)
qed (simp add: keeps_known_def, (rule keeps_knownI, metis snd_conv safe_ops reserve_safe)+)

text \<open>A history of the service: calls of its methods one after the other.\<close>

datatype gateway_call = Submit call_args | StreamTo bool call_args | GetRecord string string | CancelRequest string string string

fun gateway_step :: "'s store_ops \<Rightarrow> 'w world_ops \<Rightarrow> service \<Rightarrow> gateway_call \<Rightarrow> ('s, 'w) gw \<Rightarrow> ('s, 'w) gw" where
  "gateway_step so wo sv (Submit a) g = snd (submit so wo sv a g)"
| "gateway_step so wo sv (StreamTo has_emitter a) g = snd (stream_request so wo sv has_emitter a g)"
| "gateway_step so wo sv (GetRecord t i) g = snd (service_get so t i g)"
| "gateway_step so wo sv (CancelRequest t i c) g = snd (service_cancel so t i c g)"

definition gateway_run :: "'s store_ops \<Rightarrow> 'w world_ops \<Rightarrow> service \<Rightarrow> gateway_call list \<Rightarrow> ('s, 'w) gw \<Rightarrow> ('s, 'w) gw" where
  "gateway_run so wo sv cs g = fold (gateway_step so wo sv) cs g"

context request_store
begin

lemma execute_follows:
  assumes "execute so wo sv a g = (res, g')"
  shows "follows (gw_store g) (gw_store g')"
  using assms
proof (cases rule: execute_cases)
  case (created hash r s)
  let ?s = "gw_store g"
  have "inv (gw_store g') \<and> evolves (view ?s) (view (gw_store g'))" if inv: "inv ?s"
  proof -
    have s: "inv s" "evolves (view ?s) (view s)" using create_safe [OF inv] created(3) by (metis snd_conv)+
    have "view s (rec_id r) \<noteq> None" using create_known [OF inv created(3)] .
    then show ?thesis
      using own.frame_run_created [OF refl refl created(4)] s evolves_trans by (auto simp: keeps_known_def)
  qed
  then show ?thesis by (simp add: follows_def)
next
  case (refused hash e s)
  then show ?thesis using follows_ops(1) by (metis gw.select_convs(1) gw.surjective gw.update_convs(1) snd_conv)
next
  case (repeated hash r s)
  then show ?thesis using follows_ops(1) by (metis gw.select_convs(1) gw.surjective gw.update_convs(1) snd_conv)
qed simp

lemma gateway_step_follows: "follows (gw_store g) (gw_store (gateway_step so wo sv c g))"
proof (cases c)
  case (Submit a)
  then show ?thesis
    using execute_follows [of wo sv "a\<lparr>ca_streaming := False\<rparr>" g] by (simp add: submit_def prod_eq_iff)
next
  case (StreamTo has_emitter a)
  then show ?thesis
    using execute_follows [of wo sv "a\<lparr>ca_streaming := True\<rparr>" g] by (simp add: stream_request_def prod_eq_iff)
next
  case (GetRecord t i)
  then show ?thesis
    using follows_ops(10) [of "gw_store g" t i] by (simp add: service_get_def on_store_def case_prod_beta)
next
  case (CancelRequest t i cor)
  then show ?thesis
    using follows_ops(6) [of "gw_store g" t i cor] by (simp add: service_cancel_def on_store_def case_prod_beta)
qed

lemma gateway_run_follows: "follows (gw_store g) (gw_store (gateway_run so wo sv cs g))"
  unfolding gateway_run_def
  by (induction cs arbitrary: g) (auto intro: follows_trans [OF gateway_step_follows])

end

interpretation shm: request_store "shared_ops (memory_ops clone)" "shared_inv mem_inv mem_view"
  "\<lambda>sh. mem_view (sh_own sh)" for clone
  by (rule mem.shared_store)

text \<open>
  C4. Whatever calls the service receives, whatever its providers and Redis do and whatever other clients
  do to the same store between any two of its operations, the record of a request only moves along the
  allowed transitions and keeps its tenant, idempotency key and hash; once completed, failed, cancelled or
  rejected it is never changed again, in particular a late provider answer does not revive it.
\<close>

theorem requests_move_legally_and_end_for_good:
  assumes "shared_inv mem_inv mem_view (gw_store g)" "mem_view (sh_own (gw_store g)) i = Some r"
  shows "\<exists>r'. mem_view (sh_own (gw_store (gateway_run (shared_ops (memory_ops clone)) wo sv cs g))) i = Some r'
    \<and> can_transition\<^sup>*\<^sup>* (rec_state r) (rec_state r') \<and> (terminal (rec_state r) \<longrightarrow> r' = r)
    \<and> rec_tenant r' = rec_tenant r \<and> rec_idempotency_key r' = rec_idempotency_key r \<and> rec_hash r' = rec_hash r"
  using shm.gateway_run_follows [of g clone wo sv cs] assms
  by (auto simp: shm.follows_def evolves_def legal_move_def)

theorem requests_move_legally_and_end_for_good_witness:
  "\<exists>r. mem_view (sh_own (gw_store (gateway_run (shared_ops (memory_ops (\<lambda>x. x))) sample_world sample_service
        [Submit sample_args, CancelRequest ''t'' ''q'' ''c''] (sample_gw sample_shared)))) ''q'' = Some r
    \<and> can_transition\<^sup>*\<^sup>* Validated (rec_state r) \<and> rec_tenant r = ''t''"
proof -
  have "shared_inv mem_inv mem_view (gw_store (sample_gw sample_shared))"
    "mem_view (sh_own (gw_store (sample_gw sample_shared))) ''q'' = Some sample_record"
    using sample_shared_inv by (simp_all add: sample_gw_def sample_shared_def sample_store_def sample_memory_def mem_view_def)
  from requests_move_legally_and_end_for_good [OF this, of "\<lambda>x. x" sample_world sample_service
      "[Submit sample_args, CancelRequest ''t'' ''q'' ''c'']"]
  show ?thesis by (auto simp: sample_record_def zero_record_def)
qed

subsection \<open>Leases\<close>

text \<open>A lease that is given back right away leaves the slots as they were.\<close>

lemma selected_lease:
  assumes "router_inv rt" "select clock selection rt = (Inr l, rt1)"
  obtains i where "admissible (effective clock selection) rt i" "l = make_lease i rt" "router_inv rt1" "static_eq rt rt1"
    "slots rt1 = (slots rt)(i := slots rt i + 1)" "0 \<le> slots rt i" "i < length (rt_providers rt1)"
proof -
  obtain i where i: "admissible (effective clock selection) rt i" "l = make_lease i rt"
    using select_result [OF assms(1), of clock selection] assms(2) by auto
  have len: "i < length (rt_providers rt)" using i(1) by (simp add: admissible_def)
  have st: "static_eq rt rt1" using select_static [of rt clock selection] assms(2) by simp
  show thesis
  proof (rule that [OF i])
    show "router_inv rt1" using select_inv [OF assms(1), of clock selection] assms(2) by simp
    show "slots rt1 = (slots rt)(i := slots rt i + 1)"
      using select_slots [of clock selection rt] assms(2) i(2) by (simp add: make_lease_def Let_def)
    show "0 \<le> slots rt i" using assms(1) len by (auto simp: router_inv_def entry_inv_def slots_def)
    show "i < length (rt_providers rt1)" using st len by (simp add: static_eq_def)
  qed (rule st)
qed

lemma release_slots:
  assumes "\<not> ls_released l" "ls_entry l < length (rt_providers rt)"
  shows "slots (snd (lease_failure b now l rt)) = (slots rt)(ls_entry l := slots rt (ls_entry l) - 1)"
    "slots (snd (lease_success lat l rt)) = (slots rt)(ls_entry l := slots rt (ls_entry l) - 1)"
  using assms by (auto simp: slots_def lease_failure_def lease_success_def lease_release_def nth_update_entry fun_eq_iff)

definition same_slots :: "router \<Rightarrow> router \<Rightarrow> bool" where
  "same_slots rt rt' \<longleftrightarrow> router_inv rt' \<and> static_eq rt rt' \<and> slots rt' = slots rt"

lemma returned_lease:
  assumes "router_inv rt" "select clock selection rt = (Inr l, rt1)"
  shows "same_slots rt (snd (lease_failure b now l rt1))" "same_slots rt (snd (lease_success lat l rt1))"
proof -
  obtain i where i: "l = make_lease i rt" "router_inv rt1" "static_eq rt rt1"
      "slots rt1 = (slots rt)(i := slots rt i + 1)" "0 \<le> slots rt i" "i < length (rt_providers rt1)"
    using selected_lease [OF assms] by metis
  have l: "ls_entry l = i" "\<not> ls_released l" using i(1) by (simp_all add: make_lease_def Let_def)
  have pos: "0 < slots rt1 (ls_entry l)" using i(4,5) l(1) by simp
  show "same_slots rt (snd (lease_failure b now l rt1))"
    unfolding same_slots_def using router_inv_failure [OF i(2) pos] release_slots(1) [OF l(2)] i l
    by (auto intro: static_eq_trans [OF i(3)])
  show "same_slots rt (snd (lease_success lat l rt1))"
    unfolding same_slots_def using router_inv_success [OF i(2) pos] release_slots(2) [OF l(2)] i l
    by (auto intro: static_eq_trans [OF i(3)])
qed

lemma returned_lease_give_back:
  assumes "router_inv rt" "select clock selection rt = (Inr l, gw_router g)"
  shows "same_slots rt (gw_router (give_back wo b l g))"
  using returned_lease(1) [OF assms] give_back_router [of wo b l g] by metis

text \<open>The result of the loop, of an iteration and of a call is a panic.\<close>

fun crashed :: "loop_end \<Rightarrow> bool" where
  "crashed (Returned (Inl e)) = is_panic e"
| "crashed x = False"

lemma accept_slots:
  assumes "router_inv rt" "select clock selection rt = (Inr l, gw_router g)"
    and "accept_completion so wo a r number l start c g = (res, g')" "\<not> crashed (Returned res)"
  shows "same_slots rt (gw_router g')"
  using assms(3)
proof (cases rule: accept_cases)
  case (refused e now cost w s)
  then show ?thesis using assms(2,4) by (auto intro: returned_lease_give_back [OF assms(1)])
next
  case (accepted now end_time cost w s e2 s2 response)
  then show ?thesis using returned_lease(2) [OF assms(1,2)] by simp
qed (use returned_lease_give_back [OF assms(1,2)] in simp)

lemma attempt_slots:
  assumes "router_inv (gw_router g)" "attempt so wo sv a r sel number excluded g = (it, g')"
    and "\<And>e. it = Leave e \<Longrightarrow> \<not> crashed e"
  shows "same_slots (gw_router g) (gw_router g')"
  using assms(2)
proof (cases rule: attempt_cases)
  case (no_lease now w e rt)
  let ?sel = "sel\<lparr>sl_excluded := excluded, sl_now := now\<rparr>"
  show ?thesis
    using no_lease(1,3) select_inv [OF assms(1), of now ?sel] select_static [of "gw_router g" now ?sel]
      select_slots [of now ?sel "gw_router g"] by (simp add: same_slots_def)
next
  case (refused now w l rt s e)
  then show ?thesis by (auto intro: returned_lease_give_back [OF assms(1)])
next
  case (called now l rt s start g4 res partial g5)
  have sel: "select now (sel\<lparr>sl_excluded := excluded, sl_now := now\<rparr>) (gw_router g) = (Inr l, gw_router g5)"
    using called(1,5) by simp
  show ?thesis
  proof (cases res)
    case (Inl e)
    with called(8) assms(3) have "reject_completion so wo sv a r number l start e partial g5 = (it, g')"
      by (auto split: if_splits)
    then show ?thesis by (cases rule: reject_cases) (use returned_lease_give_back [OF assms(1) sel] in simp)
  next
    case (Inr c)
    with called(8) assms(3) accept_slots [OF assms(1) sel] show ?thesis by auto
  qed
qed

lemma same_slots_refl: "router_inv rt \<Longrightarrow> same_slots rt rt"
  by (simp add: same_slots_def)

lemma same_slots_trans: "same_slots a b \<Longrightarrow> same_slots b c \<Longrightarrow> same_slots a c"
  by (auto simp: same_slots_def intro: static_eq_trans)

lemma attempts_slots:
  assumes "router_inv (gw_router g)" "attempts so wo sv a r sel n number excluded last_err g = (e, g')" "\<not> crashed e"
  shows "same_slots (gw_router g) (gw_router g')"
proof -
  have "crashed e \<or> same_slots (gw_router g) (gw_router g')"
    using assms(2)
  proof (rule attempts_rule [where I = "\<lambda>_ _ h. same_slots (gw_router g) (gw_router h)"])
    fix number excluded h it h'
    assume h: "attempt so wo sv a r sel number excluded h = (it, h')" "same_slots (gw_router g) (gw_router h)"
    have "router_inv (gw_router h)" using h(2) by (simp add: same_slots_def)
    from attempt_slots [OF this h(1)] same_slots_trans [OF h(2)]
    show "case it of Leave e \<Rightarrow> crashed e \<or> same_slots (gw_router g) (gw_router h')
        | Again name e \<Rightarrow> same_slots (gw_router g) (gw_router h')"
      by (auto split: iteration.split)
  qed (simp_all add: same_slots_refl assms(1))
  with assms(3) show ?thesis by simp
qed

lemma finish_failed_fields:
  "gw_router (snd (finish_failed so wo a r last_err finalized g)) = gw_router g"
  "gw_calls (snd (finish_failed so wo a r last_err finalized g)) = gw_calls g"
  by (auto simp: finish_failed_def Let_def on_world_def on_store_def split: prod.splits)

lemma route_slots:
  assumes "router_inv (gw_router g)" "route_request so wo sv a r sel g = (res, g')" "\<not> crashed (Returned res)"
  shows "same_slots (gw_router g) (gw_router g')"
proof -
  obtain e g1 where at: "attempts so wo sv a r sel (nat (gc_max_attempts (sv_config sv))) 1 {} None g = (e, g1)"
    by fastforce
  have "\<not> crashed e \<and> gw_router g' = gw_router g1"
  proof (cases e)
    case (Ended last_err finalized)
    with assms(2) at finish_failed_fields(1) [of so wo a r last_err finalized g1] show ?thesis
      by (simp add: route_request_def)
  qed (use assms(2,3) at in \<open>simp add: route_request_def\<close>)
  with attempts_slots [OF assms(1) at] show ?thesis by simp
qed

lemma reserve_and_route_slots:
  assumes "router_inv (gw_router g)" "reserve_and_route so wo sv a r policy g = (res, g')" "\<not> crashed (Returned res)"
  shows "same_slots (gw_router g) (gw_router g')"
  using assms(2)
  by (cases rule: reserve_and_route_cases)
     (use assms(1,3) same_slots_refl [OF assms(1)] in \<open>auto dest: route_slots [rotated]\<close>)

lemma execute_slots:
  assumes "router_inv (gw_router g)" "execute so wo sv a g = (res, g')" "\<not> crashed (Returned res)"
  shows "same_slots (gw_router g) (gw_router g')"
  using assms(2)
proof (cases rule: execute_cases)
  case (created hash r s)
  from created(4) show ?thesis
  proof (cases rule: run_created_cases)
    case (admitted s1 policy s2 h h')
    then have "gw_router h = gw_router g" "gw_router g' = gw_router h'" by (simp_all add: same_core_def)
    with reserve_and_route_slots [OF _ admitted(4) assms(3)] assms(1) show ?thesis by simp
  qed (use same_slots_refl [OF assms(1)] in \<open>simp_all add: same_core_def\<close>)
qed (use same_slots_refl [OF assms(1)] in simp_all)

text \<open>
  C6. On every path through a request, every provider slot it took is given back: whatever the store, the
  providers, Redis, the client and the clock answer, the slots in use and the router's invariant after the
  call are those before it, for every result except an unwinding panic.
\<close>

theorem no_lease_leaks:
  assumes "router_inv (gw_router g)" "execute so wo sv a g = (res, g')" "\<And>e. res = Inl e \<Longrightarrow> \<not> is_panic e"
  shows "router_inv (gw_router g') \<and> slots (gw_router g') = slots (gw_router g)"
  using execute_slots [OF assms(1,2)] assms(3) by (cases res) (auto simp: same_slots_def)

lemma sample_result:
  obtains ou g where "execute (shared_ops (memory_ops (\<lambda>x. x))) sample_world sample_service sample_args
      (sample_gw sample_shared) = (Inr ou, g)" "\<not> ou_replayed ou"
  using sample_completes by (metis (no_types, lifting) fresh_answer_def old.sum.exhaust old.sum.simps(5,6) surjective_pairing)

theorem no_lease_leaks_witness:
  "\<exists>ou g. execute (shared_ops (memory_ops (\<lambda>x. x))) sample_world sample_service sample_args (sample_gw sample_shared) = (Inr ou, g)
    \<and> slots (gw_router g) = slots sample_router"
proof -
  obtain ou g where g: "execute (shared_ops (memory_ops (\<lambda>x. x))) sample_world sample_service sample_args
      (sample_gw sample_shared) = (Inr ou, g)" by (rule sample_result)
  have "router_inv (gw_router (sample_gw sample_shared))" by (simp add: sample_gw_def)
  from no_lease_leaks [OF this g] g show ?thesis by (auto simp: sample_gw_def)
qed

subsection \<open>Provider calls\<close>

text \<open>
  The calls of one request so far: each to a different provider, which the policy allows and which can
  serve the model, and none of them gave content to the client.
\<close>

definition provider_fits :: "selection \<Rightarrow> router \<Rightarrow> string \<Rightarrow> bool" where
  "provider_fits sel rt name \<longleftrightarrow>
     (\<exists>e \<in> set (rt_providers rt). pv_name (mg_provider e) = name \<and> price_relevant sel e)"

definition retried_calls :: "selection \<Rightarrow> router \<Rightarrow> (string \<times> bool) list \<Rightarrow> bool" where
  "retried_calls sel rt cs \<longleftrightarrow>
     distinct (map fst cs) \<and> (\<forall>c \<in> set cs. provider_fits sel rt (fst c) \<and> \<not> snd c)"

lemma select_fits:
  assumes "static_eq rt0 rt" "router_inv rt"
    and "select now (sel\<lparr>sl_excluded := excluded, sl_now := now\<rparr>) rt = (Inr l, rt1)"
  shows "provider_fits sel rt0 (ls_provider l)" "ls_provider l \<notin> excluded"
proof -
  obtain i where i: "admissible (effective now (sel\<lparr>sl_excluded := excluded, sl_now := now\<rparr>)) rt i" "l = make_lease i rt"
    using selected_lease [OF assms(2,3)] by metis
  let ?e = "rt_providers rt0 ! i"
  have st: "i < length (rt_providers rt0)" "mg_config (rt_providers rt ! i) = mg_config ?e"
      "mg_provider (rt_providers rt ! i) = mg_provider ?e"
    using assms(1) i(1) by (auto simp: static_eq_def admissible_def)
  have "price_relevant sel ?e" "pv_name (mg_provider ?e) = ls_provider l"
    using i st by (auto simp: admissible_def eligible_entry_def price_relevant_def policy_allows_def can_serve_def
        make_lease_def Let_def split: option.splits)
  with st(1) show "provider_fits sel rt0 (ls_provider l)" by (auto simp: provider_fits_def)
  show "ls_provider l \<notin> excluded"
    using i by (simp add: admissible_def eligible_entry_def make_lease_def Let_def)
qed

lemma accept_calls:
  "accept_completion so wo a r number l start c g = (res, g') \<Longrightarrow> gw_calls g' = gw_calls g"
  by (erule accept_cases) auto

lemma attempt_calls:
  assumes "static_eq rt0 (gw_router g)" "router_inv (gw_router g)"
    and "attempt so wo sv a r sel number excluded g = (it, g')"
  shows "case it of
      Leave e \<Rightarrow> gw_calls g' = gw_calls g
        \<or> (\<exists>name partial. gw_calls g' = gw_calls g @ [(name, partial)] \<and> name \<notin> excluded \<and> provider_fits sel rt0 name)
    | Again name e \<Rightarrow> gw_calls g' = gw_calls g @ [(name, False)] \<and> name \<notin> excluded \<and> provider_fits sel rt0 name
        \<and> number < gc_max_attempts (sv_config sv)"
  using assms(3)
proof (cases rule: attempt_cases)
  case (called now l rt s start g4 res partial g5)
  note fits = select_fits [OF assms(1,2) called(1)]
  show ?thesis
  proof (cases res)
    case (Inr c)
    with called(7,8) fits show ?thesis by (auto dest: accept_calls)
  next
    case (Inl e)
    show ?thesis
    proof (cases "is_panic e")
      case True
      with Inl called(7,8) fits show ?thesis by auto
    next
      case False
      with Inl called(8) have "reject_completion so wo sv a r number l start e partial g5 = (it, g')" by simp
      then show ?thesis
        by (cases rule: reject_cases) (use fits called(7) in \<open>auto split: option.splits if_splits\<close>)
    qed
  qed
qed simp_all

definition calls_ok :: "selection \<Rightarrow> router \<Rightarrow> int \<Rightarrow> (string \<times> bool) list \<Rightarrow> (string \<times> bool) list \<Rightarrow> bool" where
  "calls_ok sel rt most before after \<longleftrightarrow>
     (\<exists>new. after = before @ new \<and> int (length new) \<le> max 0 most \<and> distinct (map fst new)
        \<and> (\<forall>c \<in> set new. provider_fits sel rt (fst c)) \<and> (\<forall>c \<in> set (butlast new). \<not> snd c))"

lemma calls_ok_refl [simp]: "calls_ok sel rt most cs cs"
  by (simp add: calls_ok_def)

lemma retried_calls_ok:
  "retried_calls sel rt new \<Longrightarrow> int (length new) \<le> most \<Longrightarrow> calls_ok sel rt most cs (cs @ new)"
  by (auto simp: calls_ok_def retried_calls_def dest!: in_set_butlastD)

lemma attempts_calls:
  assumes "router_inv (gw_router g)" "1 \<le> gc_max_attempts (sv_config sv)"
    and "attempts so wo sv a r sel n 1 {} last_err g = (e, g')"
  shows "calls_ok sel (gw_router g) (gc_max_attempts (sv_config sv)) (gw_calls g) (gw_calls g')"
proof -
  let ?I = "\<lambda>number excluded h. same_slots (gw_router g) (gw_router h) \<and> number \<le> gc_max_attempts (sv_config sv)
     \<and> (\<exists>new. gw_calls h = gw_calls g @ new \<and> retried_calls sel (gw_router g) new
          \<and> set (map fst new) = excluded \<and> int (length new) = number - 1)"
  show ?thesis
    using assms(3)
  proof (rule attempts_rule [where I = ?I])
    show "?I 1 {} g" using assms(1,2) by (simp add: same_slots_refl retried_calls_def)
  next
    fix number excluded h it h'
    assume h: "attempt so wo sv a r sel number excluded h = (it, h')" and I: "?I number excluded h"
    from I obtain new where new: "gw_calls h = gw_calls g @ new" "retried_calls sel (gw_router g) new"
        "set (map fst new) = excluded" "int (length new) = number - 1" by blast
    have st: "static_eq (gw_router g) (gw_router h)" "router_inv (gw_router h)" using I by (auto simp: same_slots_def)
    note calls = attempt_calls [OF st h]
    show "case it of Leave e \<Rightarrow> calls_ok sel (gw_router g) (gc_max_attempts (sv_config sv)) (gw_calls g) (gw_calls h')
        | Again name e \<Rightarrow> ?I (number + 1) (insert name excluded) h'"
    proof (cases it)
      case (Leave e)
      with calls consider "gw_calls h' = gw_calls g @ new"
        | name partial where "gw_calls h' = gw_calls g @ new @ [(name, partial)]" "name \<notin> excluded"
            "provider_fits sel (gw_router g) name"
        using new(1) by auto
      then have "calls_ok sel (gw_router g) (gc_max_attempts (sv_config sv)) (gw_calls g) (gw_calls h')"
      proof cases
        case 1
        with new I show ?thesis by (simp add: retried_calls_ok)
      next
        case 2
        with new I show ?thesis
          by (auto simp: calls_ok_def retried_calls_def intro!: exI [of _ "new @ [(name, partial)]"])
      qed
      with Leave show ?thesis by simp
    next
      case (Again name e)
      then have "same_slots (gw_router g) (gw_router h')"
        using attempt_slots [OF st(2) h] same_slots_trans I by auto
      with Again calls new I show ?thesis
        by (auto simp: retried_calls_def intro!: exI [of _ "new @ [(name, False)]"])
    qed
  next
    fix number excluded h last_err
    assume "?I number excluded h"
    then show "calls_ok sel (gw_router g) (gc_max_attempts (sv_config sv)) (gw_calls g) (gw_calls h)"
      by (auto simp: retried_calls_ok)
  qed
qed

lemma route_calls:
  assumes "router_inv (gw_router g)" "route_request so wo sv a r sel g = (res, g')"
  shows "calls_ok sel (gw_router g) (gc_max_attempts (sv_config sv)) (gw_calls g) (gw_calls g')"
proof -
  let ?n = "nat (gc_max_attempts (sv_config sv))"
  obtain e g1 where at: "attempts so wo sv a r sel ?n 1 {} None g = (e, g1)" by fastforce
  have "gw_calls g' = gw_calls g1"
    using assms(2) at finish_failed_fields(2) [of so wo a r _ _ g1]
    by (auto simp: route_request_def split: loop_end.splits) (metis snd_conv)
  moreover have "calls_ok sel (gw_router g) (gc_max_attempts (sv_config sv)) (gw_calls g) (gw_calls g1)"
  proof (cases "1 \<le> gc_max_attempts (sv_config sv)")
    case True
    from attempts_calls [OF assms(1) True at] show ?thesis .
  next
    case False
    then have "?n = 0" by simp
    with at show ?thesis by (simp only: attempts.simps) auto
  qed
  ultimately show ?thesis by simp
qed

text \<open>
  C5. One request makes at most \<open>MaxAttempts\<close> provider calls, each to a different provider, and only to
  providers that the tenant's policy allows, that are enabled and that serve the model and the data
  classification; after a call that gave content to the client there is no further call. This holds for
  every store and every behaviour of providers, Redis, client and clock.
\<close>

theorem provider_calls_are_bounded:
  assumes "router_inv (gw_router g)" "execute so wo sv a g = (res, g')"
  shows "gw_calls g' = gw_calls g
    \<or> (\<exists>policy s s' new. so_policy so (ca_tenant a) (ci_model (ca_input a)) s = (Inr policy, s')
        \<and> gw_calls g' = gw_calls g @ new \<and> int (length new) \<le> max 0 (gc_max_attempts (sv_config sv))
        \<and> distinct (map fst new)
        \<and> (\<forall>c \<in> set new. provider_fits (selection_for sv (ca_input a) policy) (gw_router g) (fst c))
        \<and> (\<forall>c \<in> set (butlast new). \<not> snd c))"
  using assms(2)
proof (cases rule: execute_cases)
  case (created hash r s)
  from created(4) show ?thesis
  proof (cases rule: run_created_cases)
    case (admitted s1 policy s2 h h')
    have same: "gw_router h = gw_router g" "gw_calls h = gw_calls g" "gw_calls g' = gw_calls h'"
      using admitted(3,5) by (simp_all add: same_core_def)
    have "calls_ok (selection_for sv (ca_input a) policy) (gw_router h) (gc_max_attempts (sv_config sv)) (gw_calls h) (gw_calls h')"
      using admitted(4)
    proof (cases rule: reserve_and_route_cases)
      case (routed in_price out_price reservation now w s1 s2 s3 g4)
      from route_calls [OF _ routed(7)] routed(6) same(1) assms(1) show ?thesis by simp
    qed simp_all
    with admitted(2) same show ?thesis unfolding calls_ok_def by metis
  qed (simp_all add: same_core_def)
qed simp_all

theorem provider_calls_are_bounded_witness:
  "\<exists>ou g. execute (shared_ops (memory_ops (\<lambda>x. x))) sample_world sample_service sample_args (sample_gw sample_shared) = (Inr ou, g)
    \<and> length (gw_calls g) \<le> 2 \<and> distinct (map fst (gw_calls g))"
proof -
  obtain ou g where g: "execute (shared_ops (memory_ops (\<lambda>x. x))) sample_world sample_service sample_args
      (sample_gw sample_shared) = (Inr ou, g)" by (rule sample_result)
  have "router_inv (gw_router (sample_gw sample_shared))" by (simp add: sample_gw_def)
  from provider_calls_are_bounded [OF this g] g show ?thesis by (auto simp: sample_gw_def sample_fields)
qed

end
