(* ===== verification/Gateway_Retry.thy ===== *)
theory Gateway_Retry
  imports Gateway_Safety
begin

text \<open>
  Idempotency end to end: once a call has completed a request, every later call with the same tenant, key
  and payload is answered from the store.
\<close>

context idempotent_store
begin

text \<open>The request \<open>i\<close> is completed with the response of the outcome.\<close>

definition answered :: "string \<Rightarrow> outcome \<Rightarrow> 's \<Rightarrow> bool" where
  "answered i ou s \<longleftrightarrow>
     inv s \<and> (\<exists>r. view s i = Some r \<and> rec_state r = Completed \<and> rec_response r = ou_response ou \<and> ou_response ou \<noteq> None)"

lemma answered_follows: "answered i ou s \<Longrightarrow> follows s s' \<Longrightarrow> answered i ou s'"
  using finished_unchanged [of s s' i] by (auto simp: answered_def follows_def terminal_def)

lemma accept_answered:
  assumes "inv (gw_store g)" "accept_completion so wo a r number l start c g = (Inr ou, g')"
  shows "answered (rec_id r) ou (gw_store g')"
  using assms(2)
proof (cases rule: accept_cases)
  case (accepted now end_time cost w s e2 s2 response)
  have s: "inv s" using complete_safe [OF assms(1)] accepted(3) by (metis snd_conv)
  have "\<exists>q. view s (rec_id r) = Some q \<and> rec_state q = Completed \<and> rec_response q = Some response"
    using complete_sets [OF assms(1) accepted(3)] by simp
  with s have "answered (rec_id r) ou s" using accepted(5) by (auto simp: answered_def)
  moreover have "follows s s2" using follows_ops(9) [of s "rec_id r" cost] accepted(4) by simp
  ultimately show ?thesis using accepted(6) answered_follows by simp
qed simp_all

lemma attempt_answered:
  assumes "inv (gw_store g)" "attempt so wo sv a r sel number excluded g = (it, g')"
  shows "inv (gw_store g') \<and> (\<forall>ou. it = Leave (Returned (Inr ou)) \<longrightarrow> answered (rec_id r) ou (gw_store g'))"
  using assms(2)
proof (cases rule: attempt_cases)
  case (no_lease now w e rt)
  with assms(1) show ?thesis by auto
next
  case (refused now w l rt s e)
  with assms(1) start_attempt_safe [OF assms(1)] show ?thesis by (auto dest: sym) (metis snd_conv)
next
  case (called now l rt s start g4 res partial g5)
  have inv5: "inv (gw_store g5)" using start_attempt_safe [OF assms(1)] called(2,4) by (metis snd_conv)
  show ?thesis
  proof (cases res)
    case (Inr c)
    with called(8) obtain x where x: "accept_completion so wo a r number l start c g5 = (x, g')" "it = Leave (Returned x)"
      by auto
    have "inv (gw_store g')"
      using x(1)
    proof (cases rule: accept_cases)
      case (refused e now cost w s)
      with complete_safe [OF inv5] show ?thesis by (auto simp: if_split_eq1) (metis snd_conv)+
    next
      case (accepted now end_time cost w s e2 s2 response)
      have "inv s" using complete_safe [OF inv5] accepted(3) by (metis snd_conv)
      then have "inv s2" using reconcile_safe [of s "rec_id r" cost] accepted(4) by simp
      with accepted(6) show ?thesis by simp
    qed (simp add: inv5)
    with x accept_answered [OF inv5] show ?thesis by blast
  next
    case (Inl e)
    show ?thesis
    proof (cases "is_panic e")
      case True
      with Inl called(8) inv5 show ?thesis by auto
    next
      case False
      with Inl called(8) have rej: "reject_completion so wo sv a r number l start e partial g5 = (it, g')" by simp
      show ?thesis
        using rej
      proof (cases rule: reject_cases)
        case (1 retryable fp o1)
        have "inv (gw_store g')" using fail_attempt_safe [OF inv5, of fp] 1(3) by simp
        with 1(6) show ?thesis by (auto split: option.splits if_splits)
      qed
    qed
  qed
qed

lemma route_answered:
  assumes "inv (gw_store g)" "route_request so wo sv a r sel g = (Inr ou, g')"
  shows "answered (rec_id r) ou (gw_store g')"
proof -
  obtain e g1 where at: "attempts so wo sv a r sel (nat (gc_max_attempts (sv_config sv))) 1 {} None g = (e, g1)"
    by fastforce
  have "inv (gw_store g1) \<and> (\<forall>ou. e = Returned (Inr ou) \<longrightarrow> answered (rec_id r) ou (gw_store g1))"
    using at
  proof (rule attempts_rule [where I = "\<lambda>_ _ h. inv (gw_store h)"])
    fix number excluded h it h'
    assume h: "attempt so wo sv a r sel number excluded h = (it, h')" "inv (gw_store h)"
    show "case it of
        Leave e \<Rightarrow> inv (gw_store h') \<and> (\<forall>ou. e = Returned (Inr ou) \<longrightarrow> answered (rec_id r) ou (gw_store h'))
      | Again name e \<Rightarrow> inv (gw_store h')"
      using attempt_answered [OF h(2,1)] by (simp split: iteration.split)
  qed (use assms(1) in simp_all)
  with assms(2) at show ?thesis
    by (auto simp: route_request_def finish_failed_def Let_def split: loop_end.splits)
qed

lemma run_created_answered:
  assumes "inv (gw_store g)" "view (gw_store g) (rec_id r) \<noteq> None" "run_created so wo sv a r g = (Inr ou, g')"
  shows "answered (rec_id r) ou (gw_store g')"
  using assms(3)
proof (cases rule: run_created_cases)
  case (admitted s1 policy s2 h h')
  have known: "inv s' \<and> view s' (rec_id r) \<noteq> None" if "keeps_known (rec_id r) s s'" "inv s \<and> view s (rec_id r) \<noteq> None" for s s'
    using that by (simp add: keeps_known_def)
  have "inv s1 \<and> view s1 (rec_id r) \<noteq> None"
    by (rule known [OF own.frame_transition [OF admitted(1)]]) (use assms in simp)
  then have s2: "inv s2 \<and> view s2 (rec_id r) \<noteq> None" by (rule known [OF own.frame_policy [OF admitted(2)]])
  have h: "gw_store h = s2" "gw_store g' = gw_store h'" using admitted(3,5) by (simp_all add: same_core_def)
  from admitted(4) have "answered (rec_id r) ou (gw_store h')"
  proof (cases rule: reserve_and_route_cases)
    case (routed in_price out_price reservation now w t1 t2 t3 g4)
    have "inv t1 \<and> view t1 (rec_id r) \<noteq> None"
      by (rule known [OF own.frame_reserve [OF routed(3)]]) (use s2 h in simp)
    then have "inv t2 \<and> view t2 (rec_id r) \<noteq> None" by (rule known [OF own.frame_transition [OF routed(4)]])
    then have "inv t3 \<and> view t3 (rec_id r) \<noteq> None" by (rule known [OF own.frame_transition [OF routed(5)]])
    then show ?thesis using route_answered [OF _ routed(7)] routed(6) by simp
  qed simp_all
  with h show ?thesis by simp
qed simp_all

text \<open>A completed call leaves a finished record under its key, tenant and payload.\<close>

lemma execute_answered:
  assumes "inv (gw_store g)" "execute so wo sv a g = (Inr ou, g')" "\<not> ou_replayed ou"
  obtains i r hash where "hash_chat (wo_marshal wo) (wo_sum256 wo) (ca_input a) = Inr hash" "answered i ou (gw_store g')"
    "view (gw_store g') i = Some r" "rec_tenant r = ca_tenant a" "rec_idempotency_key r = ca_key a" "rec_hash r = hash"
  using assms(2)
proof (cases rule: execute_cases)
  case (repeated hash r s)
  with assms(3) show thesis by (auto split: if_splits)
next
  case (created hash r s)
  have new: "view s (rec_id r) = Some r" "rec_tenant r = ca_tenant a" "rec_idempotency_key r = ca_key a" "rec_hash r = hash"
    using create_sets [OF assms(1) created(3)] by auto
  have inv: "inv s" using create_safe [OF assms(1)] created(3) by (metis snd_conv)
  have ans: "answered (rec_id r) ou (gw_store g')" using run_created_answered [OF _ _ created(4)] inv new(1) by simp
  have "evolves (view s) (view (gw_store g'))"
    using own.frame_run_created [OF refl refl created(4)] inv new(1) by (simp add: keeps_known_def)
  then obtain r' where "view (gw_store g') (rec_id r) = Some r'" "legal_move r r'"
    using new(1) by (auto simp: evolves_def)
  then show thesis using that [OF created(2) ans] new by (simp add: legal_move_def)
qed simp_all

lemma execute_replays:
  assumes "answered i ou (gw_store g)" "view (gw_store g) i = Some r" "rec_tenant r = ca_tenant b"
    and "rec_idempotency_key r = ca_key b" "hash_chat (wo_marshal wo) (wo_sum256 wo) (ca_input b) = Inr (rec_hash r)"
    and "validate (ca_input b) = None"
  shows "\<exists>ou' s'. execute so wo sv b g = (Inr ou', g\<lparr>gw_store := s'\<rparr>) \<and> ou_replayed ou' \<and> \<not> ou_pending ou'
    \<and> ou_response ou' = map_option copy (ou_response ou) \<and> rec_id (ou_record ou') = rec_id r"
proof -
  let ?p = "\<lparr>cre_tenant = ca_tenant b, cre_api_key = pr_api_key (ca_principal b),
         cre_user = pr_user (ca_principal b), cre_idempotency_key = ca_key b, cre_hash = rec_hash r,
         cre_input = ca_input b, cre_correlation = ca_correlation b\<rparr>"
  have r: "inv (gw_store g)" "rec_state r = Completed" "rec_response r = ou_response ou" "ou_response ou \<noteq> None"
    using assms(1,2) by (auto simp: answered_def)
  have "\<exists>r' s'. so_create so ?p (gw_store g) = (Inr (r', False), s') \<and> rec_id r' = rec_id r \<and> rec_state r' = rec_state r
        \<and> rec_response r' = map_option copy (rec_response r)"
    by (rule create_finds [OF r(1) assms(2)]) (use r(2) assms(3,4) in \<open>simp_all add: terminal_def\<close>)
  then obtain r' s' where r': "so_create so ?p (gw_store g) = (Inr (r', False), s')" "rec_id r' = rec_id r"
      "rec_state r' = Completed" "rec_response r' = map_option copy (ou_response ou)"
    using r(2,3) by auto
  then show ?thesis
    using assms(5,6) r(4) by (auto simp: execute_def on_store_def)
qed

end

interpretation shm: idempotent_store "shared_ops (memory_ops clone)" "shared_inv mem_inv mem_view"
  "\<lambda>sh. mem_view (sh_own sh)" clone for clone
  by (rule mem.shared_idempotent)

text \<open>
  C1. Retries are safe: once a call has returned a response, a later call of the same tenant with the same
  idempotency key and an input of the same hash is answered with the stored response, whatever other calls
  the service handled in between and whatever other clients did to the store, and without calling a
  provider, taking a rate limit permit or touching the router. The response is the one returned before, up
  to the JSON round trip that the store sends it through.
\<close>

theorem retries_replay_the_response:
  assumes "shared_inv mem_inv mem_view (gw_store g)"
    and "execute (shared_ops (memory_ops clone)) wo sv a g = (Inr ou, g1)" "\<not> ou_replayed ou"
    and "g2 = gateway_run (shared_ops (memory_ops clone)) wo sv cs g1"
    and "ca_tenant b = ca_tenant a" "ca_key b = ca_key a" "validate (ca_input b) = None"
    and "hash_chat (wo_marshal wo) (wo_sum256 wo) (ca_input b) = hash_chat (wo_marshal wo) (wo_sum256 wo) (ca_input a)"
  shows "\<exists>ou' g3. execute (shared_ops (memory_ops clone)) wo sv b g2 = (Inr ou', g3)
    \<and> ou_replayed ou' \<and> \<not> ou_pending ou' \<and> ou_response ou' = map_option clone (ou_response ou)
    \<and> gw_calls g3 = gw_calls g2 \<and> gw_router g3 = gw_router g2 \<and> gw_redis g3 = gw_redis g2"
proof -
  obtain i r hash where r: "hash_chat (wo_marshal wo) (wo_sum256 wo) (ca_input a) = Inr hash" "shm.answered i ou (gw_store g1)"
      "mem_view (sh_own (gw_store g1)) i = Some r" "rec_tenant r = ca_tenant a" "rec_idempotency_key r = ca_key a" "rec_hash r = hash"
    by (rule shm.execute_answered [OF assms(1-3)])
  have fol: "shm.follows (gw_store g1) (gw_store g2)"
    using shm.gateway_run_follows [of g1 clone wo sv cs] assms(4) by simp
  have ans: "shm.answered i ou (gw_store g2)" by (rule shm.answered_follows [OF r(2) fol])
  have "terminal (rec_state r)" "shared_inv mem_inv mem_view (gw_store g1)"
    using r(2,3) by (auto simp: shm.answered_def terminal_def)
  then have "mem_view (sh_own (gw_store g2)) i = Some r" using shm.finished_unchanged [OF fol _ r(3)] by simp
  from shm.execute_replays [OF ans this, of b wo clone sv] show ?thesis
    using assms(5-8) r(1,4-6) by auto
qed

theorem retries_replay_the_response_witness:
  "\<exists>ou g1 ou' g3. execute (shared_ops (memory_ops (\<lambda>x. x))) sample_world sample_service sample_args (sample_gw sample_shared) = (Inr ou, g1)
    \<and> execute (shared_ops (memory_ops (\<lambda>x. x))) sample_world sample_service sample_args
        (gateway_run (shared_ops (memory_ops (\<lambda>x. x))) sample_world sample_service [CancelRequest ''t'' ''q'' ''c''] g1) = (Inr ou', g3)
    \<and> ou_replayed ou' \<and> ou_response ou' = ou_response ou"
proof -
  obtain ou g1 where g: "execute (shared_ops (memory_ops (\<lambda>x. x))) sample_world sample_service sample_args
      (sample_gw sample_shared) = (Inr ou, g1)" "\<not> ou_replayed ou" by (rule sample_result)
  have "shared_inv mem_inv mem_view (gw_store (sample_gw sample_shared))" using sample_shared_inv by (simp add: sample_gw_def)
  from retries_replay_the_response [OF this g refl refl refl sample_valid refl, of "[CancelRequest ''t'' ''q'' ''c'']"] g(1)
  show ?thesis by (auto simp: option.map_ident)
qed

end
