(* ===== verification/Gateway_Accounting.thy ===== *)
theory Gateway_Accounting
  imports Gateway_Safety
begin

text \<open>
  How a request ends when the store works and the providers keep to what they were asked: it is settled,
  with exactly its price charged and no reservation left behind.
\<close>

subsection \<open>Well-behaved providers\<close>

text \<open>
  A provider counts at most the estimated prompt tokens and at most the requested completion tokens, and
  does not panic.
\<close>

definition usage_within :: "service \<Rightarrow> completion_request \<Rightarrow> usage \<Rightarrow> bool" where
  "usage_within sv cq u \<longleftrightarrow>
     0 \<le> prompt_tokens u \<and> prompt_tokens u \<le> estimate_prompt_tokens (cq_messages cq)
     \<and> 0 \<le> completion_tokens u
     \<and> completion_tokens u \<le> max 0 (if cq_max_tokens cq = 0 then gc_default_max_tokens (sv_config sv) else cq_max_tokens cq)"

primrec stream_within :: "(usage \<Rightarrow> bool) \<Rightarrow> stream_act \<Rightarrow> bool" where
  "stream_within P (StreamOk u) \<longleftrightarrow> P u"
| "stream_within P (StreamErr e) \<longleftrightarrow> \<not> is_panic e"
| "stream_within P (Emit ck k) \<longleftrightarrow> (\<forall>r. stream_within P (k r))"

definition well_behaved :: "'w world_ops \<Rightarrow> service \<Rightarrow> bool" where
  "well_behaved wo sv \<longleftrightarrow>
     (\<forall>name timeout cq w.
        (case fst (wo_complete wo name timeout cq w) of Inl e \<Rightarrow> \<not> is_panic e | Inr c \<Rightarrow> usage_within sv cq (cp_usage c))
        \<and> stream_within (usage_within sv cq) (fst (wo_stream wo name timeout cq w)))"

definition prices_ok :: "router \<Rightarrow> bool" where
  "prices_ok rt \<longleftrightarrow> (\<forall>e \<in> set (rt_providers rt). 0 \<le> pc_input_cost (mg_config e) \<and> 0 \<le> pc_output_cost (mg_config e))"

lemma run_stream_within:
  "stream_within P act \<Longrightarrow> run_stream f act c = (res, c') \<Longrightarrow> case res of Inl e \<Rightarrow> \<not> is_panic e | Inr u \<Rightarrow> P u"
  by (induction act arbitrary: c) (auto split: prod.splits)

lemma call_provider_within:
  assumes "well_behaved wo sv" "call_provider wo sv name timeout i a g = ((res, partial), g')"
  shows "case res of
      Inl e \<Rightarrow> \<not> is_panic e
    | Inr c \<Rightarrow> 0 \<le> prompt_tokens (cp_usage c) \<and> prompt_tokens (cp_usage c) \<le> estimate_prompt_tokens (ci_messages (ca_input a))
        \<and> 0 \<le> completion_tokens (cp_usage c) \<and> completion_tokens (cp_usage c) \<le> max 0 (max_completion sv (ca_input a))"
proof -
  define cq where "cq = \<lparr>cq_request_id = i, cq_model = ci_model (ca_input a), cq_messages = ci_messages (ca_input a),
                cq_temperature = ci_temperature (ca_input a), cq_max_tokens = ci_max_tokens (ca_input a)\<rparr>"
  have use: "usage_within sv cq u \<longleftrightarrow> 0 \<le> prompt_tokens u \<and> prompt_tokens u \<le> estimate_prompt_tokens (ci_messages (ca_input a))
        \<and> 0 \<le> completion_tokens u \<and> completion_tokens u \<le> max 0 (max_completion sv (ca_input a))" for u
    by (simp add: usage_within_def cq_def max_completion_def)
  obtain act w1 where st: "wo_stream wo name timeout cq (gw_world g) = (act, w1)" by fastforce
  obtain r2 content p2 w2 where rs: "run_stream (stream_emit wo (gc_maximum_stream_bytes (sv_config sv))) act ('''', False, w1)
      = (r2, content, p2, w2)" by (metis surj_pair)
  obtain r1 w' where co: "wo_complete wo name timeout cq (gw_world g) = (r1, w')" by fastforce
  have "stream_within (usage_within sv cq) act" "case r1 of Inl e \<Rightarrow> \<not> is_panic e | Inr c \<Rightarrow> usage_within sv cq (cp_usage c)"
    using assms(1) st co unfolding well_behaved_def by (metis fst_conv)+
  moreover have "case r2 of Inl e \<Rightarrow> \<not> is_panic e | Inr u \<Rightarrow> usage_within sv cq u"
    by (rule run_stream_within [OF calculation(1) rs])
  ultimately show ?thesis
    using assms(2) st rs co
    by (auto simp: call_provider_def Let_def use cq_def [symmetric] split: if_splits sum.splits)
qed

text \<open>A call of the selected provider then costs no more than was reserved.\<close>

lemma lease_prices_nonneg:
  assumes "router_inv rt" "static_eq rt0 rt" "prices_ok rt0" "select clock selection rt = (Inr l, rt1)"
  shows "0 \<le> ls_input_cost l" "0 \<le> ls_output_cost l"
proof -
  obtain i where i: "admissible (effective clock selection) rt i" "l = make_lease i rt"
    using selected_lease [OF assms(1,4)] by metis
  then have "i < length (rt_providers rt0)" "mg_config (rt_providers rt ! i) = mg_config (rt_providers rt0 ! i)"
    using assms(2) by (auto simp: admissible_def static_eq_def)
  with assms(3) i(2) show "0 \<le> ls_input_cost l" "0 \<le> ls_output_cost l"
    by (auto simp: prices_ok_def make_lease_def Let_def)
qed

lemma call_cost_within:
  assumes "well_behaved wo sv" "call_provider wo sv name timeout i a g4 = ((Inr c, partial), g5)"
    and "router_inv rt" "static_eq rt0 rt" "prices_ok rt0"
    and "select now (sel\<lparr>sl_excluded := excluded, sl_now := now\<rparr>) rt = (Inr l, rt1)"
    and "highest_prices sel rt0 = Inr (in_price, out_price)"
    and "cost_micro_usd (estimate_prompt_tokens (ci_messages (ca_input a))) (max_completion sv (ca_input a)) in_price out_price
           = Inr reservation"
  shows "\<exists>cost \<le> reservation. cost_micro_usd (prompt_tokens (cp_usage c)) (completion_tokens (cp_usage c))
           (ls_input_cost l) (ls_output_cost l) = Inr cost"
proof -
  have "fst (select now (sel\<lparr>sl_excluded := excluded, sl_now := now\<rparr>) rt) = Inr l" using assms(6) by simp
  from lease_price_bound [OF assms(4,3) this, of sel] assms(7)
  have "ls_input_cost l \<le> in_price" "ls_output_cost l \<le> out_price" by auto
  with call_provider_within [OF assms(1,2)] lease_prices_nonneg [OF assms(3-6)]
    cost_micro_usd_dominates [OF assms(8), of "prompt_tokens (cp_usage c)" "completion_tokens (cp_usage c)"
      "ls_input_cost l" "ls_output_cost l"] cost_micro_usd_InrD(2) [OF assms(8)]
  show ?thesis by auto
qed

text \<open>What a request reserves.\<close>

definition reservation_for :: "service \<Rightarrow> chat_input \<Rightarrow> tenant_policy \<Rightarrow> router \<Rightarrow> int \<Rightarrow> bool" where
  "reservation_for sv inp policy rt n \<longleftrightarrow>
     (case highest_prices (selection_for sv inp policy) rt of
        Inl e \<Rightarrow> False
      | Inr (in_price, out_price) \<Rightarrow>
          cost_micro_usd (estimate_prompt_tokens (ci_messages inp)) (max_completion sv inp) in_price out_price = Inr n)"

definition granted_reservation :: "service \<Rightarrow> call_args \<Rightarrow> router \<Rightarrow> (string \<Rightarrow> string \<Rightarrow> go_error + tenant_policy) \<Rightarrow> int \<Rightarrow> bool" where
  "granted_reservation sv a rt policies n \<longleftrightarrow>
     (case policies (ca_tenant a) (ci_model (ca_input a)) of
        Inl e \<Rightarrow> False
      | Inr policy \<Rightarrow> reservation_for sv (ca_input a) policy rt n)"

subsection \<open>The loop\<close>

context reliable_store
begin

text \<open>The request \<open>i\<close> of tenant \<open>t\<close> is in state \<open>st\<close> with the reservation \<open>n\<close>.\<close>

definition tracked :: "string \<Rightarrow> string \<Rightarrow> req_state \<Rightarrow> int option \<Rightarrow> 's \<Rightarrow> bool" where
  "tracked i t st n s \<longleftrightarrow>
     inv s \<and> (\<exists>r. view s i = Some r \<and> rec_tenant r = t \<and> rec_state r = st) \<and> reserved s i = n"

text \<open>The other requests and the charges are as in \<open>s\<close>.\<close>

definition elsewhere :: "string \<Rightarrow> 's \<Rightarrow> 's \<Rightarrow> bool" where
  "elsewhere i s s' \<longleftrightarrow> (\<forall>j. j \<noteq> i \<longrightarrow> view s' j = view s j \<and> reserved s' j = reserved s j)"

lemma elsewhere_refl [simp]: "elsewhere i s s"
  by (simp add: elsewhere_def)

lemma elsewhere_trans: "elsewhere i a b \<Longrightarrow> elsewhere i b c \<Longrightarrow> elsewhere i a c"
  by (simp add: elsewhere_def)

lemma elsewhere_view: "elsewhere i s s' \<Longrightarrow> view s' i = x \<Longrightarrow> view s' = (view s)(i := x)"
  by (auto simp: elsewhere_def fun_eq_iff)

lemma elsewhere_reserved: "elsewhere i s s' \<Longrightarrow> reserved s' i = reserved s i \<Longrightarrow> reserved s' = reserved s"
  unfolding elsewhere_def fun_eq_iff by metis

lemma tracked_transition:
  assumes "tracked i t a n s" "can_transition a b"
  obtains s' where "so_transition so t i a b s = (None, s')" "tracked i t b n s'" "elsewhere i s s'" "spent s' = spent s"
    "started s' = started s" "granted s' = granted s"
proof -
  obtain r where r: "view s i = Some r" "rec_tenant r = t" "rec_state r = a" "inv s" "reserved s i = n"
    using assms(1) by (auto simp: tracked_def)
  from transition_ok [OF r(4,1,2,3) assms(2)] obtain r' s' where s': "so_transition so t i a b s = (None, s')"
      "view s' = (view s)(i := Some r')" "rec_tenant r' = t" "rec_state r' = b" "reserved s' = reserved s"
      "spent s' = spent s" "started s' = started s" "granted s' = granted s" by blast
  moreover have "inv s'" using transition_safe [OF r(4), of t i a b] s'(1) by simp
  ultimately show thesis using that r(5) by (auto simp: tracked_def elsewhere_def)
qed

lemma tracked_reserve:
  assumes "tracked i t st None s" "so_reserve so t i n now s = (e, s')"
  shows "view s' = view s \<and> spent s' = spent s \<and> started s' = started s
    \<and> tracked i t st (if e = None then Some n else None) s' \<and> elsewhere i s s'"
proof -
  obtain r where r: "view s i = Some r" "rec_tenant r = t" "rec_state r = st" "inv s" "reserved s i = None"
    using assms(1) by (auto simp: tracked_def)
  then have "inv s'" using reserve_safe [OF r(4), of i t n now] assms(2) by simp
  then show ?thesis using reserve_cases [OF r(4) assms(2)] r by (auto simp: tracked_def elsewhere_def)
qed

text \<open>From a reservation to the first attempt nothing can go wrong.\<close>

lemma tracked_begin:
  assumes "tracked i t Validated n s"
  obtains s1 s2 where "so_transition so t i Validated Routing s = (None, s1)" "so_transition so t i Routing InProgress s1 = (None, s2)"
    "tracked i t InProgress n s2" "elsewhere i s s2" "spent s2 = spent s" "started s2 = started s"
proof -
  have moves: "can_transition Validated Routing" "can_transition Routing InProgress" by simp_all
  obtain s1 where s1: "so_transition so t i Validated Routing s = (None, s1)" "tracked i t Routing n s1" "elsewhere i s s1"
      "spent s1 = spent s" "started s1 = started s"
    by (rule tracked_transition [OF assms moves(1)])
  obtain s2 where s2: "so_transition so t i Routing InProgress s1 = (None, s2)" "tracked i t InProgress n s2" "elsewhere i s1 s2"
      "spent s2 = spent s1" "started s2 = started s1"
    by (rule tracked_transition [OF s1(2) moves(2)])
  have "elsewhere i s s2" using s1(3) s2(3) by (rule elsewhere_trans)
  then show thesis using that [OF s1(1) s2(1,2)] s1 s2 by simp
qed

lemma tracked_start:
  assumes "tracked i t InProgress n s" "atp_request ap = i" "atp_tenant ap = t" "atp_number ap \<notin> started s i"
  obtains s' where "so_start_attempt so ap s = (None, s')" "tracked i t InProgress n s'" "elsewhere i s s'" "spent s' = spent s"
    "started s' i = insert (atp_number ap) (started s i)"
proof -
  obtain r where r: "view s i = Some r" "rec_tenant r = t" "rec_state r = InProgress" "inv s" "reserved s i = n"
    using assms(1) by (auto simp: tracked_def)
  from start_ok [OF r(4), of ap r] r assms(2-4) obtain s' where s': "so_start_attempt so ap s = (None, s')" "view s' = view s"
      "reserved s' = reserved s" "spent s' = spent s" "started s' i = insert (atp_number ap) (started s i)" by auto
  moreover have "inv s'" using start_attempt_safe [OF r(4), of ap] s'(1) by simp
  ultimately show thesis using that r by (auto simp: tracked_def elsewhere_def)
qed

lemma tracked_complete:
  assumes "tracked i t InProgress n s" "cmp_request cp = i" "cmp_tenant cp = t" "cmp_number cp \<in> started s i"
  obtains r s' where "so_complete so cp s = (None, s')" "tracked i t Completed n s'" "elsewhere i s s'" "spent s' = spent s"
    "view s' i = Some r" "rec_response r = Some (cmp_response cp)" "rec_cost r = cmp_cost cp"
proof -
  obtain r where r: "view s i = Some r" "rec_tenant r = t" "rec_state r = InProgress" "inv s" "reserved s i = n"
    using assms(1) by (auto simp: tracked_def)
  from complete_ok [OF r(4), of cp r] r assms(2-4) obtain r' s' where s': "so_complete so cp s = (None, s')"
      "view s' = (view s)(i := Some r')" "rec_state r' = Completed" "rec_response r' = Some (cmp_response cp)"
      "rec_cost r' = cmp_cost cp" "rec_tenant r' = t" "reserved s' = reserved s" "spent s' = spent s" by auto
  moreover have "inv s'" using complete_safe [OF r(4), of cp] s'(1) by simp
  ultimately show thesis using that r by (auto simp: tracked_def elsewhere_def)
qed

lemma tracked_fail:
  assumes "tracked i t InProgress n s" "fap_request fp = i" "fap_tenant fp = t"
  obtains s' where "so_fail_attempt so fp s = (None, s')"
    "tracked i t (if fap_final fp then Failed else InProgress) n s'" "elsewhere i s s'" "spent s' = spent s"
    "started s' = started s"
proof -
  obtain r where r: "view s i = Some r" "rec_tenant r = t" "rec_state r = InProgress" "inv s" "reserved s i = n"
    using assms(1) by (auto simp: tracked_def)
  from fail_ok [OF r(4), of fp r] r assms(2,3) obtain s' where s': "so_fail_attempt so fp s = (None, s')"
      "reserved s' = reserved s" "spent s' = spent s" "started s' = started s"
      "if fap_final fp
         then \<exists>r'. view s' = (view s)(i := Some r') \<and> rec_state r' = Failed
                \<and> rec_failure r' = fap_category fp \<and> rec_partial r' = fap_partial fp \<and> rec_tenant r' = t
         else view s' = view s" by auto
  moreover have "inv s'" using fail_attempt_safe [OF r(4), of fp] s'(1) by simp
  ultimately show thesis using that r by (auto simp: tracked_def elsewhere_def split: if_splits)
qed

lemma tracked_reconcile:
  assumes "tracked i t st n s"
  obtains s' where "so_reconcile so i k s = (None, s')" "tracked i t st None s'" "elsewhere i s s'" "view s' = view s"
    "spent s' = (spent s)(t := i64 (spent s t + k))"
proof -
  obtain r where r: "view s i = Some r" "rec_tenant r = t" "rec_state r = st" "inv s"
    using assms by (auto simp: tracked_def)
  from reconcile_ok [OF r(4,1), of k] r(2) obtain s' where s': "so_reconcile so i k s = (None, s')" "view s' = view s"
      "reserved s' = (reserved s)(i := None)" "spent s' = (spent s)(t := i64 (spent s t + k))" by auto
  moreover have "inv s'" using reconcile_safe [OF r(4), of i k] s'(1) by simp
  ultimately show thesis using that r by (auto simp: tracked_def elsewhere_def)
qed

definition running :: "string \<Rightarrow> string \<Rightarrow> int \<Rightarrow> int \<Rightarrow> 's \<Rightarrow> 's \<Rightarrow> bool" where
  "running i t n number s0 s \<longleftrightarrow>
     tracked i t InProgress (Some n) s \<and> elsewhere i s0 s \<and> spent s = spent s0 \<and> (\<forall>k \<in> started s i. k < number)"

text \<open>A completed request: charged, answered, and its reservation released.\<close>

definition paid :: "string \<Rightarrow> string \<Rightarrow> int \<Rightarrow> 's \<Rightarrow> outcome \<Rightarrow> 's \<Rightarrow> bool" where
  "paid i t n s0 ou s \<longleftrightarrow>
     (\<exists>r cost. tracked i t Completed None s \<and> elsewhere i s0 s \<and> 0 \<le> cost \<and> cost \<le> n
        \<and> spent s = (spent s0)(t := i64 (spent s0 t + cost))
        \<and> view s i = Some r \<and> rec_response r = ou_response ou \<and> rec_response r \<noteq> None \<and> rec_cost r = cost
        \<and> rec_id (ou_record ou) = i \<and> \<not> ou_replayed ou \<and> \<not> ou_pending ou)"

primrec loop_post :: "string \<Rightarrow> string \<Rightarrow> int \<Rightarrow> 's \<Rightarrow> loop_end \<Rightarrow> 's \<Rightarrow> bool" where
  "loop_post i t n s0 (Returned res) s \<longleftrightarrow> (case res of Inl e \<Rightarrow> False | Inr ou \<Rightarrow> paid i t n s0 ou s)"
| "loop_post i t n s0 (Ended err finalized) s \<longleftrightarrow>
     tracked i t (if finalized then Failed else InProgress) (Some n) s \<and> elsewhere i s0 s \<and> spent s = spent s0"

lemma accept_paid:
  assumes "running (rec_id r) (ca_tenant a) n (number + 1) s0 (gw_store g)" "number \<in> started (gw_store g) (rec_id r)"
    and "accept_completion so wo a r number l start c g = (res, g')"
    and "cost_micro_usd (prompt_tokens (cp_usage c)) (completion_tokens (cp_usage c)) (ls_input_cost l) (ls_output_cost l)
          = Inr cost" "cost \<le> n"
  shows "loop_post (rec_id r) (ca_tenant a) n s0 (Returned res) (gw_store g')"
proof -
  let ?i = "rec_id r" and ?t = "ca_tenant a"
  have run: "tracked ?i ?t InProgress (Some n) (gw_store g)" "elsewhere ?i s0 (gw_store g)" "spent (gw_store g) = spent s0"
    using assms(1) by (simp_all add: running_def)
  have complete: "\<exists>q s. so_complete so cp (gw_store g) = (None, s) \<and> tracked ?i ?t Completed (Some n) s
      \<and> elsewhere ?i (gw_store g) s \<and> spent s = spent (gw_store g) \<and> view s ?i = Some q
      \<and> rec_response q = Some (cmp_response cp) \<and> rec_cost q = cmp_cost cp"
    if "cmp_request cp = ?i" "cmp_tenant cp = ?t" "cmp_number cp = number" for cp
    by (rule tracked_complete [OF run(1) that(1,2)]) (use that assms(2) in auto)
  from assms(3) show ?thesis
  proof (cases rule: accept_cases)
    case (no_price e)
    with assms(4) show ?thesis by simp
  next
    case (refused e now cost' w s)
    from complete [of "\<lparr>cmp_request = ?i, cmp_tenant = ?t, cmp_number = number,
         cmp_provider_request = cp_provider_request_id c, cmp_response = build_response ?i (ci_model (ca_input a)) now c,
         cmp_cost = cost', cmp_started_at = start, cmp_correlation = ca_correlation a\<rparr>"] refused(3) show ?thesis by simp
  next
    case (accepted now end_time cost' w s e2 s2 response)
    define cp where "cp = \<lparr>cmp_request = ?i, cmp_tenant = ?t, cmp_number = number,
         cmp_provider_request = cp_provider_request_id c, cmp_response = response,
         cmp_cost = cost', cmp_started_at = start, cmp_correlation = ca_correlation a\<rparr>"
    have cost: "cost' = cost" "0 \<le> cost" using accepted(1) assms(4) cost_micro_usd_InrD(6) by auto
    obtain q where q: "tracked ?i ?t Completed (Some n) s" "elsewhere ?i (gw_store g) s" "spent s = spent (gw_store g)"
        "view s ?i = Some q" "rec_response q = Some response" "rec_cost q = cost"
      using complete [of cp] accepted(3) cost(1) by (auto simp: cp_def)
    obtain s' where s': "so_reconcile so ?i cost s = (None, s')" "tracked ?i ?t Completed None s'" "elsewhere ?i s s'"
        "view s' = view s" "spent s' = (spent s)(?t := i64 (spent s ?t + cost))"
      by (rule tracked_reconcile [OF q(1)])
    have "gw_store g' = s'" using accepted(4,6) s'(1) cost(1) by simp
    moreover have "elsewhere ?i s0 s'" using run(2) q(2) s'(3) by (blast intro: elsewhere_trans)
    ultimately show ?thesis
      using s' q run(3) cost assms(5) accepted(5) by (simp add: paid_def)
  qed
qed

lemma reject_running:
  assumes "running (rec_id r) (ca_tenant a) n number s0 (gw_store g)"
    and "reject_completion so wo sv a r k l start e partial g = (it, g')"
  shows "case it of
      Leave x \<Rightarrow> loop_post (rec_id r) (ca_tenant a) n s0 x (gw_store g')
    | Again name e \<Rightarrow> running (rec_id r) (ca_tenant a) n number s0 (gw_store g')"
  using assms(2)
proof (cases rule: reject_cases)
  case (1 retryable fp o1)
  let ?i = "rec_id r" and ?t = "ca_tenant a"
  have run: "tracked ?i ?t InProgress (Some n) (gw_store g)" "elsewhere ?i s0 (gw_store g)" "spent (gw_store g) = spent s0"
      "\<forall>k \<in> started (gw_store g) ?i. k < number"
    using assms(1) by (simp_all add: running_def)
  obtain s' where s': "so_fail_attempt so fp (gw_store g) = (None, s')"
    "tracked ?i ?t (if fap_final fp then Failed else InProgress) (Some n) s'" "elsewhere ?i (gw_store g) s'"
    "spent s' = spent (gw_store g)" "started s' = started (gw_store g)"
    by (rule tracked_fail [OF run(1), of fp]) (use 1(2) in auto)
  have g': "o1 = None" "gw_store g' = s'" using 1(3) s'(1) by auto
  have "elsewhere ?i s0 s'" using run(2) s'(3) by (rule elsewhere_trans)
  with 1(6) g' s' run 1(2) show ?thesis
    by (cases retryable) (auto simp: running_def)
qed

lemma attempt_running:
  assumes "running (rec_id r) (ca_tenant a) n number s0 (gw_store g)" "attempt so wo sv a r sel number excluded g = (it, g')"
    and "well_behaved wo sv" "router_inv (gw_router g)" "static_eq rt0 (gw_router g)" "prices_ok rt0"
    and "highest_prices sel rt0 = Inr (in_price, out_price)"
    and "cost_micro_usd (estimate_prompt_tokens (ci_messages (ca_input a))) (max_completion sv (ca_input a)) in_price out_price
           = Inr n"
  shows "case it of
      Leave x \<Rightarrow> loop_post (rec_id r) (ca_tenant a) n s0 x (gw_store g')
    | Again name e \<Rightarrow> running (rec_id r) (ca_tenant a) n (number + 1) s0 (gw_store g')"
proof -
  let ?i = "rec_id r" and ?t = "ca_tenant a"
  have run: "tracked ?i ?t InProgress (Some n) (gw_store g)" "elsewhere ?i s0 (gw_store g)" "spent (gw_store g) = spent s0"
      "number \<notin> started (gw_store g) ?i" "\<forall>k \<in> started (gw_store g) ?i. k < number"
    using assms(1) by (auto simp: running_def)
  have start: "\<exists>s'. so_start_attempt so ap (gw_store g) = (None, s') \<and> running ?i ?t n (number + 1) s0 s'
      \<and> number \<in> started s' ?i"
    if "atp_request ap = ?i" "atp_tenant ap = ?t" "atp_number ap = number" for ap
    by (rule tracked_start [OF run(1) that(1,2)]) (use that run in \<open>auto simp: running_def intro: elsewhere_trans\<close>)
  from assms(2) show ?thesis
  proof (cases rule: attempt_cases)
    case (no_lease now w e rt)
    have "fst (select now (sel\<lparr>sl_excluded := excluded, sl_now := now\<rparr>) (gw_router g)) = Inl ErrNoEligibleProvider"
      using select_result [OF assms(4), of now "sel\<lparr>sl_excluded := excluded, sl_now := now\<rparr>"] no_lease(1) by auto
    then have "\<not> is_panic e" using no_lease(1) by auto
    then show ?thesis using no_lease run by simp
  next
    case (refused now w l rt s e)
    from start [of "\<lparr>atp_request = ?i, atp_tenant = ?t, atp_number = number, atp_provider = ls_provider l,
        atp_model = ci_model (ca_input a), atp_correlation = ca_correlation a\<rparr>"] refused(2) show ?thesis by auto
  next
    case (called now l rt s start_time g4 res partial g5)
    have s: "running ?i ?t n (number + 1) s0 (gw_store g5)" "number \<in> started (gw_store g5) ?i"
      using start [of "\<lparr>atp_request = ?i, atp_tenant = ?t, atp_number = number, atp_provider = ls_provider l,
        atp_model = ci_model (ca_input a), atp_correlation = ca_correlation a\<rparr>"] called(2,4) by auto
    show ?thesis
    proof (cases res)
      case (Inl e)
      then have "\<not> is_panic e" using call_provider_within [OF assms(3) called(3)] by simp
      with Inl called(8) have "reject_completion so wo sv a r number l start_time e partial g5 = (it, g')" by simp
      from reject_running [OF s(1) this] show ?thesis .
    next
      case (Inr c)
      then obtain cost where cost: "cost \<le> n" "cost_micro_usd (prompt_tokens (cp_usage c)) (completion_tokens (cp_usage c))
          (ls_input_cost l) (ls_output_cost l) = Inr cost"
        using call_cost_within [OF assms(3) _ assms(4,5,6) called(1) assms(7,8)] called(3) by blast
      from called(8) Inr obtain x where x: "accept_completion so wo a r number l start_time c g5 = (x, g')" "it = Leave (Returned x)"
        by auto
      with accept_paid [OF s x(1) cost(2,1)] show ?thesis by simp
    qed
  qed
qed

lemma attempts_running:
  assumes "running (rec_id r) (ca_tenant a) n 1 (gw_store g) (gw_store g)"
    and "attempts so wo sv a r sel k 1 {} last_err g = (e, g')"
    and "well_behaved wo sv" "router_inv (gw_router g)" "prices_ok (gw_router g)"
    and "highest_prices sel (gw_router g) = Inr (in_price, out_price)"
    and "cost_micro_usd (estimate_prompt_tokens (ci_messages (ca_input a))) (max_completion sv (ca_input a)) in_price out_price
           = Inr n"
  shows "loop_post (rec_id r) (ca_tenant a) n (gw_store g) e (gw_store g')"
proof -
  let ?I = "\<lambda>number excluded h. running (rec_id r) (ca_tenant a) n number (gw_store g) (gw_store h)
    \<and> router_inv (gw_router h) \<and> static_eq (gw_router g) (gw_router h)"
  show ?thesis
    using assms(2)
  proof (rule attempts_rule [where I = ?I])
    fix number excluded h it h'
    assume h: "attempt so wo sv a r sel number excluded h = (it, h')" and I: "?I number excluded h"
    have post: "case it of Leave x \<Rightarrow> loop_post (rec_id r) (ca_tenant a) n (gw_store g) x (gw_store h')
        | Again name e \<Rightarrow> running (rec_id r) (ca_tenant a) n (number + 1) (gw_store g) (gw_store h')"
      using attempt_running [OF _ h assms(3) _ _ assms(5-7)] I by blast
    show "case it of Leave x \<Rightarrow> loop_post (rec_id r) (ca_tenant a) n (gw_store g) x (gw_store h')
        | Again name e \<Rightarrow> ?I (number + 1) (insert name excluded) h'"
    proof (cases it)
      case (Again name x)
      then have "same_slots (gw_router h) (gw_router h')" using attempt_slots [OF _ h] I by auto
      with post Again I show ?thesis by (auto simp: same_slots_def intro: static_eq_trans)
    qed (use post in simp)
  qed (use assms(1,4) in \<open>auto simp: running_def\<close>)
qed

text \<open>A request that did not complete: failed, and nothing charged or reserved.\<close>

definition unpaid :: "string \<Rightarrow> string \<Rightarrow> req_state set \<Rightarrow> 's \<Rightarrow> 's \<Rightarrow> bool" where
  "unpaid i t states s0 s \<longleftrightarrow>
     (\<exists>st \<in> states. tracked i t st None s) \<and> elsewhere i s0 s \<and> spent s = (spent s0)(t := i64 (spent s0 t))"

lemma finish_unpaid:
  assumes "loop_post (rec_id r) (ca_tenant a) n s0 (Ended last_err finalized) (gw_store g)"
    and "finish_failed so wo a r last_err finalized g = (res, g')"
  shows "unpaid (rec_id r) (ca_tenant a) {Failed} s0 (gw_store g') \<and> (\<exists>e. res = Inl e)"
proof -
  let ?i = "rec_id r" and ?t = "ca_tenant a"
  define err where "err = (case last_err of None \<Rightarrow> ErrNoEligibleProvider | Some e \<Rightarrow> e)"
  obtain now w where now: "wo_now wo (gw_world g) = (now, w)" by fastforce
  define fp where "fp = \<lparr>fap_request = ?i, fap_tenant = ?t, fap_number = 0, fap_category = error_category err,
     fap_retryable = False, fap_partial = False, fap_final = True, fap_started_at = now, fap_correlation = ca_correlation a\<rparr>"
  have post: "tracked ?i ?t (if finalized then Failed else InProgress) (Some n) (gw_store g)" "elsewhere ?i s0 (gw_store g)"
      "spent (gw_store g) = spent s0" using assms(1) by auto
  obtain s where s: "tracked ?i ?t Failed (Some n) s" "elsewhere ?i s0 s" "spent s = spent s0"
      "s = (if finalized then gw_store g else snd (so_fail_attempt so fp (gw_store g)))"
  proof (cases finalized)
    case True
    with post that [of "gw_store g"] show thesis by simp
  next
    case False
    then have in_progress: "tracked ?i ?t InProgress (Some n) (gw_store g)" using post by simp
    have fp: "fap_request fp = ?i" "fap_tenant fp = ?t" "fap_final fp" by (simp_all add: fp_def)
    obtain s' where s': "so_fail_attempt so fp (gw_store g) = (None, s')"
        "tracked ?i ?t (if fap_final fp then Failed else InProgress) (Some n) s'" "elsewhere ?i (gw_store g) s'"
        "spent s' = spent (gw_store g)"
      by (rule tracked_fail [OF in_progress fp(1,2)])
    have "elsewhere ?i s0 s'" using post(2) s'(3) by (rule elsewhere_trans)
    with post False s' fp(3) show thesis by (intro that [of s']) simp_all
  qed
  obtain s' where s': "so_reconcile so ?i 0 s = (None, s')" "tracked ?i ?t Failed None s'" "elsewhere ?i s s'"
      "spent s' = (spent s)(?t := i64 (spent s ?t + 0))"
    by (rule tracked_reconcile [OF s(1)])
  have "gw_store g' = s'" "res = Inl err"
    using assms(2) now s(4) s'(1)
    by (auto simp: finish_failed_def Let_def on_world_def on_store_def fp_def err_def split: prod.splits if_splits)
  moreover have "elsewhere ?i s0 s'" using s(2) s'(3) by (rule elsewhere_trans)
  ultimately show ?thesis using s' s(3) by (auto simp: unpaid_def)
qed

subsection \<open>The whole request\<close>

lemma route_settled:
  assumes "tracked (rec_id r) (ca_tenant a) InProgress (Some n) (gw_store g)" "started (gw_store g) (rec_id r) = {}"
    and "route_request so wo sv a r sel g = (res, g')"
    and "well_behaved wo sv" "router_inv (gw_router g)" "prices_ok (gw_router g)"
    and "highest_prices sel (gw_router g) = Inr (in_price, out_price)"
    and "cost_micro_usd (estimate_prompt_tokens (ci_messages (ca_input a))) (max_completion sv (ca_input a)) in_price out_price
           = Inr n"
  shows "case res of
      Inl e \<Rightarrow> unpaid (rec_id r) (ca_tenant a) {Failed} (gw_store g) (gw_store g')
    | Inr ou \<Rightarrow> paid (rec_id r) (ca_tenant a) n (gw_store g) ou (gw_store g')"
proof -
  obtain e g1 where at: "attempts so wo sv a r sel (nat (gc_max_attempts (sv_config sv))) 1 {} None g = (e, g1)"
    by fastforce
  have "running (rec_id r) (ca_tenant a) n 1 (gw_store g) (gw_store g)" using assms(1,2) by (simp add: running_def)
  from attempts_running [OF this at assms(4-8)]
  have post: "loop_post (rec_id r) (ca_tenant a) n (gw_store g) e (gw_store g1)" .
  show ?thesis
  proof (cases e)
    case (Returned x)
    with assms(3) at post show ?thesis by (auto simp: route_request_def split: sum.splits)
  next
    case (Ended last_err finalized)
    with assms(3) at have fin: "finish_failed so wo a r last_err finalized g1 = (res, g')" by (simp add: route_request_def)
    have "loop_post (rec_id r) (ca_tenant a) n (gw_store g) (Ended last_err finalized) (gw_store g1)"
      using post Ended by simp
    from finish_unpaid [OF this fin] show ?thesis by auto
  qed
qed

text \<open>What the request changed: the charge of its tenant and its own record.\<close>

definition settles :: "string \<Rightarrow> string \<Rightarrow> (int \<Rightarrow> bool) \<Rightarrow> 's \<Rightarrow> (go_error + outcome) \<Rightarrow> 's \<Rightarrow> bool" where
  "settles i t P s0 res s \<longleftrightarrow>
     (case res of
        Inl e \<Rightarrow> unpaid i t {Failed, BudgetRejected, Validated} s0 s
      | Inr ou \<Rightarrow> \<exists>n. P n \<and> paid i t n s0 ou s)"

lemma settles_from:
  assumes "settles i t P s1 res s" "elsewhere i s0 s1" "spent s1 = spent s0"
  shows "settles i t P s0 res s"
proof (cases res)
  case (Inl e)
  with assms show ?thesis by (auto simp: settles_def unpaid_def intro: elsewhere_trans)
next
  case (Inr ou)
  with assms show ?thesis unfolding settles_def paid_def by (auto intro: elsewhere_trans)
qed

lemma reserve_and_route_settles:
  assumes "tracked (rec_id r) (ca_tenant a) Validated None (gw_store g)" "started (gw_store g) (rec_id r) = {}"
    and "reserve_and_route so wo sv a r policy g = (res, g')"
    and "well_behaved wo sv" "router_inv (gw_router g)" "prices_ok (gw_router g)"
    and "in_i64 (spent (gw_store g) (ca_tenant a))"
  shows "settles (rec_id r) (ca_tenant a) (reservation_for sv (ca_input a) policy (gw_router g)) (gw_store g) res (gw_store g')"
proof -
  let ?i = "rec_id r" and ?t = "ca_tenant a" and ?s = "gw_store g"
  have spent: "(spent ?s)(?t := i64 (spent ?s ?t)) = spent ?s" using assms(7) by simp
  obtain q where q: "view ?s ?i = Some q" "rec_tenant q = ?t" "rec_state q = Validated" "inv ?s" "reserved ?s ?i = None"
    using assms(1) by (auto simp: tracked_def)
  have moves: "can_transition Validated Failed" by simp
  note reserve = tracked_reserve [OF assms(1)]
  from assms(3) show ?thesis
  proof (cases rule: reserve_and_route_cases)
    case (no_prices e e' s)
    obtain s' where "so_transition so ?t ?i Validated Failed ?s = (None, s')" "tracked ?i ?t Failed None s'" "elsewhere ?i ?s s'"
        "spent s' = spent ?s"
      by (rule tracked_transition [OF assms(1) moves])
    with no_prices spent show ?thesis by (auto simp: settles_def unpaid_def)
  next
    case (no_cost e in_price out_price)
    with assms(1) spent show ?thesis by (auto simp: settles_def unpaid_def)
  next
    case (rejected e in_price out_price n now w s)
    note res = reserve [OF rejected(4)]
    show ?thesis
    proof (cases "errors_is e ErrExceeded")
      case True
      have "inv s" "view s ?i = Some q" using res q by (auto simp: tracked_def)
      from reject_ok [OF this q(2,3), of "ca_correlation a" n] obtain q' s' where
        s': "so_reject so ?t ?i (ca_correlation a) n s = (None, s')" "view s' = (view s)(?i := Some q')" "rec_tenant q' = ?t"
          "rec_state q' = BudgetRejected" "reserved s' = reserved s" "spent s' = spent s" by blast
      moreover have "inv s'" using reject_safe [OF \<open>inv s\<close>, of ?t ?i "ca_correlation a" n] s'(1) by simp
      ultimately show ?thesis
        using True rejected res spent by (auto simp: settles_def unpaid_def tracked_def elsewhere_def)
    next
      case False
      with rejected res spent show ?thesis by (auto simp: settles_def unpaid_def)
    qed
  next
    case (stuck e in_price out_price n now w s s2)
    have val: "tracked ?i ?t Validated (Some n) s" using reserve [OF stuck(4)] by simp
    obtain s3 s4 where "so_transition so ?t ?i Validated Routing s = (None, s3)" "so_transition so ?t ?i Routing InProgress s3 = (None, s4)"
      by (rule tracked_begin [OF val])
    with stuck(5) show ?thesis by simp
  next
    case (routed in_price out_price n now w s1 s2 s3 g4)
    note res = reserve [OF routed(3)]
    have val: "tracked ?i ?t Validated (Some n) s1" using res by simp
    have s3: "tracked ?i ?t InProgress (Some n) s3 \<and> elsewhere ?i s1 s3 \<and> spent s3 = spent s1 \<and> started s3 = started s1"
      by (rule tracked_begin [OF val]) (use routed(4,5) in simp)
    have same: "elsewhere ?i ?s s3" "spent s3 = spent ?s" "started s3 ?i = {}"
      using res s3 assms(2) by (auto intro: elsewhere_trans)
    have hp: "highest_prices (selection_for sv (ca_input a) policy) (gw_router g4) = Inr (in_price, out_price)"
      using routed(1,6) by simp
    have "case res of Inl e \<Rightarrow> unpaid ?i ?t {Failed} s3 (gw_store g') | Inr ou \<Rightarrow> paid ?i ?t n s3 ou (gw_store g')"
      using route_settled [OF _ _ routed(7) assms(4) _ _ hp routed(2)] s3 same(3) routed(6) assms(5,6)
      by (simp cong: sum.case_cong)
    then have "settles ?i ?t (reservation_for sv (ca_input a) policy (gw_router g)) s3 res (gw_store g')"
      using routed(1,2) by (auto simp: settles_def unpaid_def reservation_for_def split: sum.splits)
    then show ?thesis using same(1,2) by (rule settles_from)
  qed
qed

lemma run_created_settles:
  assumes "tracked (rec_id r) (ca_tenant a) Received None (gw_store g)" "started (gw_store g) (rec_id r) = {}"
    and "run_created so wo sv a r g = (res, g')"
    and "well_behaved wo sv" "router_inv (gw_router g)" "prices_ok (gw_router g)"
    and "in_i64 (spent (gw_store g) (ca_tenant a))"
  shows "settles (rec_id r) (ca_tenant a) (granted_reservation sv a (gw_router g) (granted (gw_store g))) (gw_store g) res (gw_store g')"
proof -
  let ?i = "rec_id r" and ?t = "ca_tenant a" and ?s = "gw_store g"
  have moves: "can_transition Received Validated" "can_transition Validated Failed" by simp_all
  obtain s1 where s1: "so_transition so ?t ?i Received Validated ?s = (None, s1)" "tracked ?i ?t Validated None s1"
      "elsewhere ?i ?s s1" "spent s1 = spent ?s" "started s1 = started ?s" "granted s1 = granted ?s"
    by (rule tracked_transition [OF assms(1) moves(1)])
  have policy: "pol = granted ?s ?t m \<and> tracked ?i ?t Validated None s2 \<and> elsewhere ?i s1 s2 \<and> spent s2 = spent s1 \<and> started s2 = started s1"
    if "so_policy so ?t m s1 = (pol, s2)" for m pol s2
  proof -
    have inv: "inv s1" using s1(2) by (simp add: tracked_def)
    from policy_pure [OF inv, of ?t m] policy_safe [OF inv, of ?t m] s1(2,6) that show ?thesis
      by (simp add: tracked_def elsewhere_def)
  qed
  from assms(3) show ?thesis
  proof (cases rule: run_created_cases)
    case (not_validated e s)
    with s1 show ?thesis by simp
  next
    case (turned_away e s1' pol s2 e' s3)
    then have s2: "tracked ?i ?t Validated None s2" "elsewhere ?i s1 s2" "spent s2 = spent s1"
      using policy s1(1) by auto
    have "tracked ?i ?t Failed None s3 \<and> elsewhere ?i s2 s3 \<and> spent s3 = spent s2"
      by (rule tracked_transition [OF s2(1) moves(2)]) (simp add: turned_away(3))
    moreover have "(spent ?s)(?t := i64 (spent ?s ?t)) = spent ?s" using assms(7) by simp
    moreover have "gw_store g' = s3" using turned_away(5) by (simp add: same_core_def)
    ultimately show ?thesis
      using s1 s2 turned_away(4) by (auto simp: settles_def unpaid_def intro: elsewhere_trans)
  next
    case (admitted s1' policy s2 h h')
    then have s2: "tracked ?i ?t Validated None s2" "elsewhere ?i s1 s2" "spent s2 = spent s1" "started s2 = started s1"
      using policy s1(1) by auto
    have h: "gw_store h = s2" "gw_router h = gw_router g" "gw_store g' = gw_store h'"
      using admitted(3,5) by (simp_all add: same_core_def)
    have "granted ?s ?t (ci_model (ca_input a)) = Inr policy" using policy admitted(1,2) s1(1) by auto
    then have res: "granted_reservation sv a (gw_router g) (granted ?s) = reservation_for sv (ca_input a) policy (gw_router g)"
      by (simp add: granted_reservation_def fun_eq_iff)
    have "settles ?i ?t (granted_reservation sv a (gw_router g) (granted ?s)) s2 res (gw_store g')"
      unfolding res using reserve_and_route_settles [OF _ _ admitted(4) assms(4)] h s2 s1 assms(2,5-7) by simp
    moreover have "elsewhere ?i ?s s2" using s1(3) s2(2) by (rule elsewhere_trans)
    ultimately show ?thesis using settles_from s1(4) s2(3) by metis
  qed
qed

text \<open>
  The effect of one call on the store: either it settles a request that was new, or it is a repetition or
  was refused, and nothing changed.
\<close>

lemma execute_settles:
  assumes "inv (gw_store g)" "execute so wo sv a g = (res, g')"
    and "well_behaved wo sv" "router_inv (gw_router g)" "prices_ok (gw_router g)"
    and "in_i64 (spent (gw_store g) (ca_tenant a))"
  shows "(view (gw_store g') = view (gw_store g) \<and> reserved (gw_store g') = reserved (gw_store g)
           \<and> spent (gw_store g') = spent (gw_store g) \<and> (\<forall>ou. res = Inr ou \<longrightarrow> ou_replayed ou))
       \<or> (\<exists>i. view (gw_store g) i = None \<and> reserved (gw_store g) i = None
           \<and> settles i (ca_tenant a) (granted_reservation sv a (gw_router g) (granted (gw_store g))) (gw_store g) res (gw_store g'))"
  using assms(2)
proof (cases rule: execute_cases)
  case (refused hash e s)
  then show ?thesis using create_old [OF assms(1) refused(2)] by auto
next
  case (repeated hash r s)
  then show ?thesis using create_old [OF assms(1) repeated(2)] by auto
next
  case (created hash r s)
  have new: "view (gw_store g) (rec_id r) = None" "view s = (view (gw_store g))(rec_id r := Some r)" "rec_tenant r = ca_tenant a"
      "rec_state r = Received" "reserved s = reserved (gw_store g)" "reserved (gw_store g) (rec_id r) = None"
      "spent s = spent (gw_store g)" "started s (rec_id r) = {}" "granted s = granted (gw_store g)"
    using create_new [OF assms(1) created(3)] by auto
  have "inv s" using create_safe [OF assms(1)] created(3) by (metis snd_conv)
  then have tr: "tracked (rec_id r) (ca_tenant a) Received None (gw_store (g\<lparr>gw_store := s\<rparr>))"
    using new by (simp add: tracked_def)
  have "settles (rec_id r) (ca_tenant a) (granted_reservation sv a (gw_router g) (granted (gw_store g))) s res (gw_store g')"
    using run_created_settles [OF tr _ created(4) assms(3)] new assms(4-6) by auto
  moreover have "elsewhere (rec_id r) (gw_store g) s" using new by (simp add: elsewhere_def)
  ultimately show ?thesis using settles_from new by metis
qed simp

end

subsection \<open>Settlement\<close>


lemma content_bytes_nonneg: "0 \<le> content_bytes ms"
  by (induction ms) auto

lemma estimate_prompt_tokens_nonneg: "0 \<le> estimate_prompt_tokens ms"
  using content_bytes_nonneg [of ms] by (simp add: estimate_prompt_tokens_def go_quo_nonneg pos_imp_zdiv_nonneg_iff)

lemma sample_well_behaved: "well_behaved sample_world sample_service"
  by (simp add: well_behaved_def sample_world_def sample_usage_def usage_within_def estimate_prompt_tokens_nonneg)

lemma sample_prices_ok: "prices_ok sample_router"
  by (simp add: prices_ok_def sample_managed_def sample_config_def)

lemma sample_alone:
  obtains ou g where "execute (memory_ops (\<lambda>x. x)) sample_world sample_service sample_args (sample_gw sample_store) = (Inr ou, g)"
    "\<not> ou_replayed ou"
  using sample_completes_alone by (metis (no_types, lifting) fresh_answer_def old.sum.exhaust old.sum.simps(5,6) surjective_pairing)




end
