(* ===== verification/Gateway_Progress.thy ===== *)
theory Gateway_Progress
  imports Gateway_Accounting
begin

text \<open>
  A request in good order gets its answer.
\<close>

context reliable_store
begin

lemma paid_answer: "paid i t n s0 ou s \<Longrightarrow> \<not> ou_replayed ou \<and> ou_response ou \<noteq> None"
  unfolding paid_def by (elim exE conjE) simp

lemma route_completes:
  assumes "tracked (rec_id r) (ca_tenant a) InProgress (Some n) (gw_store g)" "started (gw_store g) (rec_id r) = {}"
    and "well_behaved wo sv" "router_inv (gw_router g)" "prices_ok (gw_router g)"
    and "highest_prices sel (gw_router g) = Inr (in_price, out_price)"
    and "cost_micro_usd (estimate_prompt_tokens (ci_messages (ca_input a))) (max_completion sv (ca_input a)) in_price out_price
           = Inr n"
    and "1 \<le> gc_max_attempts (sv_config sv)" "\<not> ca_streaming a"
    and "\<And>name timeout cq w. \<exists>c. fst (wo_complete wo name timeout cq w) = Inr c"
    and "\<And>now. \<exists>j. admissible (effective now (sel\<lparr>sl_excluded := {}, sl_now := now\<rparr>)) (gw_router g) j"
  shows "\<exists>ou g'. route_request so wo sv a r sel g = (Inr ou, g')"
proof -
  let ?i = "rec_id r" and ?t = "ca_tenant a"
  obtain k where k: "nat (gc_max_attempts (sv_config sv)) = Suc k" using assms(8) by (cases "nat (gc_max_attempts (sv_config sv))") auto
  obtain it g1 where at: "attempt so wo sv a r sel 1 {} g = (it, g1)" by fastforce
  have run: "running ?i ?t n 1 (gw_store g) (gw_store g)" using assms(1,2) by (simp add: running_def)
  note post = attempt_running [OF run at assms(3,4) static_eq_refl assms(5-7)]
  have "\<exists>ou. it = Leave (Returned (Inr ou))"
    using at
  proof (cases rule: attempt_cases)
    case (no_lease now w e rt)
    then show ?thesis
      using select_result [OF assms(4), of now "sel\<lparr>sl_excluded := {}, sl_now := now\<rparr>"] assms(11) [of now] by auto
  next
    case (refused now w l rt s e)
    with post show ?thesis by simp
  next
    case (called now l rt s start g4 res partial g5)
    have "\<exists>name timeout cq w. res = fst (wo_complete wo name timeout cq w)"
      using called(3) assms(9) by (auto simp: call_provider_def Let_def split: prod.splits) (metis fst_conv)
    then obtain c where "res = Inr c" using assms(10) by metis
    with called(8) post show ?thesis by (auto split: sum.splits)
  qed
  with at k show ?thesis by (auto simp: route_request_def)
qed

end

text \<open>Whether a reservation fits does not depend on the records, only on who owns them.\<close>

lemma sum_map_evolves:
  assumes "evolves v v'" "\<forall>i \<in> fst ` set rs. v i \<noteq> None"
  shows "sum_map rs v' t = sum_map rs v t"
  using assms(2)
proof (induction rs)
  case (Cons x rs)
  obtain i n where x: "x = (i, n)" by fastforce
  obtain r where r: "v i = Some r" using Cons.prems x by auto
  with assms(1) obtain r' where "v' i = Some r'" "rec_tenant r' = rec_tenant r" by (auto simp: evolves_def legal_move_def)
  with Cons x r show ?case by (simp add: Let_def)
qed simp

lemma memory_op_ledger:
  "so_create (memory_ops clone) p ms = (x, ms') \<Longrightarrow> ledger (ms_memory ms') = ledger (ms_memory ms)"
  "so_transition (memory_ops clone) t i a b ms = (y, ms') \<Longrightarrow> ledger (ms_memory ms') = ledger (ms_memory ms)"
  "so_policy (memory_ops clone) t m ms = (z, ms') \<Longrightarrow> ledger (ms_memory ms') = ledger (ms_memory ms) \<and> z = memory_policy t (ms_memory ms)"
  by (auto simp: memory_ops_def mem_op_eq)

lemma memory_reserve_again:
  assumes "ledger (ms_memory ms') = ledger (ms_memory ms)" "evolves (mem_view ms) (mem_view ms')" "mem_wf (ms_memory ms)"
    and "mem_policies (ms_memory ms) t = Some policy"
    and "can_reserve (tp_monthly_budget policy) (mem_used (ms_memory ms) t)
           (sum_map (mem_reservations (ms_memory ms)) (mem_requests (ms_memory ms)) t) n = None"
  shows "fst (so_reserve (memory_ops clone) t i n now ms') = None"
proof -
  have "sum_map (mem_reservations (ms_memory ms)) (mem_requests (ms_memory ms')) t
      = sum_map (mem_reservations (ms_memory ms)) (mem_requests (ms_memory ms)) t"
    by (rule sum_map_evolves) (use assms(2,3) in \<open>auto simp: mem_view_def mem_wf_def\<close>)
  then show ?thesis
    using assms(1,4,5) by (simp add: memory_ops_def mem_op_eq reserve_budget_def ledger_def)
qed

lemma reserve_and_route_completes:
  assumes "mem.tracked (rec_id r) (ca_tenant a) Validated None (gw_store h)" "mem_started (gw_store h) (rec_id r) = {}"
    and "reserve_and_route (memory_ops clone) wo sv a r policy h = (res, h')"
    and "well_behaved wo sv" "router_inv (gw_router h)" "prices_ok (gw_router h)"
    and "reservation_for sv (ca_input a) policy (gw_router h) n"
    and "\<And>now. fst (so_reserve (memory_ops clone) (ca_tenant a) (rec_id r) n now (gw_store h)) = None"
    and "1 \<le> gc_max_attempts (sv_config sv)" "\<not> ca_streaming a"
    and "\<And>name timeout cq w. \<exists>c. fst (wo_complete wo name timeout cq w) = Inr c"
    and "\<And>now. \<exists>j. admissible (effective now
           (selection_for sv (ca_input a) policy\<lparr>sl_excluded := {}, sl_now := now\<rparr>)) (gw_router h) j"
  shows "\<exists>ou. res = Inr ou"
proof -
  let ?i = "rec_id r" and ?t = "ca_tenant a" and ?so = "memory_ops clone"
  obtain in_price out_price where price: "highest_prices (selection_for sv (ca_input a) policy) (gw_router h) = Inr (in_price, out_price)"
      "cost_micro_usd (estimate_prompt_tokens (ci_messages (ca_input a))) (max_completion sv (ca_input a)) in_price out_price = Inr n"
    using assms(7) by (auto simp: reservation_for_def split: sum.splits)
  from assms(3) show ?thesis
  proof (cases rule: reserve_and_route_cases)
    case (rejected e ip op n' now w s')
    with price assms(8) [of now] show ?thesis by auto
  next
    case (stuck e ip op n' now w s' s3)
    have val: "mem.tracked ?i ?t Validated (Some n') s'"
      using mem.tracked_reserve [OF assms(1), of clone n' now None s'] stuck(4) by simp
    obtain s6 s7 where "so_transition ?so ?t ?i Validated Routing s' = (None, s6)"
        "so_transition ?so ?t ?i Routing InProgress s6 = (None, s7)"
      by (rule mem.tracked_begin [where clone = clone, OF val])
    with stuck(5) show ?thesis by simp
  next
    case (routed ip op n' now w s3 s4 s5 g4)
    have s3: "mem.tracked ?i ?t Validated (Some n') s3" "mem_started s3 = mem_started (gw_store h)"
      using mem.tracked_reserve [OF assms(1), of clone n' now None s3] routed(3) by auto
    have s5: "mem.tracked ?i ?t InProgress (Some n') s5 \<and> mem_started s5 = mem_started s3"
      by (rule mem.tracked_begin [where clone = clone, OF s3(1)]) (use routed(4,5) in simp)
    have "\<exists>ou g'. route_request ?so wo sv a r (selection_for sv (ca_input a) policy) g4 = (Inr ou, g')"
      by (rule mem.route_completes [where clone = clone, OF _ _ assms(4) _ _ _ routed(2) assms(9-11)])
        (use s5 s3 routed(1,6) assms(2,5,6,12) in auto)
    with routed(7) show ?thesis by auto
  qed (use price in auto)
qed

lemma healthy_completes:
  assumes "mem_inv (gw_store g)" "router_inv (gw_router g)" "prices_ok (gw_router g)" "well_behaved wo sv"
    and "in_i64 (mem_spent (gw_store g) (ca_tenant a))"
    and "validate (ca_input a) = None" "hash_chat (wo_marshal wo) (wo_sum256 wo) (ca_input a) = Inr hash"
    and "mem_idempotency (ms_memory (gw_store g)) (idempotency_key (ca_tenant a) (ca_key a)) = None"
    and "mem_policies (ms_memory (gw_store g)) (ca_tenant a) = Some policy" "sv_limiter sv = None"
    and "reservation_for sv (ca_input a) policy (gw_router g) n"
    and "can_reserve (tp_monthly_budget policy) (mem_used (ms_memory (gw_store g)) (ca_tenant a))
           (sum_map (mem_reservations (ms_memory (gw_store g))) (mem_requests (ms_memory (gw_store g))) (ca_tenant a)) n = None"
    and "1 \<le> gc_max_attempts (sv_config sv)" "\<not> ca_streaming a"
    and "\<And>name timeout cq w. \<exists>c. fst (wo_complete wo name timeout cq w) = Inr c"
    and "\<And>now. \<exists>j. admissible (effective now
           (selection_for sv (ca_input a) policy\<lparr>sl_excluded := {}, sl_now := now\<rparr>)) (gw_router g) j"
  shows "\<exists>ou g'. execute (memory_ops clone) wo sv a g = (Inr ou, g') \<and> \<not> ou_replayed ou \<and> ou_response ou \<noteq> None"
proof -
  let ?so = "memory_ops clone" and ?s0 = "gw_store g" and ?t = "ca_tenant a"
  obtain res g' where ex: "execute ?so wo sv a g = (res, g')" by fastforce
  have wf: "mem_wf (ms_memory ?s0)" using assms(1) by (rule mem_inv_wf)
  from ex show ?thesis
  proof (cases rule: execute_cases)
    case (created hash r s)
    let ?i = "rec_id r"
    have new: "mem_view s = (mem_view ?s0)(?i := Some r)" "rec_tenant r = ?t" "rec_state r = Received" "mem_reserved s ?i = None"
        "mem_started s ?i = {}" "mem_spent s = mem_spent ?s0"
      using mem.create_new [OF assms(1) created(3)] by auto
    have s: "mem_inv s" "evolves (mem_view ?s0) (mem_view s)"
      using mem.create_safe [OF assms(1)] created(3) by (metis snd_conv)+
    have tr: "mem.tracked ?i ?t Received None s" using s(1) new by (simp add: mem.tracked_def)
    have moves: "can_transition Received Validated" "can_transition Validated Routing" "can_transition Routing InProgress" by simp_all
    have settles: "mem.settles ?i ?t (granted_reservation sv a (gw_router g) (mem_granted s)) s res (gw_store g')"
      using mem.run_created_settles [OF _ _ created(4) assms(4)] tr new(5,6) assms(2,3,5) by simp
    have "\<exists>ou. res = Inr ou"
      using created(4)
    proof (cases rule: run_created_cases)
      case (not_validated e s1)
      obtain s2 where "so_transition ?so ?t ?i Received Validated s = (None, s2)"
        by (rule mem.tracked_transition [where clone = clone, OF tr moves(1)])
      with not_validated show ?thesis by simp
    next
      case (turned_away e s1 pol s2 e' s3)
      then have pol: "pol = memory_policy ?t (ms_memory s1)" "ledger (ms_memory s1) = ledger (ms_memory ?s0)"
        using memory_op_ledger created(3) by (metis gw.select_convs(1) gw.surjective gw.update_convs(1))+
      then have "pol = Inr policy" using assms(9) by (simp add: memory_policy_def ledger_def)
      with turned_away(6) assms(10) show ?thesis by (simp add: admit_def)
    next
      case (admitted s1 policy' s2 h h')
      have tr1: "mem.tracked ?i ?t Validated None s1 \<and> mem_started s1 = mem_started s"
        by (rule mem.tracked_transition [where clone = clone, OF tr moves(1)]) (use admitted(1) in simp)
      have s1: "mem_inv s1" "evolves (mem_view s) (mem_view s1)"
        using mem.transition_safe [OF s(1), of clone ?t ?i Received Validated] admitted(1) by simp_all
      have s2: "mem_view s2 = mem_view s1" "mem_reserved s2 = mem_reserved s1" "mem_started s2 = mem_started s1" "mem_inv s2"
        using mem.policy_pure [OF s1(1), of clone ?t "ci_model (ca_input a)"] mem.policy_safe [OF s1(1), of clone ?t "ci_model (ca_input a)"]
          admitted(2) by simp_all
      have tr2: "mem.tracked ?i ?t Validated None s2" using tr1 s2 by (simp add: mem.tracked_def)
      have led: "ledger (ms_memory s1) = ledger (ms_memory ?s0)" "ledger (ms_memory s2) = ledger (ms_memory ?s0)"
          "Inr policy' = memory_policy ?t (ms_memory s1)"
        using memory_op_ledger(1) [OF created(3)] memory_op_ledger(2) admitted(1) memory_op_ledger(3) [OF admitted(2)] by auto
      then have pol: "policy' = policy" using assms(9) by (simp add: memory_policy_def ledger_def)
      have h: "gw_store h = s2" "gw_router h = gw_router g" using admitted(3) by (simp_all add: same_core_def)
      have "evolves (mem_view ?s0) (mem_view s2)" using s(2) s1(2) s2(1) evolves_trans by metis
      then have fits: "fst (so_reserve ?so ?t ?i n now s2) = None" for now
        by (rule memory_reserve_again [OF led(2) _ wf assms(9,12)])
      show ?thesis
        by (rule reserve_and_route_completes [OF _ _ admitted(4) [unfolded pol] assms(4) _ _ assms(11) [folded h(2)] _ assms(13-15)])
          (use tr2 s2 tr1 new(5) h fits assms(2,3,16) in auto)
    qed
    then obtain ou where ou: "res = Inr ou" by blast
    then have "\<not> ou_replayed ou" "ou_response ou \<noteq> None" using settles
      by (auto simp: mem.settles_def dest: mem.paid_answer)
    with ex ou show ?thesis by blast
  qed (use assms(6-8) in \<open>auto simp: memory_ops_def mem_op_eq create_or_get_request_def Let_def split: option.splits\<close>)
qed


lemma sample_effective:
  "\<exists>j. admissible (effective now (selection_for sample_service (ca_input sample_args) sample_policy
       \<lparr>sl_excluded := {}, sl_now := now\<rparr>)) sample_router j"
  by (auto simp: admissible_def effective_def eligible_entry_def sample_managed_def sample_config_def selection_for_def
      sample_args_def sample_policy_def policy_allows_def can_serve_def cb_state_at_def new_breaker_def sample_breaker_def
      Let_def admits_def breaker_of_def cb_allow_def intro!: exI [of _ 0])


end
