(* ===== verification/Evaluation.thy ===== *)
theory Evaluation
  imports Go_Regexp Go_Float
begin

text \<open>
  The package \<open>internal/evaluation\<close>: the four deterministic evaluators of a response. The regular
  expressions of the PII detector are expressions of theory \<open>Go_Regexp\<close> over the runes of the response.
  \<open>elapsed\<close> is what \<open>time.Since\<close> reports and \<open>lower\<close> the table of \<open>unicode.ToLower\<close> outside ASCII.
\<close>

record eval_input =
  ei_response :: string
  ei_requested_format :: string
  ei_provider_latency :: duration
  ei_total_latency :: duration
  ei_prompt_tokens :: int
  ei_completion_tokens :: int
  ei_cost :: int
  ei_max_provider_latency :: duration
  ei_max_total_latency :: duration
  ei_max_tokens :: int
  ei_max_cost :: int
  ei_blocked_terms :: "string list"

record eval_finding =
  ef_code :: string
  ef_severity :: string
  ef_message :: string
  ef_masked :: string

record eval_result =
  er_name :: string
  er_version :: string
  er_score :: int
  er_status :: string
  er_findings :: "eval_finding list"
  er_duration :: duration

text \<open>\<open>mask\<close>, on the runes of the value.\<close>

definition mask_runes :: "rune list \<Rightarrow> string" where
  "mask_runes rs =
     (if length rs \<le> 4 then replicate (length rs) CHR ''*''
      else string_of_runes [hd rs] @ replicate (length rs - 2) CHR ''*'' @ string_of_runes [last rs])"

definition mask_text :: "string \<Rightarrow> string" where
  "mask_text v = mask_runes (runes v)"

subsection \<open>Personal data\<close>

definition digit :: regexp where "digit = Class [(48, 57)]"
definition upper :: regexp where "upper = Class [(65, 90)]"

text \<open>Under \<open>(?i)\<close> the class \<open>[A-Z]\<close> has the lower case letters too, the long s and the Kelvin sign.\<close>

definition any_case :: "(rune \<times> rune) list" where
  "any_case = [(65, 90), (97, 122), (0x17F, 0x17F), (0x212A, 0x212A)]"

definition bounded :: "regexp \<Rightarrow> regexp" where
  "bounded r = Seq Boundary (Seq r Boundary)"

definition email_pattern :: regexp where
  "email_pattern = bounded
     (Seq (Plus (Class (any_case @ [(48, 57), (46, 46), (95, 95), (37, 37), (43, 43), (45, 45)])))
     (Seq (Class [(64, 64)])
     (Seq (Plus (Class (any_case @ [(48, 57), (46, 46), (45, 45)])))
     (Seq (Class [(46, 46)])
       (AtLeast 2 (Class any_case))))))"

definition phone_pattern :: regexp where
  "phone_pattern = bounded
     (Seq (Opt (Class [(43, 43)])) (Seq digit
     (Seq (AtLeast 7 (Class [(48, 57), (32, 32), (40, 40), (41, 41), (45, 45)])) digit)))"

definition card_pattern :: regexp where
  "card_pattern = bounded (Between 13 19 (Seq digit (Star False (Class [(32, 32), (45, 45)]))))"

definition national_pattern :: regexp where
  "national_pattern = bounded (Seq (Times 2 upper) (Seq (Times 6 digit) (Opt upper)))"

definition ip_pattern :: regexp where
  "ip_pattern = bounded (Seq (Times 3 (Seq (Between 1 3 digit) (Class [(46, 46)]))) (Between 1 3 digit))"

definition pii_patterns :: "(string \<times> regexp) list" where
  "pii_patterns =
     [(''email'', email_pattern), (''phone'', phone_pattern), (''payment_card_like'', card_pattern),
      (''national_identifier_like'', national_pattern), (''ip_address'', ip_pattern)]"

text \<open>
  \<open>net.ParseIP\<close> on a text of digits and dots: four decimal fields up to 255 without leading zeros.
  \<open>val\<close> and \<open>len\<close> are the value and the length of the current field, \<open>pos\<close> the number of complete ones.
\<close>

fun ip_fields :: "rune list \<Rightarrow> nat \<Rightarrow> nat \<Rightarrow> nat \<Rightarrow> bool" where
  "ip_fields [] val len pos = (pos = 3)"
| "ip_fields (c # cs) val len pos =
     (if 48 \<le> c \<and> c \<le> 57 then
        if len = 1 \<and> val = 0 then False
        else if val * 10 + (c - 48) > 255 then False
        else ip_fields cs (val * 10 + (c - 48)) (len + 1) pos
      else if c = 46 then
        if len = 0 \<or> cs = [] \<or> pos = 3 then False else ip_fields cs 0 0 (pos + 1)
      else False)"

definition parse_ip :: "rune list \<Rightarrow> bool" where
  "parse_ip cs = ip_fields cs 0 0 0"

definition pii_found :: "string \<Rightarrow> (string \<times> rune list) list" where
  "pii_found response =
     [(code, w). (code, r) \<leftarrow> pii_patterns, w \<leftarrow> find_all r (None, runes response),
        \<not> (code = ''ip_address'' \<and> \<not> parse_ip w)]"

definition pii_evaluate :: "duration \<Rightarrow> eval_input \<Rightarrow> eval_result" where
  "pii_evaluate elapsed inp =
     (let findings = map (\<lambda>(code, w). \<lparr>ef_code = code, ef_severity = ''high'',
                             ef_message = ''possible sensitive value detected'', ef_masked = mask_runes w\<rparr>)
                       (pii_found (ei_response inp));
          fail = 0 < length findings
      in \<lparr>er_name = ''pii_detector'', er_version = ''1.0.0'',
          er_score = (if fail then max 0 (1000 - int (length findings) * 250) else 1000),
          er_status = (if fail then ''fail'' else ''pass''), er_findings = findings, er_duration = elapsed\<rparr>)"

subsection \<open>Quality\<close>

fun count_words :: "string list \<Rightarrow> (string \<Rightarrow> int) \<Rightarrow> int \<Rightarrow> int" where
  "count_words [] counts maximum = maximum"
| "count_words (w # ws) counts maximum =
     (let counts' = counts(w := counts w + 1) in count_words ws counts' (max maximum (counts' w)))"

definition repeated_ratio :: "string list \<Rightarrow> rat" where
  "repeated_ratio words =
     (if words = [] then 0
      else fl64 (fl64 (of_int (count_words words (\<lambda>_. 0) 0)) / fl64 (of_nat (length words))))"

definition plain_finding :: "string \<Rightarrow> string \<Rightarrow> string \<Rightarrow> eval_finding" where
  "plain_finding code severity message = \<lparr>ef_code = code, ef_severity = severity, ef_message = message, ef_masked = ''''\<rparr>"

text \<open>The three checks of a response that is not empty: what is wrong, the finding and the points lost.\<close>

definition quality_checks :: "(rune \<Rightarrow> rune) \<Rightarrow> eval_input \<Rightarrow> (bool \<times> eval_finding \<times> int) list" where
  "quality_checks lower inp =
     (let trimmed = trim_space (ei_response inp); words = str_fields (to_lower lower trimmed) in
      [(length trimmed < 20, plain_finding ''too_short'' ''medium'' ''response may not be useful'', 250),
       (repeated_ratio words > fl64 (6 / 10) \<and> length words \<ge> 8,
        plain_finding ''repetition'' ''medium'' ''response contains excessive repetition'', 300),
       (ei_requested_format inp = ''json'' \<and> \<not> (is_prefix_of ''{'' trimmed \<and> has_suffix trimmed ''}''),
        plain_finding ''format_mismatch'' ''medium'' ''response does not match requested JSON format'', 300)])"

definition quality_evaluate :: "(rune \<Rightarrow> rune) \<Rightarrow> duration \<Rightarrow> eval_input \<Rightarrow> eval_result" where
  "quality_evaluate lower elapsed inp =
     (let failed = filter fst (quality_checks lower inp);
          empty = trim_space (ei_response inp) = '''';
          findings = (if empty then [plain_finding ''empty_response'' ''high'' ''response is empty'']
                      else map (\<lambda>(_, f, _). f) failed);
          score = (if empty then 0 else 1000 - (\<Sum>(_, _, points) \<leftarrow> failed. points))
      in \<lparr>er_name = ''quality'', er_version = ''1.0.0'', er_score = max 0 score,
          er_status = (if score < 700 then ''fail'' else ''pass''), er_findings = findings, er_duration = elapsed\<rparr>)"

subsection \<open>Safety\<close>

definition blocked_findings :: "(rune \<Rightarrow> rune) \<Rightarrow> eval_input \<Rightarrow> eval_finding list" where
  "blocked_findings lower inp =
     [\<lparr>ef_code = ''blocked_term'', ef_severity = ''high'', ef_message = ''configured blocked pattern detected'',
       ef_masked = mask_text t\<rparr>.
        t \<leftarrow> map (\<lambda>term. trim_space (to_lower lower term)) (ei_blocked_terms inp),
        t \<noteq> '''' \<and> contains (to_lower lower (ei_response inp)) t]"

definition safety_evaluate :: "(rune \<Rightarrow> rune) \<Rightarrow> duration \<Rightarrow> eval_input \<Rightarrow> eval_result" where
  "safety_evaluate lower elapsed inp =
     (let findings = blocked_findings lower inp; fail = 0 < length findings
      in \<lparr>er_name = ''safety'', er_version = ''1.0.0'', er_score = (if fail then 0 else 1000),
          er_status = (if fail then ''fail'' else ''pass''), er_findings = findings, er_duration = elapsed\<rparr>)"

subsection \<open>Performance\<close>

definition performance_checks :: "eval_input \<Rightarrow> (bool \<times> string \<times> string) list" where
  "performance_checks inp =
     [(ei_max_provider_latency inp > 0 \<and> ei_provider_latency inp > ei_max_provider_latency inp,
       ''provider_latency'', ''provider latency exceeded threshold''),
      (ei_max_total_latency inp > 0 \<and> ei_total_latency inp > ei_max_total_latency inp,
       ''total_latency'', ''total latency exceeded threshold''),
      (ei_max_tokens inp > 0 \<and> i64 (ei_prompt_tokens inp + ei_completion_tokens inp) > ei_max_tokens inp,
       ''token_count'', ''token count exceeded threshold''),
      (ei_max_cost inp > 0 \<and> ei_cost inp > ei_max_cost inp, ''cost'', ''cost exceeded threshold'')]"

definition performance_evaluate :: "duration \<Rightarrow> eval_input \<Rightarrow> eval_result" where
  "performance_evaluate elapsed inp =
     (let findings = [plain_finding code ''medium'' message. (exceeded, code, message) \<leftarrow> performance_checks inp, exceeded]
      in \<lparr>er_name = ''performance'', er_version = ''1.0.0'', er_score = max 0 (1000 - int (length findings) * 250),
          er_status = (if 0 < length findings then ''fail'' else ''pass''), er_findings = findings,
          er_duration = elapsed\<rparr>)"

subsection \<open>Detection\<close>

lemma pii_patterns_proper: "(code, r) \<in> set pii_patterns \<Longrightarrow> proper r"
  by (auto simp: pii_patterns_def email_pattern_def phone_pattern_def card_pattern_def national_pattern_def
      ip_pattern_def bounded_def Plus_def AtLeast_def Between_def Opt_def digit_def upper_def numeral_eq_Suc)

lemma pii_found_iff:
  "(code, w) \<in> set (pii_found response) \<longleftrightarrow>
     (\<exists>r. (code, r) \<in> set pii_patterns \<and> w \<in> set (find_all r (None, runes response)) \<and> (code = ''ip_address'' \<longrightarrow> parse_ip w))"
  unfolding pii_found_def by fastforce

lemma pii_codes: "(code, r) \<in> set pii_patterns \<Longrightarrow> (code, r') \<in> set pii_patterns \<Longrightarrow> r = r'"
  by (auto simp: pii_patterns_def)

lemma pii_findings:
  "f \<in> set (er_findings (pii_evaluate elapsed inp)) \<longleftrightarrow>
     (\<exists>code w. (code, w) \<in> set (pii_found (ei_response inp))
        \<and> f = \<lparr>ef_code = code, ef_severity = ''high'', ef_message = ''possible sensitive value detected'',
               ef_masked = mask_runes w\<rparr>)"
  by (force simp: pii_evaluate_def Let_def)

lemma pii_status: "er_status (pii_evaluate elapsed inp) = ''fail'' \<longleftrightarrow> pii_found (ei_response inp) \<noteq> []"
  by (simp add: pii_evaluate_def Let_def)

lemma pii_found_code:
  assumes "code \<noteq> ''ip_address''"
  shows "(\<exists>w. (code, w) \<in> set (pii_found response)) \<longleftrightarrow> (\<exists>r w. (code, r) \<in> set pii_patterns \<and> occurs r (runes response) w)"
proof -
  have "(\<exists>w. w \<in> set (find_all r (None, runes response))) \<longleftrightarrow> (\<exists>w. occurs r (runes response) w)"
    if "(code, r) \<in> set pii_patterns" for r
    using find_all_iff [OF pii_patterns_proper [OF that], of "runes response"]
    by (cases "find_all r (None, runes response)") auto
  with assms show ?thesis unfolding pii_found_iff by blast
qed

lemma pii_found_others:
  "(\<exists>code. code \<noteq> ''ip_address'' \<and> (\<exists>w. (code, w) \<in> set (pii_found response)))
     \<longleftrightarrow> (\<exists>code r w. (code, r) \<in> set pii_patterns \<and> code \<noteq> ''ip_address'' \<and> occurs r (runes response) w)"
proof -
  have "(\<exists>code. code \<noteq> ''ip_address'' \<and> (\<exists>w. (code, w) \<in> set (pii_found response)))
     \<longleftrightarrow> (\<exists>code. code \<noteq> ''ip_address'' \<and> (\<exists>r w. (code, r) \<in> set pii_patterns \<and> occurs r (runes response) w))"
    by (intro ex_cong1 conj_cong refl) (rule pii_found_code)
  then show ?thesis by auto
qed

lemma pii_found_ip:
  "(\<exists>w. (''ip_address'', w) \<in> set (pii_found response))
     \<longleftrightarrow> (\<exists>w. w \<in> set (find_all ip_pattern (None, runes response)) \<and> parse_ip w)"
  by (auto simp: pii_found_iff pii_patterns_def)

lemma ex_pair_split: "(\<exists>x y. P x y) \<longleftrightarrow> (\<exists>x. x \<noteq> c \<and> (\<exists>y. P x y)) \<or> (\<exists>y. P c y)"
  by metis


definition sample_input :: "string \<Rightarrow> eval_input" where
  "sample_input response =
     \<lparr>ei_response = response, ei_requested_format = '''', ei_provider_latency = 0, ei_total_latency = 0,
      ei_prompt_tokens = 0, ei_completion_tokens = 0, ei_cost = 0, ei_max_provider_latency = 0,
      ei_max_total_latency = 0, ei_max_tokens = 0, ei_max_cost = 0, ei_blocked_terms = []\<rparr>"

lemma sample_runes: "runes ''AB123456'' = [65, 66, 49, 50, 51, 52, 53, 54]"
  by (simp add: runes_def runes_of.simps decode_rune.simps)

lemma sample_occurs: "occurs national_pattern (runes ''AB123456'') (runes ''AB123456'')"
proof -
  have "(Some 54, []) \<in> set (outcomes national_pattern (None, runes ''AB123456''))"
    by (simp add: sample_runes national_pattern_def bounded_def upper_def digit_def Opt_def numeral_eq_Suc in_class_def
        at_boundary_def word_rune_def word_class_def)
  then show ?thesis
    unfolding occurs_def outcomes_are_matches
    by (intro exI [of _ "[]"]) (simp add: after_def sample_runes)
qed


subsection \<open>Masking\<close>

lemma string_of_runes_append: "string_of_runes (rs @ ss) = string_of_runes rs @ string_of_runes ss"
  by (simp add: string_of_runes_def)

lemma string_of_stars: "string_of_runes (replicate n 42) = replicate n CHR ''*''"
proof -
  have "char_of (42 :: nat) = CHR ''*''" by code_simp
  then show ?thesis by (induction n) (simp_all add: string_of_runes_def encode_rune_def)
qed

lemma runes_mask:
  assumes "\<forall>r \<in> set rs. valid_rune r"
  shows "runes (mask_runes rs) = (if length rs \<le> 4 then replicate (length rs) 42 else hd rs # replicate (length rs - 2) 42 @ [last rs])"
proof -
  have star: "valid_rune 42" by (simp add: valid_rune_def)
  show ?thesis
  proof (cases "length rs \<le> 4")
    case True
    then have "mask_runes rs = string_of_runes (replicate (length rs) 42)" by (simp add: mask_runes_def string_of_stars)
    with True star show ?thesis by (simp add: runes_string_of_runes)
  next
    case False
    then have ends: "valid_rune (hd rs)" "valid_rune (last rs)" using assms by (cases rs; fastforce)+
    have "mask_runes rs = string_of_runes ([hd rs] @ replicate (length rs - 2) 42 @ [last rs])"
      using False by (simp only: mask_runes_def string_of_runes_append string_of_stars if_False)
    moreover have "runes (string_of_runes ([hd rs] @ replicate (length rs - 2) 42 @ [last rs]))
        = [hd rs] @ replicate (length rs - 2) 42 @ [last rs]"
      using star ends by (intro runes_string_of_runes) auto
    ultimately show ?thesis using False by simp
  qed
qed

text \<open>What a masked value shows of the value: stars, and the first and last rune of a value of more than four.\<close>

definition hides :: "string \<Rightarrow> rune list \<Rightarrow> bool" where
  "hides masked rs \<longleftrightarrow>
     length (runes masked) = length rs
     \<and> (\<forall>i < length rs. runes masked ! i = 42 \<or> (4 < length rs \<and> (i = 0 \<or> i = length rs - 1) \<and> runes masked ! i = rs ! i))"

lemma mask_hides:
  assumes "\<forall>r \<in> set rs. valid_rune r"
  shows "hides (mask_runes rs) rs"
proof (cases "length rs \<le> 4")
  case False
  then have rs: "rs \<noteq> []" "2 \<le> length rs" by auto
  have "length (hd rs # replicate (length rs - 2) 42 @ [last rs]) = length rs" using rs by simp
  moreover have "(hd rs # replicate (length rs - 2) 42 @ [last rs]) ! i = (if i = 0 then rs ! 0 else if i = length rs - 1 then rs ! i else 42)"
    if "i < length rs" for i
    using that rs by (auto simp: nth_Cons' nth_append hd_conv_nth last_conv_nth)
  ultimately show ?thesis using False runes_mask [OF assms] by (simp add: hides_def)
qed (simp add: hides_def runes_mask [OF assms])

lemma occurs_runes: "occurs r (runes s) w \<Longrightarrow> \<forall>c \<in> set w. valid_rune c"
  unfolding occurs_def by (metis Un_iff runes_valid set_append)

text \<open>
  C24. No finding repeats what it found: the masked value of a PII or safety finding has as many runes as the
  detected text, all of them stars except the first and the last, and these too when there are at most four.
\<close>

theorem findings_are_masked:
  assumes "f \<in> set (er_findings (pii_evaluate elapsed inp)) \<or> f \<in> set (er_findings (safety_evaluate lower elapsed inp))"
  shows "\<exists>w. hides (ef_masked f) w
    \<and> ((\<exists>r. (ef_code f, r) \<in> set pii_patterns \<and> occurs r (runes (ei_response inp)) w)
       \<or> (\<exists>term \<in> set (ei_blocked_terms inp). w = runes (trim_space (to_lower lower term))
            \<and> contains (to_lower lower (ei_response inp)) (trim_space (to_lower lower term))))"
  using assms
proof
  assume "f \<in> set (er_findings (pii_evaluate elapsed inp))"
  then obtain w r where w: "(ef_code f, r) \<in> set pii_patterns" "w \<in> set (find_all r (None, runes (ei_response inp)))"
      "ef_masked f = mask_runes w"
    by (auto simp: pii_findings pii_found_iff)
  then have "occurs r (runes (ei_response inp)) w" by (intro find_all_occurs)
  with w mask_hides [OF occurs_runes] show ?thesis by metis
next
  assume "f \<in> set (er_findings (safety_evaluate lower elapsed inp))"
  then obtain t where t: "t \<in> set (ei_blocked_terms inp)" "ef_masked f = mask_text (trim_space (to_lower lower t))"
      "contains (to_lower lower (ei_response inp)) (trim_space (to_lower lower t))"
    by (auto simp: safety_evaluate_def blocked_findings_def Let_def split: if_splits)
  moreover have "hides (ef_masked f) (runes (trim_space (to_lower lower t)))"
    unfolding t(2) mask_text_def by (rule mask_hides) (simp add: runes_valid)
  ultimately show ?thesis by blast
qed

lemma sample_found: "pii_found ''AB123456'' \<noteq> []"
proof -
  have "(''national_identifier_like'', national_pattern) \<in> set pii_patterns" by (simp add: pii_patterns_def)
  with sample_occurs pii_found_code [of "''national_identifier_like''" "''AB123456''"] show ?thesis by fastforce
qed

theorem findings_are_masked_witness:
  "\<exists>f w. f \<in> set (er_findings (pii_evaluate 0 (sample_input ''AB123456''))) \<and> hides (ef_masked f) w"
proof -
  obtain f where f: "f \<in> set (er_findings (pii_evaluate 0 (sample_input ''AB123456'')))"
    using sample_found by (cases "pii_found ''AB123456''") (auto simp: pii_evaluate_def sample_input_def Let_def)
  with findings_are_masked [OF disjI1 [OF f], of id] show ?thesis by blast
qed

subsection \<open>Results\<close>

lemma quality_points:
  "(\<Sum>(_, _, points) \<leftarrow> filter fst (quality_checks lower inp). points) = 0 \<longleftrightarrow> filter fst (quality_checks lower inp) = []"
  "0 \<le> (\<Sum>(_, _, points) \<leftarrow> filter fst (quality_checks lower inp). points)"
  "(\<Sum>(_, _, points) \<leftarrow> filter fst (quality_checks lower inp). points) \<le> 300 \<longleftrightarrow> length (filter fst (quality_checks lower inp)) \<le> 1"
  by (simp_all add: quality_checks_def Let_def)

lemma quality_fields:
  "er_score (quality_evaluate lower elapsed inp) = (if trim_space (ei_response inp) = '''' then 0
      else max 0 (1000 - (\<Sum>(_, _, points) \<leftarrow> filter fst (quality_checks lower inp). points)))"
  "er_status (quality_evaluate lower elapsed inp) = (if trim_space (ei_response inp) \<noteq> ''''
      \<and> (\<Sum>(_, _, points) \<leftarrow> filter fst (quality_checks lower inp). points) \<le> 300 then ''pass'' else ''fail'')"
  "er_findings (quality_evaluate lower elapsed inp) = [] \<longleftrightarrow>
      trim_space (ei_response inp) \<noteq> '''' \<and> filter fst (quality_checks lower inp) = []"
  by (simp_all add: quality_evaluate_def Let_def)

text \<open>
  C25. Every evaluator of the suite returns a proper result: a score between 0 and 1000 that is 1000 exactly
  without findings, a status \<open>pass\<close> or \<open>fail\<close>, at least 700 points for a pass and at most 750 for a fail.
\<close>

theorem evaluators_return_proper_results:
  assumes "res \<in> {pii_evaluate elapsed inp, quality_evaluate lower elapsed inp, safety_evaluate lower elapsed inp,
             performance_evaluate elapsed inp}"
  shows "0 \<le> er_score res \<and> er_score res \<le> 1000 \<and> (er_score res = 1000 \<longleftrightarrow> er_findings res = [])
    \<and> (er_status res = ''pass'' \<and> 700 \<le> er_score res \<or> er_status res = ''fail'' \<and> er_score res \<le> 750)"
proof -
  consider "res = pii_evaluate elapsed inp" | "res = quality_evaluate lower elapsed inp"
    | "res = safety_evaluate lower elapsed inp" | "res = performance_evaluate elapsed inp" using assms by blast
  then show ?thesis
  proof cases
    case 1
    then show ?thesis by (cases "pii_found (ei_response inp)") (auto simp: pii_evaluate_def Let_def)
  next
    case 2
    then show ?thesis
      using quality_points [of lower inp] quality_fields [of lower elapsed inp] by auto
  next
    case 3
    then show ?thesis by (cases "blocked_findings lower inp") (auto simp: safety_evaluate_def Let_def)
  next
    case 4
    then obtain fs where "er_score res = max 0 (1000 - int (length fs) * 250)" "er_findings res = fs"
        "er_status res = (if 0 < length fs then ''fail'' else ''pass'')"
      by (simp add: performance_evaluate_def Let_def)
    then show ?thesis by (cases fs) auto
  qed
qed

theorem evaluators_return_proper_results_witness:
  "er_score (quality_evaluate id 0 (sample_input ''hi'')) \<le> 1000 \<and> er_score (performance_evaluate 0 (sample_input ''hi'')) \<le> 1000"
  using evaluators_return_proper_results [of "quality_evaluate id 0 (sample_input ''hi'')" 0 "sample_input ''hi''" id]
    evaluators_return_proper_results [of "performance_evaluate 0 (sample_input ''hi'')" 0 "sample_input ''hi''" id]
  by blast

text \<open>
  C26. The quality evaluator passes a response exactly when it is not blank and at most one of the checks for
  length, repetition and format fails.
\<close>

theorem quality_tolerates_one_defect:
  "er_status (quality_evaluate lower elapsed inp) = ''pass'' \<longleftrightarrow>
     trim_space (ei_response inp) \<noteq> '''' \<and> length (filter fst (quality_checks lower inp)) \<le> 1"
  using quality_points(3) [of lower inp] by (simp add: quality_fields(2))

end
