(* ===== verification/Events.thy ===== *)
theory Events
  imports Go_Json
begin

text \<open>
  The packages \<open>internal/events\<close> and \<open>internal/kafka\<close> (publisher): the event types, the envelope with its
  validation, and publication to Kafka. The encoding of an envelope as a message and the acknowledgement of
  the brokers are arguments.
\<close>

definition request_accepted :: string where "request_accepted = ''ai.request.accepted.v1''"
definition provider_selected :: string where "provider_selected = ''ai.provider.selected.v1''"
definition request_completed :: string where "request_completed = ''ai.request.completed.v1''"
definition request_failed :: string where "request_failed = ''ai.request.failed.v1''"
definition usage_recorded :: string where "usage_recorded = ''ai.usage.recorded.v1''"
definition budget_exceeded :: string where "budget_exceeded = ''ai.budget.exceeded.v1''"
definition security_violation :: string where "security_violation = ''ai.security.violation.v1''"
definition evaluation_complete :: string where "evaluation_complete = ''evaluation.completed.v1''"
definition evaluation_failed :: string where "evaluation_failed = ''evaluation.failed.v1''"

definition supported :: "string list" where
  "supported = [request_accepted, provider_selected, request_completed, request_failed, usage_recorded,
     budget_exceeded, security_violation, evaluation_complete, evaluation_failed]"

lemmas event_types = request_accepted_def provider_selected_def request_completed_def request_failed_def
  usage_recorded_def budget_exceeded_def security_violation_def evaluation_complete_def evaluation_failed_def

record envelope =
  ev_id :: string
  ev_type :: string
  ev_version :: int
  ev_aggregate :: string
  ev_tenant :: string
  ev_timestamp :: go_time
  ev_correlation :: string
  ev_causation :: string
  ev_payload :: raw_message

definition event_validate :: "envelope \<Rightarrow> go_error option" where
  "event_validate ev =
     (if ev_id ev = '''' \<or> ev_aggregate ev = '''' \<or> ev_tenant ev = '''' \<or> ev_correlation ev = ''''
      then Some (ErrMsg ''event identifiers are required'')
      else if ev_type ev \<notin> set supported then Some (ErrMsg (''unsupported event type '' @ ev_type ev))
      else if ev_version ev \<noteq> 1 then Some (ErrMsg (''unsupported event version '' @ show_int (ev_version ev)))
      else if time_is_zero (ev_timestamp ev) \<or> ev_payload ev = None
      then Some (ErrMsg ''event timestamp and valid payload are required'')
      else None)"

text \<open>
  A Kafka message: its key decides the partition. \<open>write\<close> is what the writer reports for a message; when it
  reports success, all in-sync replicas have it.
\<close>

record kafka_msg =
  km_key :: string
  km_value :: string
  km_headers :: "(string \<times> string) list"

definition kafka_message :: "envelope \<Rightarrow> string \<Rightarrow> kafka_msg" where
  "kafka_message ev encoded =
     \<lparr>km_key = ev_tenant ev, km_value = encoded,
      km_headers = [(''event_id'', ev_id ev), (''correlation_id'', ev_correlation ev)]\<rparr>"

definition kafka_publish ::
  "(envelope \<Rightarrow> go_error + string) \<Rightarrow> (kafka_msg \<Rightarrow> go_error option) \<Rightarrow> envelope \<Rightarrow> go_error option \<times> kafka_msg option" where
  "kafka_publish marshal write ev =
     (case event_validate ev of
        Some e \<Rightarrow> (Some e, None)
      | None \<Rightarrow>
          (case marshal ev of
             Inl e \<Rightarrow> (Some (ErrWrap ''marshal Kafka event'' e), None)
           | Inr encoded \<Rightarrow>
               (let msg = kafka_message ev encoded
                in case write msg of
                     Some e \<Rightarrow> (Some (ErrWrap ''publish Kafka event'' e), Some msg)
                   | None \<Rightarrow> (None, Some msg))))"

end
