(* ===== verification/Database.thy ===== *)
theory Database
  imports Store Events
begin

text \<open>
  The tables of the PostgreSQL database (\<open>migrations/\<close>) and how a method of a repository runs its statements
  on them. A table is the list of its rows. A statement works on the whole database or fails with an error,
  of which a violated constraint is one. A transaction is one step: its statements lock the rows they change
  until it commits, and a transaction that fails leaves no trace.
\<close>

subsection \<open>Rows\<close>

record model_row =
  mo_id :: string
  mo_name :: string
  mo_enabled :: bool

record tenant_row =
  tn_id :: string
  tn_active :: bool
  tn_classification :: string

record limit_row =
  li_tenant :: string
  li_requests_per_minute :: int
  li_tokens_per_minute :: int
  li_max_concurrent :: int
  li_monthly :: int
  li_daily :: "int option"

record provider_row =
  pv_id :: string
  pv_name :: string
  pv_enabled :: bool

text \<open>A grant of a model or a provider to a tenant.\<close>

record policy_row =
  po_tenant :: string
  po_target :: string
  po_enabled :: bool

record request_row =
  rq_id :: string
  rq_tenant :: string
  rq_api_key :: string
  rq_user :: "string option"
  rq_idempotency_key :: string
  rq_hash :: string
  rq_model :: string
  rq_status :: req_state
  rq_stream :: bool
  rq_partial :: bool
  rq_metadata :: json
  rq_response :: "json option"
  rq_prompt_tokens :: "int option"
  rq_completion_tokens :: "int option"
  rq_cost :: "int option"
  rq_failure :: "string option"
  rq_correlation :: string
  rq_created_at :: go_time
  rq_updated_at :: go_time
  rq_completed_at :: "go_time option"

datatype attempt_status = AttemptStarted | AttemptSucceeded | AttemptFailed | AttemptCancelled

record attempt_row =
  at_request :: string
  at_tenant :: string
  at_number :: int
  at_provider :: string
  at_model :: string
  at_status :: attempt_status
  at_provider_request :: "string option"
  at_finished_at :: "go_time option"
  at_prompt_tokens :: "int option"
  at_completion_tokens :: "int option"
  at_cost :: "int option"
  at_category :: "string option"
  at_retryable :: "bool option"
  at_latency :: "int option"

datatype reservation_state = Reserved | Reconciled

record reservation_row =
  rs_tenant :: string
  rs_request :: string
  rs_month :: go_time
  rs_day :: go_time
  rs_amount :: int
  rs_actual :: "int option"
  rs_released :: "int option"
  rs_state :: reservation_state

record ledger_row =
  lg_tenant :: string
  lg_request :: string
  lg_event :: string
  lg_prompt_tokens :: int
  lg_completion_tokens :: int
  lg_cost :: int
  lg_occurred_at :: go_time

record outbox_row =
  ob_id :: string
  ob_type :: string
  ob_version :: int
  ob_aggregate :: string
  ob_tenant :: string
  ob_correlation :: string
  ob_causation :: "string option"
  ob_payload :: json
  ob_occurred_at :: go_time
  ob_created_at :: go_time
  ob_available_at :: go_time
  ob_claimed_at :: "go_time option"
  ob_claimed_by :: "string option"
  ob_attempts :: int
  ob_published_at :: "go_time option"
  ob_last_error :: "string option"

record processed_row =
  pk_consumer :: string
  pk_event :: string
  pk_type :: string
  pk_version :: int

record audit_row =
  au_id :: string
  au_tenant :: string
  au_type :: string
  au_version :: int
  au_aggregate :: string
  au_correlation :: string
  au_causation :: "string option"
  au_payload :: json
  au_occurred_at :: go_time

datatype eval_status = Pending | Queued | Running | EvalCompleted | EvalFailed | DeadLettered

record job_row =
  ej_id :: string
  ej_tenant :: string
  ej_request :: string
  ej_idempotency_key :: string
  ej_hash :: string
  ej_type :: string
  ej_status :: eval_status
  ej_attempts :: int
  ej_correlation :: string
  ej_parameters :: json
  ej_requested_at :: go_time
  ej_started_at :: "go_time option"
  ej_completed_at :: "go_time option"
  ej_last_error :: "string option"

record result_row =
  rr_job :: string
  rr_tenant :: string
  rr_execution :: string
  rr_version :: string
  rr_score :: int
  rr_outcome :: string
  rr_duration :: int
  rr_payload :: json

record db =
  db_users :: "string list"
  db_keys :: "stored_key list"
  db_models :: "model_row list"
  db_tenants :: "tenant_row list"
  db_limits :: "limit_row list"
  db_providers :: "provider_row list"
  db_model_policies :: "policy_row list"
  db_provider_policies :: "policy_row list"
  db_requests :: "request_row list"
  db_attempts :: "attempt_row list"
  db_reservations :: "reservation_row list"
  db_ledger :: "ledger_row list"
  db_outbox :: "outbox_row list"
  db_processed :: "processed_row list"
  db_audit :: "audit_row list"
  db_jobs :: "job_row list"
  db_results :: "result_row list"

definition empty_db :: db where
  "empty_db =
     \<lparr>db_users = [], db_keys = [], db_models = [], db_tenants = [], db_limits = [], db_providers = [],
      db_model_policies = [], db_provider_policies = [], db_requests = [], db_attempts = [], db_reservations = [],
      db_ledger = [], db_outbox = [], db_processed = [], db_audit = [], db_jobs = [], db_results = []\<rparr>"

subsection \<open>Statements and faults\<close>

text \<open>
  What happens to the connection during a method: nothing, a failure at one of its statements, which are
  numbered from 0, or the loss of the acknowledgement of the commit.
\<close>

datatype fault = NoFault | FailsAt nat go_error | LostAck go_error

definition broken :: "fault \<Rightarrow> nat \<Rightarrow> go_error option" where
  "broken f k = (case f of FailsAt j e \<Rightarrow> if j = k then Some e else None | _ \<Rightarrow> None)"

text \<open>
  The \<open>k\<close>-th statement of a method: it does not take place when the connection fails. An error ends the
  method with the state \<open>d0\<close> it had started from.
\<close>

definition stmt ::
  "fault \<Rightarrow> nat \<Rightarrow> (go_error \<Rightarrow> 'e) \<Rightarrow> db \<Rightarrow> go_error + 'a \<Rightarrow> ('a \<Rightarrow> ('e + 'b) \<times> db) \<Rightarrow> ('e + 'b) \<times> db" where
  "stmt f k wrap d0 res next =
     (case broken f k of
        Some e \<Rightarrow> (Inl (wrap e), d0)
      | None \<Rightarrow> (case res of Inl e \<Rightarrow> (Inl (wrap e), d0) | Inr x \<Rightarrow> next x))"

text \<open>
  The end of a method that changed the database: the commit of a transaction, or the acknowledgement of a
  single statement. The change of a commit that failed is undone, the one of a lost acknowledgement is not.
\<close>

definition commit :: "fault \<Rightarrow> nat \<Rightarrow> (go_error \<Rightarrow> 'e) \<Rightarrow> db \<Rightarrow> 'b \<Rightarrow> db \<Rightarrow> ('e + 'b) \<times> db" where
  "commit f k wrap d0 x d =
     (case f of
        FailsAt j e \<Rightarrow> if j = k then (Inl (wrap e), d0) else (Inr x, d)
      | LostAck e \<Rightarrow> (Inl (wrap e), d)
      | NoFault \<Rightarrow> (Inr x, d))"

definition violation :: "string \<Rightarrow> go_error" where
  "violation constraint = ErrMsg (''violates '' @ constraint)"

text \<open>A row is inserted unless it violates a constraint.\<close>

definition insert_row :: "(bool \<times> string) list \<Rightarrow> 'r list \<Rightarrow> 'r \<Rightarrow> go_error + 'r list" where
  "insert_row constraints table r =
     (case find (\<lambda>c. \<not> fst c) constraints of
        Some c \<Rightarrow> Inl (violation (snd c))
      | None \<Rightarrow> Inr (table @ [r]))"

text \<open>An update of the rows with a condition, and how many these are.\<close>

definition update_rows :: "('r \<Rightarrow> bool) \<Rightarrow> ('r \<Rightarrow> 'r) \<Rightarrow> 'r list \<Rightarrow> 'r list" where
  "update_rows P f table = map (\<lambda>r. if P r then f r else r) table"

definition affected :: "('r \<Rightarrow> bool) \<Rightarrow> 'r list \<Rightarrow> nat" where
  "affected P table = length (filter P table)"

lemma affected_nonzero: "affected P rows \<noteq> 0 \<longleftrightarrow> (\<exists>r \<in> set rows. P r)"
  by (simp add: affected_def filter_empty_conv)

lemma stmt_cases:
  assumes "stmt f k wrap d0 res next = (x, d)"
  obtains e where "x = Inl (wrap e)" "d = d0" | y where "res = Inr y" "next y = (x, d)"
  using assms by (auto simp: stmt_def split: option.splits sum.splits)

lemma commit_cases:
  assumes "commit f k wrap d0 y d' = (x, d)"
  obtains e where "x = Inl (wrap e)" "d = d0" | e where "x = Inl (wrap e)" "d = d'" "f = LostAck e"
  | "x = Inr y" "d = d'"
  using assms by (auto simp: commit_def split: fault.splits if_splits)

lemma map_sum_Inr [simp]: "map_sum f g x = Inr y \<longleftrightarrow> (\<exists>z. x = Inr z \<and> y = g z)"
  by (cases x) auto

text \<open>What holds of the database before a method and after each way it can change it holds at its end.\<close>

lemma stmt_keeps: "P d0 \<Longrightarrow> (\<And>x. res = Inr x \<Longrightarrow> P (snd (next x))) \<Longrightarrow> P (snd (stmt f k wrap d0 res next))"
  by (auto simp: stmt_def split: option.splits sum.splits)

lemma commit_keeps: "P d0 \<Longrightarrow> P d \<Longrightarrow> P (snd (commit f k wrap d0 x d))"
  by (auto simp: commit_def split: fault.splits)

lemma insert_row_Inr: "insert_row cs table r = Inr table' \<longleftrightarrow> (\<forall>c \<in> set cs. fst c) \<and> table' = table @ [r]"
  by (auto simp: insert_row_def find_None_iff split: option.splits) (metis find_None_iff option.distinct(1))+

end
