(* ===== verification/Postgres.thy ===== *)
theory Postgres
  imports Database Budget
begin

text \<open>
  The PostgreSQL store (\<open>internal/persistence/postgres.go\<close>): every method as its sequence of SQL statements on
  the tables of theory \<open>Database\<close>. An environment says what a call meets: the fault of the connection, \<open>now()\<close> of the
  database, the clock of the process and the identifiers that \<open>gen_random_uuid()\<close> makes. Identifiers are
  texts in UUID form. The codec of a response (\<open>json.Marshal\<close>, the \<open>JSONB\<close> column and \<open>json.Unmarshal\<close>) is a
  parameter; the other documents the store writes are JSON values that cannot fail to encode.
\<close>

record pg_env =
  pe_fault :: fault
  pe_now :: go_time
  pe_clock :: go_time
  pe_ids :: "nat \<Rightarrow> string"

record codec =
  cd_store :: "chat_response \<Rightarrow> go_error + json"
  cd_load :: "json \<Rightarrow> go_error + chat_response"

definition as_error :: "(go_error + unit) \<times> db \<Rightarrow> go_error option \<times> db" where
  "as_error res = (case res of (Inl e, d) \<Rightarrow> (Some e, d) | (Inr u, d) \<Rightarrow> (None, d))"

definition nil_if_empty :: "string \<Rightarrow> string option" where
  "nil_if_empty v = (if v = '''' then None else Some v)"

subsection \<open>Requests\<close>

definition pg_find_api_key :: "pg_env \<Rightarrow> string \<Rightarrow> db \<Rightarrow> go_error + stored_key" where
  "pg_find_api_key env prefix d =
     (case broken (pe_fault env) 0 of
        Some e \<Rightarrow> Inl (ErrWrap ''find API key'' e)
      | None \<Rightarrow>
          (case find (\<lambda>key. sk_prefix key = prefix) (db_keys d) of
             None \<Rightarrow> Inl ErrNotFound
           | Some key \<Rightarrow> Inr key))"

text \<open>A row of \<open>ai_requests\<close> with the name of its model, as a record.\<close>

definition row_record :: "string \<Rightarrow> chat_response option \<Rightarrow> request_row \<Rightarrow> req_record" where
  "row_record model response row =
     \<lparr>rec_id = rq_id row, rec_tenant = rq_tenant row, rec_api_key = rq_api_key row,
      rec_idempotency_key = rq_idempotency_key row, rec_hash = rq_hash row, rec_model = model,
      rec_state = rq_status row, rec_stream = rq_stream row, rec_partial = rq_partial row, rec_response = response,
      rec_failure = (case rq_failure row of None \<Rightarrow> '''' | Some c \<Rightarrow> c), rec_correlation = rq_correlation row,
      rec_created_at = rq_created_at row, rec_updated_at = rq_updated_at row, rec_completed_at = rq_completed_at row,
      rec_prompt_tokens = (case rq_prompt_tokens row of None \<Rightarrow> 0 | Some n \<Rightarrow> n),
      rec_completion_tokens = (case rq_completion_tokens row of None \<Rightarrow> 0 | Some n \<Rightarrow> n),
      rec_cost = (case rq_cost row of None \<Rightarrow> 0 | Some n \<Rightarrow> n)\<rparr>"

definition query_request :: "codec \<Rightarrow> fault \<Rightarrow> nat \<Rightarrow> string \<Rightarrow> string \<Rightarrow> db \<Rightarrow> go_error + req_record" where
  "query_request cd f k tenant i d =
     (case broken f k of
        Some e \<Rightarrow> Inl (ErrWrap ''get logical request'' e)
      | None \<Rightarrow>
          (case find (\<lambda>row. rq_tenant row = tenant \<and> rq_id row = i) (db_requests d) of
             None \<Rightarrow> Inl ErrNotFound
           | Some row \<Rightarrow>
               (case find (\<lambda>m. mo_id m = rq_model row) (db_models d) of
                  None \<Rightarrow> Inl ErrNotFound
                | Some m \<Rightarrow>
                    (case rq_response row of
                       None \<Rightarrow> Inr (row_record (mo_name m) None row)
                     | Some body \<Rightarrow>
                         (case cd_load cd body of
                            Inl e \<Rightarrow> Inl (ErrWrap ''decode stored response'' e)
                          | Inr response \<Rightarrow> Inr (row_record (mo_name m) (Some response) row))))))"

definition new_outbox_row :: "string \<Rightarrow> go_time \<Rightarrow> string \<Rightarrow> string \<Rightarrow> string \<Rightarrow> string \<Rightarrow> json \<Rightarrow> outbox_row" where
  "new_outbox_row uuid now type aggregate tenant correlation payload =
     \<lparr>ob_id = uuid, ob_type = type, ob_version = 1, ob_aggregate = aggregate, ob_tenant = tenant,
      ob_correlation = correlation, ob_causation = None, ob_payload = payload, ob_occurred_at = now,
      ob_created_at = now, ob_available_at = now, ob_claimed_at = None, ob_claimed_by = None, ob_attempts = 0,
      ob_published_at = None, ob_last_error = None\<rparr>"

definition insert_outbox ::
  "string \<Rightarrow> go_time \<Rightarrow> string \<Rightarrow> string \<Rightarrow> string \<Rightarrow> string \<Rightarrow> json \<Rightarrow> db \<Rightarrow> go_error + db" where
  "insert_outbox uuid now type aggregate tenant correlation payload d =
     map_sum id (\<lambda>rows. d\<lparr>db_outbox := rows\<rparr>)
       (insert_row
          [(uuid \<notin> ob_id ` set (db_outbox d), ''outbox_events_pkey''),
           (tenant \<in> tn_id ` set (db_tenants d), ''outbox_events_tenant_id_fkey'')]
          (db_outbox d) (new_outbox_row uuid now type aggregate tenant correlation payload))"

definition new_request_row :: "string \<Rightarrow> go_time \<Rightarrow> string \<Rightarrow> create_params \<Rightarrow> request_row" where
  "new_request_row uuid now model params =
     \<lparr>rq_id = uuid, rq_tenant = cre_tenant params, rq_api_key = cre_api_key params,
      rq_user = nil_if_empty (cre_user params), rq_idempotency_key = cre_idempotency_key params,
      rq_hash = cre_hash params, rq_model = model, rq_status = Received, rq_stream = ci_stream (cre_input params),
      rq_partial = False,
      rq_metadata = (case ci_metadata (cre_input params) of None \<Rightarrow> JNull | Some ms \<Rightarrow> JObject ms),
      rq_response = None, rq_prompt_tokens = None, rq_completion_tokens = None, rq_cost = None, rq_failure = None,
      rq_correlation = cre_correlation params, rq_created_at = now, rq_updated_at = now, rq_completed_at = None\<rparr>"

text \<open>\<open>INSERT ... ON CONFLICT (tenant_id, idempotency_key) DO NOTHING RETURNING id\<close>.\<close>

definition insert_request :: "request_row \<Rightarrow> db \<Rightarrow> go_error + string option \<times> db" where
  "insert_request row d =
     (if \<exists>r \<in> set (db_requests d). rq_tenant r = rq_tenant row \<and> rq_idempotency_key r = rq_idempotency_key row
      then Inr (None, d)
      else map_sum id (\<lambda>rows. (Some (rq_id row), d\<lparr>db_requests := rows\<rparr>))
        (insert_row
           [(rq_id row \<notin> rq_id ` set (db_requests d), ''ai_requests_pkey''),
            (rq_tenant row \<in> tn_id ` set (db_tenants d), ''ai_requests_tenant_id_fkey''),
            (rq_api_key row \<in> sk_id ` set (db_keys d), ''ai_requests_api_key_id_fkey''),
            (\<forall>u. rq_user row = Some u \<longrightarrow> u \<in> set (db_users d), ''ai_requests_user_id_fkey'')]
           (db_requests d) row))"

text \<open>The model of a name, if the tenant may use it.\<close>

definition authorized_model :: "string \<Rightarrow> string \<Rightarrow> db \<Rightarrow> model_row option" where
  "authorized_model tenant name d =
     find (\<lambda>m. mo_name m = name \<and> mo_enabled m
             \<and> (\<exists>p \<in> set (db_model_policies d). po_target p = mo_id m \<and> po_tenant p = tenant \<and> po_enabled p))
       (db_models d)"

definition accepted_payload :: "string \<Rightarrow> chat_input \<Rightarrow> json" where
  "accepted_payload i inp =
     JObject [(''request_id'', JString i), (''model'', JString (ci_model inp)), (''stream'', JBool (ci_stream inp))]"

text \<open>From the record of the request to the end of the transaction.\<close>

definition finish_create ::
  "codec \<Rightarrow> pg_env \<Rightarrow> create_params \<Rightarrow> db \<Rightarrow> string \<Rightarrow> bool \<Rightarrow> db \<Rightarrow> (go_error + req_record \<times> bool) \<times> db" where
  "finish_create cd env params d0 i created d =
     (case query_request cd (pe_fault env) 4 (cre_tenant params) i d of
        Inl e \<Rightarrow> (Inl e, d0)
      | Inr r \<Rightarrow>
          if \<not> created \<and> rec_hash r \<noteq> cre_hash params then (Inl ErrConflict, d0)
          else if created
          then stmt (pe_fault env) 5 (ErrWrap ''insert outbox event'') d0
            (insert_outbox (pe_ids env 1) (pe_now env) request_accepted (rec_id r) (cre_tenant params)
               (cre_correlation params) (accepted_payload (rec_id r) (cre_input params)) d)
            (commit (pe_fault env) 6 (ErrWrap ''commit create request'') d0 (r, created))
          else commit (pe_fault env) 6 (ErrWrap ''commit create request'') d0 (r, created) d)"

definition pg_create_or_get_request ::
  "codec \<Rightarrow> pg_env \<Rightarrow> create_params \<Rightarrow> db \<Rightarrow> (go_error + req_record \<times> bool) \<times> db" where
  "pg_create_or_get_request cd env params d =
     stmt (pe_fault env) 0 (ErrWrap ''begin create request'') d (Inr ()) (\<lambda>_.
     stmt (pe_fault env) 1 (ErrWrap ''authorize model'') d
       (Inr (authorized_model (cre_tenant params) (ci_model (cre_input params)) d)) (\<lambda>model.
     case model of
       None \<Rightarrow> (Inl ErrModelForbidden, d)
     | Some m \<Rightarrow>
         stmt (pe_fault env) 2 (ErrWrap ''insert logical request'') d
           (insert_request (new_request_row (pe_ids env 0) (pe_now env) (mo_id m) params) d) (\<lambda>(inserted, d1).
         case inserted of
           Some i \<Rightarrow> finish_create cd env params d i True d1
         | None \<Rightarrow>
             stmt (pe_fault env) 3 (ErrWrap ''load conflicting logical request'') d
               (case find (\<lambda>r. rq_tenant r = cre_tenant params \<and> rq_idempotency_key r = cre_idempotency_key params)
                       (db_requests d1) of
                  None \<Rightarrow> Inl (ErrMsg ''no rows in result set'')
                | Some r \<Rightarrow> Inr (rq_id r)) (\<lambda>i.
             finish_create cd env params d i False d1))))"

definition pg_get_request :: "codec \<Rightarrow> pg_env \<Rightarrow> string \<Rightarrow> string \<Rightarrow> db \<Rightarrow> go_error + req_record" where
  "pg_get_request cd env tenant i d = query_request cd (pe_fault env) 0 tenant i d"

text \<open>
  An update of the request \<open>i\<close> of a tenant in one of the states \<open>from\<close>; \<open>rows\<close> is what \<open>RowsAffected\<close>
  reports. A new value that violates a check of the table fails the statement.
\<close>

definition update_request ::
  "string \<Rightarrow> string \<Rightarrow> req_state set \<Rightarrow> (request_row \<Rightarrow> request_row) \<Rightarrow> db \<Rightarrow> nat \<times> db" where
  "update_request tenant i from change d =
     (let hit = (\<lambda>row. rq_tenant row = tenant \<and> rq_id row = i \<and> rq_status row \<in> from)
      in (affected hit (db_requests d), d\<lparr>db_requests := update_rows hit change (db_requests d)\<rparr>))"

definition pg_transition_request ::
  "pg_env \<Rightarrow> string \<Rightarrow> string \<Rightarrow> req_state \<Rightarrow> req_state \<Rightarrow> db \<Rightarrow> go_error option \<times> db" where
  "pg_transition_request env tenant i a b d =
     (case transition a b of
        Some e \<Rightarrow> (Some e, d)
      | None \<Rightarrow>
          (case update_request tenant i {a} (\<lambda>row. row\<lparr>rq_status := b, rq_updated_at := pe_now env\<rparr>) d of
             (rows, d1) \<Rightarrow>
               (case commit (pe_fault env) 0 (ErrWrap ''transition logical request'') d () d1 of
                  (Inl e, d2) \<Rightarrow> (Some e, d2)
                | (Inr _, d2) \<Rightarrow> (if rows \<noteq> 1 then Some ErrAlreadyFinal else None, d2))))"

subsection \<open>Attempts\<close>

definition new_attempt_row :: "attempt_params \<Rightarrow> provider_row \<Rightarrow> model_row \<Rightarrow> attempt_row" where
  "new_attempt_row params p m =
     \<lparr>at_request = atp_request params, at_tenant = atp_tenant params, at_number = atp_number params,
      at_provider = pv_id p, at_model = mo_id m, at_status = AttemptStarted, at_provider_request = None,
      at_finished_at = None, at_prompt_tokens = None, at_completion_tokens = None, at_cost = None,
      at_category = None, at_retryable = None, at_latency = None\<rparr>"

definition attempt_key :: "attempt_row \<Rightarrow> string \<times> int" where
  "attempt_key a = (at_request a, at_number a)"

text \<open>\<open>INSERT ... SELECT\<close> over the provider and the model of the given names, which are unique.\<close>

definition insert_attempt :: "attempt_params \<Rightarrow> db \<Rightarrow> go_error + nat \<times> db" where
  "insert_attempt params d =
     (case (find (\<lambda>p. pv_name p = atp_provider params) (db_providers d),
            find (\<lambda>m. mo_name m = atp_model params) (db_models d)) of
        (Some p, Some m) \<Rightarrow>
          map_sum id (\<lambda>rows. (1, d\<lparr>db_attempts := rows\<rparr>))
            (insert_row
               [(atp_request params \<in> rq_id ` set (db_requests d), ''provider_attempts_request_id_fkey''),
                (atp_tenant params \<in> tn_id ` set (db_tenants d), ''provider_attempts_tenant_id_fkey''),
                (0 < atp_number params, ''provider_attempts_attempt_number_check''),
                ((atp_request params, atp_number params) \<notin> attempt_key ` set (db_attempts d),
                 ''provider_attempts_request_id_attempt_number_key'')]
               (db_attempts d) (new_attempt_row params p m))
      | _ \<Rightarrow> Inr (0, d))"

definition selected_payload :: "attempt_params \<Rightarrow> json" where
  "selected_payload params =
     JObject [(''request_id'', JString (atp_request params)), (''provider'', JString (atp_provider params)),
       (''model'', JString (atp_model params)), (''attempt_number'', JInt (atp_number params))]"

definition pg_start_attempt :: "pg_env \<Rightarrow> attempt_params \<Rightarrow> db \<Rightarrow> go_error option \<times> db" where
  "pg_start_attempt env params d = as_error (
     stmt (pe_fault env) 0 (ErrWrap ''begin provider attempt'') d (Inr ()) (\<lambda>_.
     stmt (pe_fault env) 1 (ErrWrap ''start provider attempt'') d (insert_attempt params d) (\<lambda>(rows, d1).
     if rows \<noteq> 1 then (Inl ErrNotFound, d)
     else stmt (pe_fault env) 2 (ErrWrap ''insert outbox event'') d
       (insert_outbox (pe_ids env 0) (pe_now env) provider_selected (atp_request params) (atp_tenant params)
          (atp_correlation params) (selected_payload params) d1)
       (commit (pe_fault env) 3 (ErrWrap ''commit provider attempt'') d ()))))"

text \<open>An update of a started attempt; \<open>ok\<close> says whether the new values pass the checks of the table.\<close>

definition update_attempt ::
  "string \<Rightarrow> string \<Rightarrow> int \<Rightarrow> bool \<Rightarrow> (attempt_row \<Rightarrow> attempt_row) \<Rightarrow> db \<Rightarrow> go_error + db" where
  "update_attempt i tenant number ok change d =
     (let hit = (\<lambda>a. at_request a = i \<and> at_tenant a = tenant \<and> at_number a = number \<and> at_status a = AttemptStarted)
      in if affected hit (db_attempts d) \<noteq> 0 \<and> \<not> ok then Inl (violation ''provider_attempts_check'')
         else Inr (d\<lparr>db_attempts := update_rows hit change (db_attempts d)\<rparr>))"

definition attempt_latency :: "pg_env \<Rightarrow> go_time \<Rightarrow> int" where
  "attempt_latency env started_at = duration_milliseconds (time_sub (pe_clock env) started_at)"

definition completed_payload :: "int \<Rightarrow> completion_params \<Rightarrow> json" where
  "completed_payload latency params =
     JObject [(''request_id'', JString (cmp_request params)), (''model'', JString (cr_model (cmp_response params))),
       (''prompt_tokens'', JInt (prompt_tokens (cr_usage (cmp_response params)))),
       (''completion_tokens'', JInt (completion_tokens (cr_usage (cmp_response params)))),
       (''cost_micro_usd'', JInt (cmp_cost params)), (''latency_ms'', JInt latency)]"

definition completed_row :: "pg_env \<Rightarrow> json \<Rightarrow> completion_params \<Rightarrow> request_row \<Rightarrow> request_row" where
  "completed_row env body params row =
     row\<lparr>rq_status := Completed, rq_response := Some body,
         rq_prompt_tokens := Some (prompt_tokens (cr_usage (cmp_response params))),
         rq_completion_tokens := Some (completion_tokens (cr_usage (cmp_response params))),
         rq_cost := Some (cmp_cost params), rq_completed_at := Some (pe_now env), rq_updated_at := pe_now env\<rparr>"

text \<open>The values that \<open>CompleteRequest\<close> writes are not negative, as the tables require.\<close>

definition completion_checks :: "completion_params \<Rightarrow> bool" where
  "completion_checks params \<longleftrightarrow>
     0 \<le> prompt_tokens (cr_usage (cmp_response params)) \<and> 0 \<le> completion_tokens (cr_usage (cmp_response params))
     \<and> 0 \<le> cmp_cost params"

text \<open>The part of \<open>CompleteRequest\<close> after the update of the attempt.\<close>

definition finish_complete :: "pg_env \<Rightarrow> json \<Rightarrow> completion_params \<Rightarrow> db \<Rightarrow> db \<Rightarrow> (go_error + unit) \<times> db" where
  "finish_complete env body params d d1 =
     (let i = cmp_request params; tenant = cmp_tenant params;
          payload = completed_payload (attempt_latency env (cmp_started_at params)) params
      in case update_request tenant i {InProgress} (completed_row env body params) d1 of
        (rows, d2) \<Rightarrow>
          stmt (pe_fault env) 2 (ErrWrap ''finalize logical request'') d
            (if rows \<noteq> 0 \<and> \<not> completion_checks params then Inl (violation ''ai_requests_check'') else Inr ()) (\<lambda>_.
          if rows \<noteq> 1 then (Inl ErrAlreadyFinal, d)
          else stmt (pe_fault env) 3 (ErrWrap ''insert outbox event'') d
            (insert_outbox (pe_ids env 0) (pe_now env) request_completed i tenant (cmp_correlation params) payload d2) (\<lambda>d3.
          stmt (pe_fault env) 4 (ErrWrap ''insert outbox event'') d
            (insert_outbox (pe_ids env 1) (pe_now env) usage_recorded i tenant (cmp_correlation params) payload d3)
            (commit (pe_fault env) 5 (ErrWrap ''commit request completion'') d ()))))"

definition pg_complete_request :: "codec \<Rightarrow> pg_env \<Rightarrow> completion_params \<Rightarrow> db \<Rightarrow> go_error option \<times> db" where
  "pg_complete_request cd env params d = as_error (
     let latency = attempt_latency env (cmp_started_at params); u = cr_usage (cmp_response params)
     in case cd_store cd (cmp_response params) of
       Inl e \<Rightarrow> (Inl (ErrWrap ''marshal final response'' e), d)
     | Inr body \<Rightarrow>
         stmt (pe_fault env) 0 (ErrWrap ''begin request completion'') d (Inr ()) (\<lambda>_.
         stmt (pe_fault env) 1 (ErrWrap ''complete provider attempt'') d
           (update_attempt (cmp_request params) (cmp_tenant params) (cmp_number params)
              (completion_checks params \<and> 0 \<le> latency)
              (\<lambda>a. a\<lparr>at_status := AttemptSucceeded, at_finished_at := Some (pe_now env),
                     at_provider_request := Some (cmp_provider_request params), at_prompt_tokens := Some (prompt_tokens u),
                     at_completion_tokens := Some (completion_tokens u), at_cost := Some (cmp_cost params),
                     at_latency := Some latency, at_retryable := Some False\<rparr>) d)
           (finish_complete env body params d)))"

definition failed_payload :: "failure_params \<Rightarrow> json" where
  "failed_payload params =
     JObject [(''request_id'', JString (fap_request params)), (''error_category'', JString (fap_category params)),
       (''partial_streamed'', JBool (fap_partial params))]"

definition failed_row :: "pg_env \<Rightarrow> failure_params \<Rightarrow> request_row \<Rightarrow> request_row" where
  "failed_row env params row =
     row\<lparr>rq_status := Failed, rq_failure := Some (fap_category params), rq_partial := fap_partial params,
         rq_completed_at := Some (pe_now env), rq_updated_at := pe_now env\<rparr>"

text \<open>The part of \<open>FailAttempt\<close> that ends the request.\<close>

definition fail_request :: "pg_env \<Rightarrow> failure_params \<Rightarrow> db \<Rightarrow> db \<Rightarrow> (go_error + unit) \<times> db" where
  "fail_request env params d d1 =
     (case update_request (fap_tenant params) (fap_request params) {InProgress} (failed_row env params) d1 of
        (rows, d2) \<Rightarrow>
          stmt (pe_fault env) 2 (ErrWrap ''fail logical request'') d (Inr ()) (\<lambda>_.
          if rows \<noteq> 1 then (Inl ErrAlreadyFinal, d)
          else stmt (pe_fault env) 3 (ErrWrap ''insert outbox event'') d
            (insert_outbox (pe_ids env 0) (pe_now env) request_failed (fap_request params) (fap_tenant params)
               (fap_correlation params) (failed_payload params) d2)
            (commit (pe_fault env) 4 (ErrWrap ''commit attempt failure'') d ())))"

definition pg_fail_attempt :: "pg_env \<Rightarrow> failure_params \<Rightarrow> db \<Rightarrow> go_error option \<times> db" where
  "pg_fail_attempt env params d = as_error (
     let latency = attempt_latency env (fap_started_at params);
         finish = (\<lambda>d1. if fap_final params then fail_request env params d d1
                        else commit (pe_fault env) 4 (ErrWrap ''commit attempt failure'') d () d1)
     in stmt (pe_fault env) 0 (ErrWrap ''begin attempt failure'') d (Inr ()) (\<lambda>_.
        if 0 < fap_number params
        then stmt (pe_fault env) 1 (ErrWrap ''fail provider attempt'') d
          (update_attempt (fap_request params) (fap_tenant params) (fap_number params) (0 \<le> latency)
             (\<lambda>a. a\<lparr>at_status := AttemptFailed, at_finished_at := Some (pe_now env),
                    at_category := Some (fap_category params), at_retryable := Some (fap_retryable params),
                    at_latency := Some latency\<rparr>) d) finish
        else finish d))"

definition pg_cancel_request :: "pg_env \<Rightarrow> string \<Rightarrow> string \<Rightarrow> db \<Rightarrow> go_error option \<times> db" where
  "pg_cancel_request env tenant i d =
     (case update_request tenant i {Received, Validated, Routing, InProgress}
             (\<lambda>row. row\<lparr>rq_status := Cancelled, rq_completed_at := Some (pe_now env), rq_updated_at := pe_now env\<rparr>) d of
        (rows, d1) \<Rightarrow>
          (case commit (pe_fault env) 0 (ErrWrap ''cancel request'') d () d1 of
             (Inl e, d2) \<Rightarrow> (Some e, d2)
           | (Inr _, d2) \<Rightarrow> (if rows \<noteq> 1 then Some ErrAlreadyFinal else None, d2)))"

subsection \<open>Policy and budget\<close>

definition pg_tenant_policy :: "pg_env \<Rightarrow> string \<Rightarrow> string \<Rightarrow> db \<Rightarrow> go_error + tenant_policy" where
  "pg_tenant_policy env tenant model d =
     (case broken (pe_fault env) 0 of
        Some e \<Rightarrow> Inl (ErrWrap ''load tenant policy'' e)
      | None \<Rightarrow>
          (case (find (\<lambda>t. tn_id t = tenant \<and> tn_active t) (db_tenants d), find (\<lambda>l. li_tenant l = tenant) (db_limits d),
                 authorized_model tenant model d) of
             (Some t, Some l, Some m) \<Rightarrow>
               (case broken (pe_fault env) 1 of
                  Some e \<Rightarrow> Inl (ErrWrap ''load tenant provider policy'' e)
                | None \<Rightarrow>
                    Inr \<lparr>tp_classification = tn_classification t,
                         tp_allowed = Some (set (map pv_name (filter (\<lambda>p. pv_enabled p
                           \<and> (\<exists>q \<in> set (db_provider_policies d). po_tenant q = tenant \<and> po_enabled q \<and> po_target q = pv_id p))
                           (db_providers d)))),
                         tp_requests_per_minute = li_requests_per_minute l, tp_tokens_per_minute = li_tokens_per_minute l,
                         tp_max_concurrent = li_max_concurrent l, tp_monthly_budget = li_monthly l,
                         tp_daily_budget = (case li_daily l of None \<Rightarrow> 0 | Some n \<Rightarrow> n)\<rparr>)
           | _ \<Rightarrow> Inl ErrModelForbidden))"

text \<open>
  The first instants of the day and of the month of a time, in UTC. Days count from the first of January of
  the year 1 in the Gregorian calendar with its cycles of 400, 100, 4 and 1 years.
\<close>

definition day_length :: duration where "day_length = 86400 * second"

definition day_number :: "go_time \<Rightarrow> int" where "day_number t = t div day_length"

definition day_start :: "go_time \<Rightarrow> go_time" where "day_start t = day_number t * day_length"

definition month_lengths :: "bool \<Rightarrow> int list" where
  "month_lengths leap = [31, if leap then 29 else 28, 31, 30, 31, 30, 31, 31, 30, 31, 30, 31]"

fun day_of_month :: "int list \<Rightarrow> int \<Rightarrow> int" where
  "day_of_month [] n = n"
| "day_of_month (l # ls) n = (if n < l then n else day_of_month ls (n - l))"

text \<open>The day of the month that the day number \<open>d\<close> is, counted from 0.\<close>

definition month_day :: "int \<Rightarrow> int" where
  "month_day d =
     (let d400 = d mod 146097; n100 = min 3 (d400 div 36524); d100 = d400 - n100 * 36524;
          n4 = d100 div 1461; d4 = d100 mod 1461; n1 = min 3 (d4 div 365); d1 = d4 - n1 * 365;
          leap = (n1 = 3 \<and> (n4 \<noteq> 24 \<or> n100 = 3))
      in day_of_month (month_lengths leap) d1)"

definition month_start :: "go_time \<Rightarrow> go_time" where
  "month_start t = (day_number t - month_day (day_number t)) * day_length"

text \<open>\<open>SUM\<close> is exact; a sum beyond \<open>int64\<close> cannot be scanned.\<close>

definition ledger_sum :: "string \<Rightarrow> go_time \<Rightarrow> db \<Rightarrow> int" where
  "ledger_sum tenant since d = (\<Sum>l \<leftarrow> filter (\<lambda>l. lg_tenant l = tenant \<and> since \<le> lg_occurred_at l) (db_ledger d). lg_cost l)"

definition reserved_sum :: "string \<Rightarrow> (reservation_row \<Rightarrow> bool) \<Rightarrow> db \<Rightarrow> int" where
  "reserved_sum tenant period d =
     (\<Sum>r \<leftarrow> filter (\<lambda>r. rs_tenant r = tenant \<and> period r \<and> rs_state r = Reserved) (db_reservations d). rs_amount r)"

definition new_reservation_row :: "string \<Rightarrow> string \<Rightarrow> int \<Rightarrow> go_time \<Rightarrow> reservation_row" where
  "new_reservation_row tenant i amount now =
     \<lparr>rs_tenant = tenant, rs_request = i, rs_month = month_start now, rs_day = day_start now, rs_amount = amount,
      rs_actual = None, rs_released = None, rs_state = Reserved\<rparr>"

definition insert_reservation :: "reservation_row \<Rightarrow> db \<Rightarrow> go_error + db" where
  "insert_reservation row d =
     (if rs_request row \<in> rs_request ` set (db_reservations d) then Inr d
      else map_sum id (\<lambda>rows. d\<lparr>db_reservations := rows\<rparr>)
        (insert_row
           [(rs_tenant row \<in> tn_id ` set (db_tenants d), ''budget_reservations_tenant_id_fkey''),
            (rs_request row \<in> rq_id ` set (db_requests d), ''budget_reservations_request_id_fkey''),
            (0 \<le> rs_amount row, ''budget_reservations_reserved_micro_usd_check'')]
           (db_reservations d) row))"

definition pg_reserve_budget :: "pg_env \<Rightarrow> string \<Rightarrow> string \<Rightarrow> int \<Rightarrow> go_time \<Rightarrow> db \<Rightarrow> go_error option \<times> db" where
  "pg_reserve_budget env tenant i amount now d = as_error (
     stmt (pe_fault env) 0 (ErrWrap ''begin budget reservation'') d (Inr ()) (\<lambda>_.
     stmt (pe_fault env) 1 (ErrWrap ''lock tenant budget'') d (Inr (find (\<lambda>l. li_tenant l = tenant) (db_limits d))) (\<lambda>limit.
     case limit of
       None \<Rightarrow> (Inl ErrNotFound, d)
     | Some l \<Rightarrow>
         let month = month_start now; day = day_start now;
             month_used = ledger_sum tenant month d; month_reserved = reserved_sum tenant (\<lambda>r. rs_month r = month) d;
             day_used = ledger_sum tenant day d; day_reserved = reserved_sum tenant (\<lambda>r. rs_day r = day) d
         in stmt (pe_fault env) 2 (ErrWrap ''calculate available budget'') d
              (if in_i64 month_used \<and> in_i64 month_reserved \<and> in_i64 day_used \<and> in_i64 day_reserved then Inr ()
               else Inl (ErrMsg ''cannot scan numeric into int64'')) (\<lambda>_.
            case can_reserve (li_monthly l) month_used month_reserved amount of
              Some e \<Rightarrow> (Inl e, d)
            | None \<Rightarrow>
                (case can_reserve (case li_daily l of None \<Rightarrow> 0 | Some n \<Rightarrow> n) day_used day_reserved amount of
                   Some e \<Rightarrow> (Inl e, d)
                 | None \<Rightarrow>
                     stmt (pe_fault env) 3 (ErrWrap ''insert budget reservation'') d
                       (insert_reservation (new_reservation_row tenant i amount now) d)
                       (commit (pe_fault env) 4 (ErrWrap ''commit budget reservation'') d ()))))))"

definition exceeded_payload :: "string \<Rightarrow> int \<Rightarrow> json" where
  "exceeded_payload i requested = JObject [(''request_id'', JString i), (''requested_micro_usd'', JInt requested)]"

definition rejected_row :: "pg_env \<Rightarrow> request_row \<Rightarrow> request_row" where
  "rejected_row env row =
     row\<lparr>rq_status := BudgetRejected, rq_failure := Some ''budget_exceeded'', rq_completed_at := Some (pe_now env),
         rq_updated_at := pe_now env\<rparr>"

definition pg_reject_budget :: "pg_env \<Rightarrow> string \<Rightarrow> string \<Rightarrow> string \<Rightarrow> int \<Rightarrow> db \<Rightarrow> go_error option \<times> db" where
  "pg_reject_budget env tenant i correlation requested d = as_error (
     stmt (pe_fault env) 0 (ErrWrap ''begin budget rejection'') d (Inr ()) (\<lambda>_.
     case update_request tenant i {Validated} (rejected_row env) d of
       (rows, d1) \<Rightarrow>
         stmt (pe_fault env) 1 (ErrWrap ''reject request budget'') d (Inr ()) (\<lambda>_.
         if rows \<noteq> 1 then (Inl ErrAlreadyFinal, d)
         else stmt (pe_fault env) 2 (ErrWrap ''insert outbox event'') d
           (insert_outbox (pe_ids env 0) (pe_now env) budget_exceeded i tenant correlation
              (exceeded_payload i requested) d1)
           (commit (pe_fault env) 3 (\<lambda>e. e) d ()))))"

definition pg_reconcile_budget :: "pg_env \<Rightarrow> string \<Rightarrow> int \<Rightarrow> db \<Rightarrow> go_error option \<times> db" where
  "pg_reconcile_budget env i actual d =
     (let hit = (\<lambda>r. rs_request r = i \<and> rs_state r = Reserved);
          rows = affected hit (db_reservations d);
          d1 = d\<lparr>db_reservations := update_rows hit
                  (\<lambda>r. r\<lparr>rs_actual := Some actual, rs_released := Some (max (rs_amount r - actual) 0),
                         rs_state := Reconciled\<rparr>) (db_reservations d)\<rparr>
      in if rows \<noteq> 0 \<and> actual < 0 then (Some (ErrWrap ''reconcile budget'' (violation ''budget_reservations_check'')), d)
         else case commit (pe_fault env) 0 (ErrWrap ''reconcile budget'') d () d1 of
           (Inl e, d2) \<Rightarrow> (Some e, d2)
         | (Inr _, d2) \<Rightarrow> (if rows \<noteq> 1 then Some ErrNotFound else None, d2))"

end
