(* ===== verification/Postgres_Store.thy ===== *)
theory Postgres_Store
  imports Postgres
begin

text \<open>
  The PostgreSQL store as an implementation of the store interface: it keeps the contract \<open>request_store\<close>
  whatever faults the connection has, so what is proved of the gateway over that contract holds on it too.
\<close>

text \<open>The database and what each call will meet.\<close>

record pg_state =
  ps_db :: db
  ps_env :: "nat \<Rightarrow> pg_env"
  ps_step :: nat

definition pg_op :: "(pg_env \<Rightarrow> db \<Rightarrow> 'a \<times> db) \<Rightarrow> pg_state \<Rightarrow> 'a \<times> pg_state" where
  "pg_op f ps =
     (case f (ps_env ps (ps_step ps)) (ps_db ps) of
        (res, d) \<Rightarrow> (res, ps\<lparr>ps_db := d, ps_step := Suc (ps_step ps)\<rparr>))"

definition pg_ops :: "codec \<Rightarrow> pg_state store_ops" where
  "pg_ops cd =
     \<lparr>so_find_key = (\<lambda>p. pg_op (\<lambda>env d. (pg_find_api_key env p d, d))),
      so_create = (\<lambda>p. pg_op (\<lambda>env. pg_create_or_get_request cd env p)),
      so_get = (\<lambda>t i. pg_op (\<lambda>env d. (pg_get_request cd env t i d, d))),
      so_transition = (\<lambda>t i x y. pg_op (\<lambda>env. pg_transition_request env t i x y)),
      so_start_attempt = (\<lambda>p. pg_op (\<lambda>env. pg_start_attempt env p)),
      so_complete = (\<lambda>p. pg_op (\<lambda>env. pg_complete_request cd env p)),
      so_fail_attempt = (\<lambda>p. pg_op (\<lambda>env. pg_fail_attempt env p)),
      so_cancel = (\<lambda>t i c. pg_op (\<lambda>env. pg_cancel_request env t i)),
      so_policy = (\<lambda>t model. pg_op (\<lambda>env d. (pg_tenant_policy env t model d, d))),
      so_reserve = (\<lambda>t i n time. pg_op (\<lambda>env. pg_reserve_budget env t i n time)),
      so_reject = (\<lambda>t i c n. pg_op (\<lambda>env. pg_reject_budget env t i c n)),
      so_reconcile = (\<lambda>i n. pg_op (\<lambda>env. pg_reconcile_budget env i n))\<rparr>"

subsection \<open>The requests of the database\<close>

definition loaded :: "codec \<Rightarrow> json option \<Rightarrow> chat_response option" where
  "loaded cd body = (case body of None \<Rightarrow> None | Some b \<Rightarrow> (case cd_load cd b of Inl e \<Rightarrow> None | Inr x \<Rightarrow> Some x))"

definition model_name :: "db \<Rightarrow> string \<Rightarrow> string" where
  "model_name d i = (case find (\<lambda>m. mo_id m = i) (db_models d) of None \<Rightarrow> '''' | Some m \<Rightarrow> mo_name m)"

definition row_view :: "codec \<Rightarrow> db \<Rightarrow> request_row \<Rightarrow> req_record" where
  "row_view cd d row = row_record (model_name d (rq_model row)) (loaded cd (rq_response row)) row"

definition db_view :: "codec \<Rightarrow> db \<Rightarrow> string \<Rightarrow> req_record option" where
  "db_view cd d i = map_option (row_view cd d) (find (\<lambda>row. rq_id row = i) (db_requests d))"

text \<open>The keys of the table of requests.\<close>

definition request_keys :: "db \<Rightarrow> bool" where
  "request_keys d \<longleftrightarrow>
     distinct (map rq_id (db_requests d))
     \<and> distinct (map (\<lambda>r. (rq_tenant r, rq_idempotency_key r)) (db_requests d))"

lemma find_unique:
  "distinct (map f rows) \<Longrightarrow> row \<in> set rows \<Longrightarrow> find (\<lambda>r. f r = f row) rows = Some row"
  by (induction rows) (auto simp: image_iff)

lemma find_by_id: "distinct (map f rows) \<Longrightarrow> find (\<lambda>r. f r = k) rows = Some row \<longleftrightarrow> row \<in> set rows \<and> f row = k"
  using find_unique [of f rows row] by (auto simp: find_Some_iff)

lemma db_view_Some:
  "request_keys d \<Longrightarrow> db_view cd d i = Some r \<longleftrightarrow> (\<exists>row \<in> set (db_requests d). rq_id row = i \<and> r = row_view cd d row)"
  by (auto simp: db_view_def request_keys_def find_by_id)

text \<open>What a statement may do to the table: update rows by legal moves, or append a new row.\<close>

definition row_step :: "request_row \<Rightarrow> request_row \<Rightarrow> bool" where
  "row_step row row' \<longleftrightarrow>
     row' = row
     \<or> \<not> terminal (rq_status row) \<and> can_transition (rq_status row) (rq_status row') \<and> rq_id row' = rq_id row
       \<and> rq_tenant row' = rq_tenant row \<and> rq_idempotency_key row' = rq_idempotency_key row \<and> rq_hash row' = rq_hash row"

definition safe_change :: "codec \<Rightarrow> db \<Rightarrow> db \<Rightarrow> bool" where
  "safe_change cd d d' \<longleftrightarrow> (request_keys d \<longrightarrow> request_keys d' \<and> evolves (db_view cd d) (db_view cd d'))"

lemma safe_change_refl [simp]: "safe_change cd d d"
  by (simp add: safe_change_def)

lemma safe_change_trans [trans]: "safe_change cd a b \<Longrightarrow> safe_change cd b c \<Longrightarrow> safe_change cd a c"
  by (auto simp: safe_change_def intro: evolves_trans)

lemma safe_change_same:
  "db_requests d' = db_requests d \<Longrightarrow> db_models d' = db_models d \<Longrightarrow> safe_change cd d d'"
  by (simp add: safe_change_def request_keys_def db_view_def [abs_def] row_view_def [abs_def] model_name_def [abs_def])

lemma row_step_legal: "row_step row row' \<Longrightarrow> legal_move (row_view cd d row) (row_view cd d row')"
  by (auto simp: row_step_def row_view_def row_record_def intro: legal_move_step)

lemma safe_change_update:
  assumes "\<And>row. row \<in> set (db_requests d) \<Longrightarrow> row_step row (g row)"
  shows "safe_change cd d (d\<lparr>db_requests := map g (db_requests d)\<rparr>)"
proof -
  let ?d = "d\<lparr>db_requests := map g (db_requests d)\<rparr>"
  have same: "rq_id (g row) = rq_id row \<and> rq_tenant (g row) = rq_tenant row \<and> rq_idempotency_key (g row) = rq_idempotency_key row"
    if "row \<in> set (db_requests d)" for row using assms [OF that] by (auto simp: row_step_def)
  have keys: "map rq_id (db_requests ?d) = map rq_id (db_requests d)"
    "map (\<lambda>r. (rq_tenant r, rq_idempotency_key r)) (db_requests ?d) = map (\<lambda>r. (rq_tenant r, rq_idempotency_key r)) (db_requests d)"
    using same by auto
  then have iff: "request_keys ?d \<longleftrightarrow> request_keys d" by (simp only: request_keys_def)
  have "evolves (db_view cd d) (db_view cd ?d)" if "request_keys d"
  proof -
    have "row_view cd ?d = row_view cd d" by (simp add: row_view_def [abs_def] model_name_def [abs_def])
    with that assms same row_step_legal show ?thesis
      unfolding evolves_def db_view_Some [OF that] db_view_Some [OF that [folded iff]] by fastforce
  qed
  with iff show ?thesis by (simp add: safe_change_def)
qed

lemma safe_change_insert:
  assumes "rq_id row \<notin> rq_id ` set (db_requests d)"
    and "\<forall>r \<in> set (db_requests d). \<not> (rq_tenant r = rq_tenant row \<and> rq_idempotency_key r = rq_idempotency_key row)"
  shows "safe_change cd d (d\<lparr>db_requests := db_requests d @ [row]\<rparr>)"
proof -
  let ?d = "d\<lparr>db_requests := db_requests d @ [row]\<rparr>"
  have "request_keys ?d \<and> evolves (db_view cd d) (db_view cd ?d)" if keys: "request_keys d"
  proof -
    have keys': "request_keys ?d" using assms keys by (auto simp: request_keys_def)
    have "row_view cd ?d = row_view cd d" by (simp add: row_view_def [abs_def] model_name_def [abs_def])
    then show ?thesis using keys' unfolding evolves_def db_view_Some [OF keys] db_view_Some [OF keys'] by auto
  qed
  then show ?thesis by (simp add: safe_change_def)
qed

lemma as_error_snd [simp]: "snd (as_error res) = snd res"
  by (auto simp: as_error_def split: prod.splits sum.splits)

lemma as_errorE:
  assumes "as_error r = (e, d)"
  obtains x where "r = (Inl x, d)" "e = Some x" | u where "r = (Inr u, d)" "e = None"
  using assms by (auto simp: as_error_def split: prod.splits sum.splits)

lemma row_step_refl [simp]: "row_step row row"
  by (simp add: row_step_def)

lemma plain_types:
  "request_accepted \<notin> {request_completed, usage_recorded}" "provider_selected \<notin> {request_completed, usage_recorded}"
  "request_failed \<notin> {request_completed, usage_recorded}" "budget_exceeded \<notin> {request_completed, usage_recorded}"
  by (auto simp: event_types)

subsection \<open>Frames\<close>

text \<open>
  A relation between databases that is closed under what the statements do, apart from completing a request:
  every method then stays in it, whatever its faults.
\<close>

locale db_frame =
  fixes R :: "db \<Rightarrow> db \<Rightarrow> bool"
  assumes frame_refl [simp]: "R d d"
    and frame_trans [trans]: "R d d' \<Longrightarrow> R d' d'' \<Longrightarrow> R d d''"
    and frame_same: "db_requests d' = db_requests d \<Longrightarrow> db_models d' = db_models d \<Longrightarrow> db_outbox d' = db_outbox d \<Longrightarrow>
      db_ledger d' = db_ledger d \<Longrightarrow> db_processed d' = db_processed d \<Longrightarrow> R d d'"
    and frame_update: "(\<And>row. row \<in> set (db_requests d) \<Longrightarrow> row_step row (g row) \<and> (g row = row \<or> rq_status (g row) \<noteq> Completed)) \<Longrightarrow>
      R d (d\<lparr>db_requests := map g (db_requests d)\<rparr>)"
    and frame_insert: "rq_id row \<notin> rq_id ` set (db_requests d) \<Longrightarrow> rq_status row \<noteq> Completed \<Longrightarrow>
      \<forall>r \<in> set (db_requests d). \<not> (rq_tenant r = rq_tenant row \<and> rq_idempotency_key r = rq_idempotency_key row) \<Longrightarrow>
      R d (d\<lparr>db_requests := db_requests d @ [row]\<rparr>)"
    and frame_outbox: "insert_outbox uuid now type aggregate tenant correlation payload d = Inr d' \<Longrightarrow>
      type \<notin> {request_completed, usage_recorded} \<Longrightarrow> R d d'"
begin

lemma update_request_safe:
  assumes "\<And>row. rq_status row \<in> from \<Longrightarrow> row_step row (change row) \<and> rq_status (change row) \<noteq> Completed"
  shows "R d (snd (update_request tenant i from change d))"
  unfolding update_request_def update_rows_def Let_def snd_conv
  by (rule frame_update) (use assms in auto)

lemma insert_outbox_safe:
  "insert_outbox uuid now type aggregate tenant correlation payload d = Inr d' \<Longrightarrow> type \<notin> {request_completed, usage_recorded}
     \<Longrightarrow> R d0 d \<Longrightarrow> R d0 d'"
  using frame_outbox frame_trans by blast

lemma insert_request_safe: "insert_request row d = Inr (x, d') \<Longrightarrow> rq_status row \<noteq> Completed \<Longrightarrow> R d d'"
  by (auto simp: insert_request_def insert_row_Inr split: if_splits intro!: frame_insert)

lemma update_attempt_same: "update_attempt i tenant number ok change d = Inr d' \<Longrightarrow> R d d'"
  by (auto simp: update_attempt_def Let_def split: if_splits intro!: frame_same)

lemma stmt_safe:
  "(\<And>x. res = Inr x \<Longrightarrow> R d (snd (next x))) \<Longrightarrow> R d (snd (stmt f k wrap d res next))"
  by (rule stmt_keeps) simp_all

lemma commit_safe: "R d d' \<Longrightarrow> R d (snd (commit f k wrap d x d'))"
  by (rule commit_keeps) simp_all

lemma stmt_outbox_safe:
  assumes "type \<notin> {request_completed, usage_recorded}" "R d d1" "\<And>d2. R d d2 \<Longrightarrow> R d (snd (next d2))"
  shows "R d (snd (stmt f k wrap d (insert_outbox uuid now type aggregate tenant correlation payload d1) next))"
  using assms insert_outbox_safe by (intro stmt_safe) blast

lemma if_safe:
  "(b \<Longrightarrow> R d (snd x)) \<Longrightarrow> (\<not> b \<Longrightarrow> R d (snd y)) \<Longrightarrow> R d (snd (if b then x else y))"
  by simp

lemma finish_create_safe:
  assumes "R d0 d"
  shows "R d0 (snd (finish_create cd env params d0 i created d))"
proof (cases "query_request cd (pe_fault env) 4 (cre_tenant params) i d")
  case (Inr r)
  show ?thesis
    unfolding finish_create_def Inr sum.case
    by (intro if_safe stmt_outbox_safe [OF plain_types(1)] commit_safe assms; simp)
qed (simp add: finish_create_def)

lemma create_safe: "R d (snd (pg_create_or_get_request cd env params d))"
  unfolding pg_create_or_get_request_def
proof (intro stmt_safe)
  fix u model
  show "R d (snd (case model of None \<Rightarrow> (Inl ErrModelForbidden, d)
     | Some m \<Rightarrow>
         stmt (pe_fault env) 2 (ErrWrap ''insert logical request'') d
           (insert_request (new_request_row (pe_ids env 0) (pe_now env) (mo_id m) params) d) (\<lambda>(inserted, d1).
         case inserted of
           Some i \<Rightarrow> finish_create cd env params d i True d1
         | None \<Rightarrow>
             stmt (pe_fault env) 3 (ErrWrap ''load conflicting logical request'') d
               (case find (\<lambda>r. rq_tenant r = cre_tenant params \<and> rq_idempotency_key r = cre_idempotency_key params)
                       (db_requests d1) of
                  None \<Rightarrow> Inl (ErrMsg ''no rows in result set'')
                | Some r \<Rightarrow> Inr (rq_id r)) (\<lambda>i.
             finish_create cd env params d i False d1))))"
    by (cases model)
      (auto simp: new_request_row_def split: option.split intro!: stmt_safe finish_create_safe dest: insert_request_safe)
qed

text \<open>A single guarded update with its acknowledgement.\<close>

lemma exec_safe:
  assumes "R d d1"
  shows "R d (snd (case commit f k wrap d () d1 of (Inl e, d2) \<Rightarrow> (Some e, d2) | (Inr _, d2) \<Rightarrow> (x, d2)))"
  using commit_safe [OF assms, of f k wrap "()"] by (auto split: prod.splits sum.splits)

lemma transition_safe:
  assumes "b \<noteq> Completed"
  shows "R d (snd (pg_transition_request env t i a b d))"
proof (cases "transition a b")
  case None
  then have "can_transition a b" by (simp add: transition_def split: if_splits)
  then have "R d (snd (update_request t i {a} (\<lambda>row. row\<lparr>rq_status := b, rq_updated_at := pe_now env\<rparr>) d))"
    using assms by (intro update_request_safe) (auto simp: row_step_def terminal_iff_stuck)
  then show ?thesis
    unfolding pg_transition_request_def None option.case by (subst case_prod_beta) (rule exec_safe)
qed (simp add: pg_transition_request_def)

lemma cancel_safe: "R d (snd (pg_cancel_request env t i d))"
proof -
  have "R d (snd (update_request t i {Received, Validated, Routing, InProgress}
      (\<lambda>row. row\<lparr>rq_status := Cancelled, rq_completed_at := Some (pe_now env), rq_updated_at := pe_now env\<rparr>) d))"
    by (rule update_request_safe) (auto simp: row_step_def terminal_def)
  then show ?thesis
    unfolding pg_cancel_request_def by (subst case_prod_beta) (rule exec_safe)
qed

lemma insert_attempt_safe: "insert_attempt params d = Inr (rows, d') \<Longrightarrow> R d d'"
  by (auto simp: insert_attempt_def split: option.splits intro!: frame_same)

lemma start_attempt_safe: "R d (snd (pg_start_attempt env params d))"
  unfolding pg_start_attempt_def as_error_snd
  by (intro stmt_safe) (auto intro!: stmt_outbox_safe [OF plain_types(2)] commit_safe intro: insert_attempt_safe)

lemma fail_request_safe:
  assumes "R d d1"
  shows "R d (snd (fail_request env params d d1))"
proof -
  have "R d (snd (update_request (fap_tenant params) (fap_request params) {InProgress} (failed_row env params) d1))"
    by (rule frame_trans [OF assms update_request_safe]) (auto simp: row_step_def terminal_def failed_row_def)
  then show ?thesis
    unfolding fail_request_def
    by (subst case_prod_beta) (rule stmt_safe, auto intro!: stmt_outbox_safe [OF plain_types(3)] commit_safe)
qed

lemma fail_attempt_safe: "R d (snd (pg_fail_attempt env params d))"
  unfolding pg_fail_attempt_def as_error_snd Let_def
  by (intro stmt_safe)
    (auto intro!: stmt_safe commit_safe fail_request_safe intro: update_attempt_same)

lemma reserve_safe: "R d (snd (pg_reserve_budget env t i n now d))"
proof -
  have insert: "R d d'" if "insert_reservation row d = Inr d'" for row d'
    using that by (auto simp: insert_reservation_def split: if_splits intro!: frame_same)
  show ?thesis
    unfolding pg_reserve_budget_def as_error_snd Let_def
    by (intro stmt_safe) (auto split: option.split intro!: stmt_safe commit_safe intro: insert)
qed

lemma reject_safe: "R d (snd (pg_reject_budget env t i c n d))"
proof -
  have update: "R d (snd (update_request t i {Validated} (rejected_row env) d))"
    by (rule update_request_safe) (auto simp: row_step_def terminal_def rejected_row_def)
  show ?thesis
    unfolding pg_reject_budget_def as_error_snd
    by (rule stmt_safe, subst case_prod_beta)
      (intro stmt_outbox_safe [OF plain_types(4)] stmt_safe if_safe commit_safe update; simp only: snd_conv frame_refl)
qed

lemma reconcile_safe: "R d (snd (pg_reconcile_budget env i n d))"
  unfolding pg_reconcile_budget_def Let_def by (auto intro!: exec_safe frame_same)

end

subsection \<open>The contract\<close>

definition pg_inv :: "pg_state \<Rightarrow> bool" where
  "pg_inv ps = request_keys (ps_db ps)"

definition pg_view :: "codec \<Rightarrow> pg_state \<Rightarrow> string \<Rightarrow> req_record option" where
  "pg_view cd ps = db_view cd (ps_db ps)"

interpretation safe: db_frame "safe_change cd" for cd
proof
  fix d :: db and g
  assume "\<And>row. row \<in> set (db_requests d) \<Longrightarrow> row_step row (g row) \<and> (g row = row \<or> rq_status (g row) \<noteq> Completed)"
  then show "safe_change cd d (d\<lparr>db_requests := map g (db_requests d)\<rparr>)" by (intro safe_change_update) blast
qed (auto simp: insert_outbox_def intro: safe_change_trans safe_change_same safe_change_insert)

lemma safe_update_request:
  assumes "\<And>row. rq_status row \<in> from \<Longrightarrow> row_step row (change row)"
  shows "safe_change cd d (snd (update_request tenant i from change d))"
  unfolding update_request_def update_rows_def Let_def snd_conv
  by (rule safe_change_update) (use assms in auto)

lemma safe_transition: "safe_change cd d (snd (pg_transition_request env t i a b d))"
proof (cases "transition a b")
  case None
  then have "can_transition a b" by (simp add: transition_def split: if_splits)
  then have "safe_change cd d (snd (update_request t i {a} (\<lambda>row. row\<lparr>rq_status := b, rq_updated_at := pe_now env\<rparr>) d))"
    by (intro safe_update_request) (auto simp: row_step_def terminal_iff_stuck)
  then show ?thesis
    unfolding pg_transition_request_def None option.case by (subst case_prod_beta) (rule safe.exec_safe)
qed (simp add: pg_transition_request_def)

lemma safe_stmt_outbox:
  assumes "safe_change cd d d1" "\<And>d2. safe_change cd d d2 \<Longrightarrow> safe_change cd d (snd (next d2))"
  shows "safe_change cd d (snd (stmt f k wrap d (insert_outbox uuid now type aggregate tenant correlation payload d1) next))"
proof (rule safe.stmt_safe)
  fix d2
  assume "insert_outbox uuid now type aggregate tenant correlation payload d1 = Inr d2"
  then have "safe_change cd d1 d2" by (auto simp: insert_outbox_def intro: safe_change_same)
  with assms show "safe_change cd d (snd (next d2))" using safe_change_trans by blast
qed

lemma safe_complete: "safe_change cd d (snd (pg_complete_request cd env params d))"
proof (cases "cd_store cd (cmp_response params)")
  case (Inr body)
  have finish: "safe_change cd d (snd (finish_complete env body params d d1))" if "safe_change cd d d1" for d1
  proof -
    have "safe_change cd d1 (snd (update_request (cmp_tenant params) (cmp_request params) {InProgress} (completed_row env body params) d1))"
      by (rule safe_update_request) (auto simp: row_step_def completed_row_def terminal_def)
    from safe_change_trans [OF that this] show ?thesis
      unfolding finish_complete_def Let_def
      by (subst case_prod_beta) (rule safe.stmt_safe, auto intro!: safe_stmt_outbox safe.commit_safe)
  qed
  show ?thesis
    unfolding pg_complete_request_def as_error_snd Inr Let_def sum.case
    by (intro safe.stmt_safe finish) (rule safe.update_attempt_same)
qed (simp add: pg_complete_request_def Let_def)

lemma pg_op_safe:
  assumes "\<And>env d. safe_change cd d (snd (f env d))" "pg_inv ps"
  shows "pg_inv (snd (pg_op f ps)) \<and> evolves (pg_view cd ps) (pg_view cd (snd (pg_op f ps)))"
  using assms(1) [of "ps_db ps" "ps_env ps (ps_step ps)"] assms(2)
  by (auto simp: pg_op_def pg_inv_def pg_view_def safe_change_def split: prod.splits)

text \<open>The transaction that returns a record leaves it in the database.\<close>

lemma query_request_found:
  assumes "query_request cd f k tenant i d = Inr r"
  obtains row where "row \<in> set (db_requests d)" "rq_id row = i" "rq_tenant row = tenant" "r = row_view cd d row"
proof -
  obtain row where row: "find (\<lambda>row. rq_tenant row = tenant \<and> rq_id row = i) (db_requests d) = Some row"
    using assms by (simp add: query_request_def split: option.splits)
  then obtain m where m: "find (\<lambda>m. mo_id m = rq_model row) (db_models d) = Some m"
    using assms by (simp add: query_request_def split: option.splits)
  have "r = row_view cd d row"
    using assms row m by (simp add: query_request_def row_view_def model_name_def loaded_def split: option.splits sum.splits)
  moreover have "row \<in> set (db_requests d)" "rq_id row = i" "rq_tenant row = tenant"
    using row by (auto simp: find_Some_iff)
  ultimately show thesis using that by blast
qed

lemma row_view_id [simp]: "rec_id (row_view cd d row) = rq_id row"
  by (simp add: row_view_def row_record_def)

lemma finish_create_known:
  assumes "finish_create cd env params d0 i created d = (Inr (r, fresh), d')"
  shows "\<exists>row \<in> set (db_requests d'). rq_id row = rec_id r"
proof -
  obtain r' where q: "query_request cd (pe_fault env) 4 (cre_tenant params) i d = Inr r'" and r: "r' = r"
      and same: "db_requests d' = db_requests d"
    using assms
    by (auto simp: finish_create_def insert_outbox_def split: sum.splits if_splits elim!: stmt_cases commit_cases)
  from q show ?thesis by (rule query_request_found) (use r same in auto)
qed

lemma create_known:
  assumes "pg_create_or_get_request cd env params d = (Inr (r, fresh), d')"
  shows "\<exists>row \<in> set (db_requests d'). rq_id row = rec_id r"
  using assms unfolding pg_create_or_get_request_def
  by (auto split: option.splits elim!: stmt_cases) (erule finish_create_known)+

interpretation pg: request_store "pg_ops cd" pg_inv "pg_view cd" for cd
proof
  fix s p r fresh s'
  assume inv: "pg_inv s" and c: "so_create (pg_ops cd) p s = (Inr (r, fresh), s')"
  have "pg_inv s'"
    using pg_op_safe [where cd = cd and f = "\<lambda>env. pg_create_or_get_request cd env p", OF safe.create_safe inv] c
    by (simp add: pg_ops_def)
  moreover have "\<exists>row \<in> set (db_requests (ps_db s')). rq_id row = rec_id r"
    using c by (auto simp: pg_ops_def pg_op_def split: prod.splits dest: create_known)
  ultimately show "pg_view cd s' (rec_id r) \<noteq> None"
    by (auto simp: pg_view_def db_view_def find_None_iff)
qed (simp_all add: pg_ops_def pg_op_safe [where cd = cd] safe.create_safe safe_transition safe.start_attempt_safe safe_complete
      safe.fail_attempt_safe safe.cancel_safe safe.reserve_safe safe.reject_safe safe.reconcile_safe)

end
