(* ===== verification/Postgres_Completion.thy ===== *)
theory Postgres_Completion
  imports Postgres_Store
begin

text \<open>
  \<open>CompleteRequest\<close> of the PostgreSQL store as an atomic change: the request, its attempt and the two events are
  written together or not at all. This is the transactional outbox.
\<close>

definition in_progress :: "completion_params \<Rightarrow> request_row \<Rightarrow> bool" where
  "in_progress params row \<longleftrightarrow>
     rq_tenant row = cmp_tenant params \<and> rq_id row = cmp_request params \<and> rq_status row = InProgress"

definition completion_event :: "pg_env \<Rightarrow> nat \<Rightarrow> string \<Rightarrow> completion_params \<Rightarrow> outbox_row" where
  "completion_event env n type params =
     new_outbox_row (pe_ids env n) (pe_now env) type (cmp_request params) (cmp_tenant params) (cmp_correlation params)
       (completed_payload (attempt_latency env (cmp_started_at params)) params)"

text \<open>The database after a completion, apart from the attempt.\<close>

definition completed_db :: "pg_env \<Rightarrow> json \<Rightarrow> completion_params \<Rightarrow> attempt_row list \<Rightarrow> db \<Rightarrow> db" where
  "completed_db env body params attempts d =
     d\<lparr>db_attempts := attempts,
       db_requests := update_rows (in_progress params) (completed_row env body params) (db_requests d),
       db_outbox := db_outbox d @ [completion_event env 0 request_completed params, completion_event env 1 usage_recorded params]\<rparr>"

definition fresh_events :: "pg_env \<Rightarrow> db \<Rightarrow> bool" where
  "fresh_events env d \<longleftrightarrow> pe_ids env 0 \<noteq> pe_ids env 1 \<and> {pe_ids env 0, pe_ids env 1} \<inter> ob_id ` set (db_outbox d) = {}"

lemma update_in_progress:
  "update_request (cmp_tenant params) (cmp_request params) {InProgress} f d =
     (affected (in_progress params) (db_requests d), d\<lparr>db_requests := update_rows (in_progress params) f (db_requests d)\<rparr>)"
proof -
  have "(\<lambda>row. rq_tenant row = cmp_tenant params \<and> rq_id row = cmp_request params \<and> rq_status row \<in> {InProgress}) = in_progress params"
    by (auto simp: in_progress_def)
  then show ?thesis by (simp add: update_request_def Let_def)
qed

text \<open>The two inserts into the outbox.\<close>

lemma insert_events:
  assumes "insert_outbox (pe_ids env 0) (pe_now env) request_completed (cmp_request params) (cmp_tenant params)
      (cmp_correlation params) (completed_payload (attempt_latency env (cmp_started_at params)) params) d2 = Inr d3"
    and "insert_outbox (pe_ids env 1) (pe_now env) usage_recorded (cmp_request params) (cmp_tenant params)
      (cmp_correlation params) (completed_payload (attempt_latency env (cmp_started_at params)) params) d3 = Inr d4"
    and "d2 = d\<lparr>db_attempts := attempts, db_requests := update_rows (in_progress params) (completed_row env body params) (db_requests d)\<rparr>"
  shows "d4 = completed_db env body params attempts d \<and> fresh_events env d"
  using assms(1,2) unfolding assms(3)
  by (auto simp: insert_outbox_def insert_row_Inr completed_db_def completion_event_def fresh_events_def new_outbox_row_def)

lemma finish_complete_cases:
  assumes "finish_complete env body params d (d\<lparr>db_attempts := attempts\<rparr>) = (x, d')"
  obtains e where "d' = d" "x = Inl e"
  | "d' = completed_db env body params attempts d" "affected (in_progress params) (db_requests d) = 1"
    "completion_checks params" "fresh_events env d"
    "x = Inr () \<or> (\<exists>e. pe_fault env = LostAck e \<and> x = Inl (ErrWrap ''commit request completion'' e))"
proof (cases "affected (in_progress params) (db_requests d) = 1 \<and> completion_checks params")
  case True
  note rows = True [THEN conjunct1] and checks = True [THEN conjunct2]
  from assms show thesis
    unfolding finish_complete_def Let_def update_in_progress prod.case
    by (elim stmt_cases commit_cases) (auto simp: rows checks elim!: stmt_cases commit_cases dest!: insert_events intro: that)
next
  case False
  with assms that show thesis
    unfolding finish_complete_def Let_def update_in_progress prod.case
    by (auto elim!: stmt_cases split: if_splits)
qed

lemma complete_effect:
  assumes "pg_complete_request cd env params d = (e, d')"
  obtains "d' = d" "e \<noteq> None"
  | body attempts where "cd_store cd (cmp_response params) = Inr body" "d' = completed_db env body params attempts d"
    "affected (in_progress params) (db_requests d) = 1" "completion_checks params" "fresh_events env d"
    "e = None \<or> (\<exists>x. pe_fault env = LostAck x \<and> e = Some (ErrWrap ''commit request completion'' x))"
proof (cases "cd_store cd (cmp_response params)")
  case (Inr body)
  have attempts: "\<exists>rows. d1 = d\<lparr>db_attempts := rows\<rparr>" if "update_attempt i t n ok g d = Inr d1" for i t n ok g d1
    using that by (auto simp: update_attempt_def Let_def split: if_splits)
  note goal = that
  have finish: thesis if update: "update_attempt i t n ok g d = Inr d1" and run: "finish_complete env body params d d1 = (x, d')"
      and e: "e = (case x of Inl y \<Rightarrow> Some y | Inr u \<Rightarrow> None)" for i t n ok g d1 x
  proof -
    obtain rows where "d1 = d\<lparr>db_attempts := rows\<rparr>" using attempts [OF update] ..
    with run have "finish_complete env body params d (d\<lparr>db_attempts := rows\<rparr>) = (x, d')" by simp
    then show thesis by (rule finish_complete_cases) (use goal Inr e in auto)
  qed
  from assms show thesis
    unfolding pg_complete_request_def Let_def Inr sum.case
    by (elim as_errorE stmt_cases) (auto intro: that finish)
qed (use assms that in \<open>auto simp: pg_complete_request_def as_error_def\<close>)

text \<open>A completion that meets no fault and no obstacle takes place.\<close>

lemma completion_succeeds:
  assumes "pe_fault env = NoFault" "cd_store cd (cmp_response params) = Inr body"
    and "affected (in_progress params) (db_requests d) = 1" "completion_checks params" "fresh_events env d"
    and "cmp_tenant params \<in> tn_id ` set (db_tenants d)" "0 \<le> attempt_latency env (cmp_started_at params)"
  shows "fst (pg_complete_request cd env params d) = None"
  unfolding pg_complete_request_def
  using assms assms(5) [unfolded fresh_events_def, THEN conjunct1, symmetric]
  by (simp add: Let_def update_attempt_def finish_complete_def update_in_progress insert_outbox_def insert_row_def
      fresh_events_def commit_def as_error_def new_outbox_row_def stmt_def broken_def)

text \<open>
  C11. \<open>CompleteRequest\<close> is atomic. Whatever statement of the transaction fails, either the database is unchanged
  and the caller gets an error, or the one request row that was in progress is completed with the response,
  the tokens and the cost, and exactly two events are appended to the outbox: the completion and the usage
  record, with new identifiers. The caller is then told of success, unless the acknowledgement of the commit
  was lost. Without a fault, a request in progress is completed.
\<close>

theorem completion_is_atomic:
  assumes "pg_complete_request cd env params d = (e, d')"
  shows "(d' = d \<and> e \<noteq> None
     \<or> (\<exists>body attempts. cd_store cd (cmp_response params) = Inr body \<and> d' = completed_db env body params attempts d
          \<and> affected (in_progress params) (db_requests d) = 1 \<and> fresh_events env d
          \<and> (e = None \<or> (\<exists>x. pe_fault env = LostAck x \<and> e = Some (ErrWrap ''commit request completion'' x)))))
    \<and> (pe_fault env = NoFault \<and> cd_store cd (cmp_response params) = Inr body
       \<and> affected (in_progress params) (db_requests d) = 1 \<and> completion_checks params \<and> fresh_events env d
       \<and> cmp_tenant params \<in> tn_id ` set (db_tenants d) \<and> 0 \<le> attempt_latency env (cmp_started_at params) \<longrightarrow> e = None)"
  using complete_effect [OF assms] completion_succeeds [of env cd params body d] assms by (metis fst_conv)

definition sample_request :: request_row where
  "sample_request =
     \<lparr>rq_id = ''r1'', rq_tenant = ''t1'', rq_api_key = ''k1'', rq_user = None, rq_idempotency_key = ''once'', rq_hash = ''h'',
      rq_model = ''m1'', rq_status = InProgress, rq_stream = False, rq_partial = False, rq_metadata = JNull,
      rq_response = None, rq_prompt_tokens = None, rq_completion_tokens = None, rq_cost = None, rq_failure = None,
      rq_correlation = ''c'', rq_created_at = 1, rq_updated_at = 1, rq_completed_at = None\<rparr>"

definition sample_db :: db where
  "sample_db = empty_db\<lparr>
     db_models := [\<lparr>mo_id = ''m1'', mo_name = ''small'', mo_enabled = True\<rparr>],
     db_tenants := [\<lparr>tn_id = ''t1'', tn_active = True, tn_classification = ''internal''\<rparr>],
     db_limits := [\<lparr>li_tenant = ''t1'', li_requests_per_minute = 60, li_tokens_per_minute = 1000, li_max_concurrent = 5,
                   li_monthly = 1000, li_daily = Some 100\<rparr>],
     db_requests := [sample_request]\<rparr>"

definition sample_env :: pg_env where
  "sample_env = \<lparr>pe_fault = NoFault, pe_now = 2, pe_clock = 2, pe_ids = (\<lambda>n. replicate (Suc n) CHR ''e'')\<rparr>"

definition sample_codec :: codec where
  "sample_codec = \<lparr>cd_store = (\<lambda>r. Inr (JString (cr_id r))), cd_load = (\<lambda>v. Inl (ErrMsg ''opaque''))\<rparr>"

definition sample_completion :: completion_params where
  "sample_completion =
     \<lparr>cmp_request = ''r1'', cmp_tenant = ''t1'', cmp_number = 1, cmp_provider_request = ''p'',
      cmp_response = \<lparr>cr_id = ''x'', cr_object = ''o'', cr_created = 1, cr_model = ''small'', cr_choices = [],
        cr_usage = \<lparr>prompt_tokens = 3, completion_tokens = 4, total_tokens = 7\<rparr>,
        cr_aegis = \<lparr>rm_request_id = ''r1'', rm_status = Completed\<rparr>\<rparr>,
      cmp_cost = 5, cmp_started_at = 1, cmp_correlation = ''c''\<rparr>"

lemmas sample_defs = sample_request_def sample_db_def sample_env_def sample_codec_def sample_completion_def empty_db_def

theorem completion_is_atomic_witness:
  "fst (pg_complete_request sample_codec sample_env sample_completion sample_db) = None
   \<and> length (db_outbox (snd (pg_complete_request sample_codec sample_env sample_completion sample_db))) = 2"
proof -
  obtain e d' where run: "pg_complete_request sample_codec sample_env sample_completion sample_db = (e, d')" by fastforce
  from completion_is_atomic [OF run, of "JString ''x''"]
  have "e = None"
    by (simp add: sample_defs affected_def in_progress_def completion_checks_def fresh_events_def attempt_latency_def
        duration_milliseconds_def time_sub_def go_quo_def)
  with run completion_is_atomic [OF run] show ?thesis
    by (auto simp: completed_db_def sample_db_def empty_db_def)
qed

end
