(* ===== verification/Postgres_Budget.thy ===== *)
theory Postgres_Budget
  imports Postgres_Completion
begin

text \<open>
  \<open>ReserveBudget\<close> of the PostgreSQL store: a new reservation keeps what the ledger and the open reservations of
  a tenant sum up to within the monthly and the daily limit.
\<close>

definition month_committed :: "string \<Rightarrow> go_time \<Rightarrow> db \<Rightarrow> int" where
  "month_committed t now d = ledger_sum t (month_start now) d + reserved_sum t (\<lambda>r. rs_month r = month_start now) d"

definition day_committed :: "string \<Rightarrow> go_time \<Rightarrow> db \<Rightarrow> int" where
  "day_committed t now d = ledger_sum t (day_start now) d + reserved_sum t (\<lambda>r. rs_day r = day_start now) d"

definition daily_limit :: "limit_row \<Rightarrow> int" where
  "daily_limit l = (case li_daily l of None \<Rightarrow> 0 | Some n \<Rightarrow> n)"

lemma committed_new:
  assumes "d' = d\<lparr>db_reservations := db_reservations d @ [new_reservation_row t i n now]\<rparr>"
  shows "month_committed t now d' = month_committed t now d + n" "day_committed t now d' = day_committed t now d + n"
  by (simp_all add: assms month_committed_def day_committed_def ledger_sum_def reserved_sum_def new_reservation_row_def)

lemma insert_reservation_cases:
  assumes "insert_reservation row d = Inr d'"
  obtains "rs_request row \<in> rs_request ` set (db_reservations d)" "d' = d"
  | "rs_request row \<notin> rs_request ` set (db_reservations d)" "d' = d\<lparr>db_reservations := db_reservations d @ [row]\<rparr>"
  using assms by (auto simp: insert_reservation_def insert_row_Inr split: if_splits)

text \<open>What a call that changes the database or succeeds has checked.\<close>

lemma reserve_cases:
  assumes "pg_reserve_budget env t i n now d = (e, d')"
  obtains "d' = d" "e \<noteq> None"
  | l where "find (\<lambda>l. li_tenant l = t) (db_limits d) = Some l"
    "in_i64 (ledger_sum t (month_start now) d)" "in_i64 (reserved_sum t (\<lambda>r. rs_month r = month_start now) d)"
    "in_i64 (ledger_sum t (day_start now) d)" "in_i64 (reserved_sum t (\<lambda>r. rs_day r = day_start now) d)"
    "can_reserve (li_monthly l) (ledger_sum t (month_start now) d) (reserved_sum t (\<lambda>r. rs_month r = month_start now) d) n = None"
    "can_reserve (daily_limit l) (ledger_sum t (day_start now) d) (reserved_sum t (\<lambda>r. rs_day r = day_start now) d) n = None"
    "insert_reservation (new_reservation_row t i n now) d = Inr d'"
  using assms unfolding pg_reserve_budget_def Let_def
  by (elim as_errorE stmt_cases)
    (auto simp: daily_limit_def split: option.splits if_splits elim!: stmt_cases commit_cases intro: that)

lemma can_reserve_sum:
  assumes "can_reserve limit used active n = None" "in_i64 limit" "in_i64 used" "in_i64 active" "in_i64 n" "limit \<noteq> 0"
  shows "used + active + n \<le> limit"
  using assms by (simp add: can_reserve_eq split: if_splits)

text \<open>
  C13. \<open>ReserveBudget\<close> of the PostgreSQL store, whatever fault it meets, either leaves the database as it is or
  adds exactly one open reservation of the requested amount for a request that had none. After it has added
  one, the ledger entries since the beginning of the month and the open reservations of that month together
  are within the monthly limit of the tenant, and the same holds for the day, where a limit of zero means that
  there is none. A successful call leaves the request with a reservation.
\<close>

theorem reservations_respect_both_limits:
  assumes "pg_reserve_budget env t i n now d = (e, d')" "in_i64 n"
    and "\<forall>l \<in> set (db_limits d). in_i64 (li_monthly l) \<and> in_i64 (daily_limit l)"
  shows "(d' = d \<or>
      (\<exists>l \<in> set (db_limits d). li_tenant l = t \<and> i \<notin> rs_request ` set (db_reservations d)
         \<and> d' = d\<lparr>db_reservations := db_reservations d @ [new_reservation_row t i n now]\<rparr>
         \<and> (li_monthly l = 0 \<or> month_committed t now d' \<le> li_monthly l)
         \<and> (daily_limit l = 0 \<or> day_committed t now d' \<le> daily_limit l)))
    \<and> (e = None \<longrightarrow> i \<in> rs_request ` set (db_reservations d'))"
  using assms(1)
proof (cases rule: reserve_cases)
  case (2 l)
  have l: "l \<in> set (db_limits d)" "li_tenant l = t" using 2(1) by (auto simp: find_Some_iff)
  with assms(3) have range: "in_i64 (li_monthly l)" "in_i64 (daily_limit l)" by simp_all
  have limits: "li_monthly l = 0 \<or> month_committed t now d + n \<le> li_monthly l"
      "daily_limit l = 0 \<or> day_committed t now d + n \<le> daily_limit l"
    using can_reserve_sum [OF 2(6) range(1) 2(2,3) assms(2)] can_reserve_sum [OF 2(7) range(2) 2(4,5) assms(2)]
    by (auto simp: month_committed_def day_committed_def)
  from 2(8) show ?thesis
  proof (cases rule: insert_reservation_cases)
    case 1
    then show ?thesis by (simp add: new_reservation_row_def)
  next
    case new: 2
    note sums = committed_new [OF new(2)]
    have "i \<notin> rs_request ` set (db_reservations d)" using new(1) by (simp add: new_reservation_row_def)
    with l limits new(2) sums show ?thesis by (auto simp: new_reservation_row_def)
  qed
qed auto

theorem reservations_respect_both_limits_witness:
  "\<exists>d'. pg_reserve_budget sample_env ''t1'' ''r1'' 60 5 sample_db = (None, d') \<and> month_committed ''t1'' 5 d' \<le> 1000
     \<and> day_committed ''t1'' 5 d' \<le> 100 \<and> month_committed ''t1'' 5 d' = 60"
proof -
  obtain e d' where run: "pg_reserve_budget sample_env ''t1'' ''r1'' 60 5 sample_db = (e, d')" by fastforce
  have sums: "ledger_sum t s sample_db = 0" "reserved_sum t P sample_db = 0" for t s P
    by (simp_all add: ledger_sum_def reserved_sum_def sample_db_def empty_db_def)
  have "insert_reservation (new_reservation_row ''t1'' ''r1'' 60 5) sample_db
      = Inr (sample_db\<lparr>db_reservations := [new_reservation_row ''t1'' ''r1'' 60 5]\<rparr>)"
    by (simp add: insert_reservation_def insert_row_def new_reservation_row_def sample_defs)
  moreover have "db_limits sample_db = [\<lparr>li_tenant = ''t1'', li_requests_per_minute = 60, li_tokens_per_minute = 1000,
      li_max_concurrent = 5, li_monthly = 1000, li_daily = Some 100\<rparr>]" by (simp add: sample_db_def)
  moreover have "pe_fault sample_env = NoFault" by (simp add: sample_env_def)
  ultimately have e: "e = None"
    using run by (simp add: pg_reserve_budget_def Let_def sums stmt_def broken_def commit_def can_reserve_def in_i64_def i64_def
        as_error_def)
  have "\<forall>l \<in> set (db_limits sample_db). in_i64 (li_monthly l) \<and> in_i64 (daily_limit l)"
    by (simp add: sample_db_def in_i64_def daily_limit_def)
  note ok = reservations_respect_both_limits [OF run _ this]
  have d': "d' = sample_db\<lparr>db_reservations := db_reservations sample_db @ [new_reservation_row ''t1'' ''r1'' 60 5]\<rparr>
      \<and> month_committed ''t1'' 5 d' \<le> 1000 \<and> day_committed ''t1'' 5 d' \<le> 100"
    using ok e by (auto simp: in_i64_def sample_db_def empty_db_def daily_limit_def)
  then have "month_committed ''t1'' 5 d' = 60" using committed_new(1) by (simp add: month_committed_def sums)
  with d' run e show ?thesis by blast
qed

end
