(* ===== verification/Gateway_Postgres.thy ===== *)
theory Gateway_Postgres
  imports Gateway_Safety Postgres_Completion
begin

text \<open>
  The gateway on the PostgreSQL store: what is proved of \<open>execute\<close> over the store contract holds on the
  production store, with database faults, lost acknowledgements and other gateways on the same database.
\<close>

interpretation spg: request_store "shared_ops (pg_ops cd)" "shared_inv pg_inv (pg_view cd)"
  "\<lambda>sh. pg_view cd (sh_own sh)" for cd
  by (rule pg.shared_store)

text \<open>
  C12. On the PostgreSQL store too requests move legally and end for good: whatever calls the service receives,
  at whatever statement the database fails, whichever acknowledgements are lost and whatever other gateways do
  between any two calls, the row of a request only moves along the allowed transitions, keeps its tenant,
  idempotency key and hash, and does not change once it is completed, failed, cancelled or rejected.
\<close>

theorem postgres_requests_move_legally:
  assumes "shared_inv pg_inv (pg_view cd) (gw_store g)" "pg_view cd (sh_own (gw_store g)) i = Some r"
  shows "\<exists>r'. pg_view cd (sh_own (gw_store (gateway_run (shared_ops (pg_ops cd)) wo sv cs g))) i = Some r'
    \<and> can_transition\<^sup>*\<^sup>* (rec_state r) (rec_state r') \<and> (terminal (rec_state r) \<longrightarrow> r' = r)
    \<and> rec_tenant r' = rec_tenant r \<and> rec_idempotency_key r' = rec_idempotency_key r \<and> rec_hash r' = rec_hash r"
  using spg.gateway_run_follows [of cd g wo sv cs] assms
  by (auto simp: spg.follows_def evolves_def legal_move_def)

text \<open>A database on which every second call loses its acknowledgement while another client cancels the request.\<close>

definition faulty_pg :: pg_state where
  "faulty_pg = \<lparr>ps_db = sample_db,
     ps_env = (\<lambda>k. sample_env\<lparr>pe_fault := if even k then LostAck CtxCanceled else FailsAt 0 CtxCanceled\<rparr>), ps_step = 0\<rparr>"

definition faulty_shared :: "pg_state shared" where
  "faulty_shared = \<lparr>sh_own = faulty_pg,
     sh_others = (\<lambda>k s. snd (so_cancel (pg_ops sample_codec) ''t1'' ''r1'' '''' s)), sh_step = 0\<rparr>"

lemma faulty_shared_inv: "shared_inv pg_inv (pg_view sample_codec) faulty_shared"
proof -
  have "pg_inv faulty_pg" by (simp add: pg_inv_def faulty_pg_def request_keys_def sample_defs)
  then show ?thesis
    using pg.cancel_safe [where cd = sample_codec] by (simp add: shared_inv_def faulty_shared_def)
qed

lemma faulty_view:
  "pg_view sample_codec (sh_own (gw_store (sample_gw faulty_shared))) ''r1'' = Some (row_view sample_codec sample_db sample_request)"
  by (simp add: sample_gw_def faulty_shared_def faulty_pg_def pg_view_def db_view_def sample_db_def sample_request_def empty_db_def)

theorem postgres_requests_move_legally_witness:
  "\<exists>r. pg_view sample_codec (sh_own (gw_store (gateway_run (shared_ops (pg_ops sample_codec)) sample_world sample_service
        [Submit sample_args, CancelRequest ''t1'' ''r1'' ''c''] (sample_gw faulty_shared)))) ''r1'' = Some r
    \<and> can_transition\<^sup>*\<^sup>* InProgress (rec_state r) \<and> rec_tenant r = ''t1''"
proof -
  have "shared_inv pg_inv (pg_view sample_codec) (gw_store (sample_gw faulty_shared))"
    using faulty_shared_inv by (simp add: sample_gw_def)
  from postgres_requests_move_legally [OF this faulty_view, of sample_world sample_service
      "[Submit sample_args, CancelRequest ''t1'' ''r1'' ''c'']"]
  show ?thesis by (auto simp: row_view_def row_record_def sample_request_def)
qed

end
