(* ===== verification/Event_Projection.thy ===== *)
theory Event_Projection
  imports Database
begin

text \<open>
  The projection of events into the audit trail and the usage ledger: \<open>ProcessKafkaEvent\<close>
  (\<open>internal/persistence/audit.go\<close>), one transaction per event, and the loop of the Kafka consumer
  (\<open>internal/kafka/consumer.go\<close>).
\<close>

record usage_event =
  ue_request :: string
  ue_prompt_tokens :: int
  ue_completion_tokens :: int
  ue_cost :: int

text \<open>\<open>json.Unmarshal\<close> of a payload into the struct of a usage event; absent fields are zero.\<close>

definition decode_usage :: "json \<Rightarrow> go_error + usage_event" where
  "decode_usage payload =
     (case members_of payload of
        Inl e \<Rightarrow> Inl e
      | Inr ms \<Rightarrow>
          (case (set_field set_string ''request_id'' ms '''', set_field set_int ''prompt_tokens'' ms 0,
                 set_field set_int ''completion_tokens'' ms 0, set_field set_int ''cost_micro_usd'' ms 0) of
             ((i, None), (p, None), (c, None), (cost, None)) \<Rightarrow>
               Inr \<lparr>ue_request = i, ue_prompt_tokens = p, ue_completion_tokens = c, ue_cost = cost\<rparr>
           | _ \<Rightarrow> Inl (ErrMsg ''json: cannot unmarshal usage event'')))"

text \<open>The three inserts of the transaction; each skips a row whose key exists.\<close>

definition insert_processed :: "string \<Rightarrow> envelope \<Rightarrow> db \<Rightarrow> nat \<times> db" where
  "insert_processed consumer ev d =
     (if \<exists>p \<in> set (db_processed d). pk_consumer p = consumer \<and> pk_event p = ev_id ev then (0, d)
      else (1, d\<lparr>db_processed := db_processed d @
             [\<lparr>pk_consumer = consumer, pk_event = ev_id ev, pk_type = ev_type ev, pk_version = ev_version ev\<rparr>]\<rparr>))"

definition insert_audit :: "envelope \<Rightarrow> json \<Rightarrow> db \<Rightarrow> go_error + db" where
  "insert_audit ev payload d =
     (if ev_id ev \<in> au_id ` set (db_audit d) then Inr d
      else map_sum id (\<lambda>rows. d\<lparr>db_audit := rows\<rparr>)
        (insert_row [(ev_tenant ev \<in> tn_id ` set (db_tenants d), ''audit_events_tenant_id_fkey'')] (db_audit d)
           \<lparr>au_id = ev_id ev, au_tenant = ev_tenant ev, au_type = ev_type ev, au_version = ev_version ev,
            au_aggregate = ev_aggregate ev, au_correlation = ev_correlation ev,
            au_causation = (if ev_causation ev = '''' then None else Some (ev_causation ev)), au_payload = payload,
            au_occurred_at = ev_timestamp ev\<rparr>))"

definition new_ledger_row :: "envelope \<Rightarrow> usage_event \<Rightarrow> ledger_row" where
  "new_ledger_row ev u =
     \<lparr>lg_tenant = ev_tenant ev, lg_request = ue_request u, lg_event = ev_id ev, lg_prompt_tokens = ue_prompt_tokens u,
      lg_completion_tokens = ue_completion_tokens u, lg_cost = ue_cost u, lg_occurred_at = ev_timestamp ev\<rparr>"

definition insert_ledger :: "envelope \<Rightarrow> usage_event \<Rightarrow> db \<Rightarrow> go_error + db" where
  "insert_ledger ev u d =
     (if \<exists>l \<in> set (db_ledger d). lg_tenant l = ev_tenant ev \<and> lg_event l = ev_id ev then Inr d
      else map_sum id (\<lambda>rows. d\<lparr>db_ledger := rows\<rparr>)
        (insert_row
           [(ev_tenant ev \<in> tn_id ` set (db_tenants d), ''usage_ledger_tenant_id_fkey''),
            (ue_request u \<in> rq_id ` set (db_requests d), ''usage_ledger_request_id_fkey''),
            (0 \<le> ue_prompt_tokens u \<and> 0 \<le> ue_completion_tokens u \<and> 0 \<le> ue_cost u, ''usage_ledger_check'')]
           (db_ledger d) (new_ledger_row ev u)))"

text \<open>The effects of an event that this consumer has not seen, up to the commit.\<close>

definition apply_event :: "fault \<Rightarrow> envelope \<Rightarrow> json \<Rightarrow> db \<Rightarrow> db \<Rightarrow> (go_error + bool) \<times> db" where
  "apply_event f ev payload d d1 =
     stmt f 2 (ErrWrap ''insert immutable audit event'') d (insert_audit ev payload d1) (\<lambda>d2.
     if ev_type ev = usage_recorded
     then (case decode_usage payload of
             Inl e \<Rightarrow> (Inl (ErrWrap ''decode usage event'' e), d)
           | Inr u \<Rightarrow>
               stmt f 3 (ErrWrap ''insert usage ledger entry'') d (insert_ledger ev u d2)
                 (commit f 4 (ErrWrap ''commit Kafka event processing'') d True))
     else commit f 4 (ErrWrap ''commit Kafka event processing'') d True d2)"

definition process_kafka_event :: "fault \<Rightarrow> string \<Rightarrow> envelope \<Rightarrow> db \<Rightarrow> (go_error + bool) \<times> db" where
  "process_kafka_event f consumer ev d =
     (case event_validate ev of
        Some e \<Rightarrow> (Inl e, d)
      | None \<Rightarrow>
          (case ev_payload ev of
             None \<Rightarrow> (Inl (ErrMsg ''event timestamp and valid payload are required''), d)
           | Some payload \<Rightarrow>
               stmt f 0 (ErrWrap ''begin Kafka event processing'') d (Inr ()) (\<lambda>_.
               stmt f 1 (ErrWrap ''insert processed event marker'') d (Inr (insert_processed consumer ev d)) (\<lambda>(rows, d1).
               if rows = 0 then commit f 4 (ErrWrap ''commit duplicate event'') d False d1
               else apply_event f ev payload d d1))))"

text \<open>
  What the consumer gets from \<open>FetchMessage\<close> and, after processing, from \<open>CommitMessages\<close>. The loop ends
  with \<^const>\<open>None\<close> when its context is done and with the error that stops the process otherwise.
  \<open>committed\<close> are the offsets acknowledged so far.
\<close>

datatype fetch = FetchDone | FetchError go_error | Fetched nat string

record consumer_turn =
  ct_fetch :: fetch
  ct_fault :: fault
  ct_commit :: "go_error option"

fun consumer_run ::
  "(string \<Rightarrow> go_error + envelope) \<Rightarrow> string \<Rightarrow> consumer_turn list \<Rightarrow> nat list \<Rightarrow> db \<Rightarrow> go_error option option \<times> nat list \<times> db" where
  "consumer_run decode name [] committed d = (None, committed, d)"
| "consumer_run decode name (t # ts) committed d =
     (case ct_fetch t of
        FetchDone \<Rightarrow> (Some None, committed, d)
      | FetchError e \<Rightarrow> (Some (Some (ErrWrap ''fetch Kafka message'' e)), committed, d)
      | Fetched offset value \<Rightarrow>
          (case decode value of
             Inl e \<Rightarrow> (Some (Some (ErrWrap ''decode Kafka event'' e)), committed, d)
           | Inr ev \<Rightarrow>
               (case process_kafka_event (ct_fault t) name ev d of
                  (Inl e, d1) \<Rightarrow> (Some (Some (ErrWrap (''process Kafka event '' @ ev_id ev) e)), committed, d1)
                | (Inr processed, d1) \<Rightarrow>
                    (case ct_commit t of
                       Some e \<Rightarrow> (Some (Some (ErrWrap ''commit Kafka offset'' e)), committed, d1)
                     | None \<Rightarrow> consumer_run decode name ts (committed @ [offset]) d1))))"

subsection \<open>Decoding what the store writes\<close>

lemma plain_keys:
  "list_all plain_char ''request_id''" "list_all plain_char ''model''" "list_all plain_char ''prompt_tokens''"
  "list_all plain_char ''completion_tokens''" "list_all plain_char ''cost_micro_usd''" "list_all plain_char ''latency_ms''"
  by (simp_all add: plain_char_def)

lemma usage_keys:
  "\<not> same_key ''model'' ''request_id''" "\<not> same_key ''prompt_tokens'' ''request_id''"
  "\<not> same_key ''completion_tokens'' ''request_id''" "\<not> same_key ''cost_micro_usd'' ''request_id''"
  "\<not> same_key ''latency_ms'' ''request_id''" "\<not> same_key ''request_id'' ''prompt_tokens''"
  "\<not> same_key ''model'' ''prompt_tokens''" "\<not> same_key ''completion_tokens'' ''prompt_tokens''"
  "\<not> same_key ''cost_micro_usd'' ''prompt_tokens''" "\<not> same_key ''latency_ms'' ''prompt_tokens''"
  "\<not> same_key ''request_id'' ''completion_tokens''" "\<not> same_key ''model'' ''completion_tokens''"
  "\<not> same_key ''prompt_tokens'' ''completion_tokens''" "\<not> same_key ''cost_micro_usd'' ''completion_tokens''"
  "\<not> same_key ''latency_ms'' ''completion_tokens''" "\<not> same_key ''request_id'' ''cost_micro_usd''"
  "\<not> same_key ''model'' ''cost_micro_usd''" "\<not> same_key ''prompt_tokens'' ''cost_micro_usd''"
  "\<not> same_key ''completion_tokens'' ''cost_micro_usd''" "\<not> same_key ''latency_ms'' ''cost_micro_usd''"
  by (simp_all only: same_key_plain plain_keys) simp_all

lemma decode_usage_object:
  assumes "in_i64 p" "in_i64 c" "in_i64 cost"
  shows "decode_usage (JObject [(''request_id'', JString i), (''model'', JString m), (''prompt_tokens'', JInt p),
      (''completion_tokens'', JInt c), (''cost_micro_usd'', JInt cost), (''latency_ms'', JInt l)])
    = Inr \<lparr>ue_request = i, ue_prompt_tokens = p, ue_completion_tokens = c, ue_cost = cost\<rparr>"
  using assms
  by (simp add: decode_usage_def members_of_def usage_keys set_string_def set_int_def)

subsection \<open>What processing an event changes\<close>

lemma insert_audit_effect: "insert_audit ev payload d = Inr d' \<Longrightarrow> \<exists>rows. d' = d\<lparr>db_audit := rows\<rparr>"
  by (auto simp: insert_audit_def split: if_splits intro: exI [of _ "db_audit d"])

lemma insert_ledger_effect:
  "insert_ledger ev u d = Inr d' \<Longrightarrow>
     (d' = d \<and> (\<exists>l \<in> set (db_ledger d). lg_tenant l = ev_tenant ev \<and> lg_event l = ev_id ev))
     \<or> (d' = d\<lparr>db_ledger := db_ledger d @ [new_ledger_row ev u]\<rparr>
        \<and> \<not> (\<exists>l \<in> set (db_ledger d). lg_tenant l = ev_tenant ev \<and> lg_event l = ev_id ev))"
  by (auto simp: insert_ledger_def insert_row_Inr split: if_splits)

definition processed_mark :: "string \<Rightarrow> envelope \<Rightarrow> processed_row" where
  "processed_mark consumer ev = \<lparr>pk_consumer = consumer, pk_event = ev_id ev, pk_type = ev_type ev, pk_version = ev_version ev\<rparr>"

lemma apply_event_effect:
  assumes "apply_event f ev payload d d1 = (x, d')"
  obtains e where "d' = d" "x = Inl e"
  | rows where "ev_type ev \<noteq> usage_recorded" "d' = d1\<lparr>db_audit := rows\<rparr>"
  | rows u d2 where "ev_type ev = usage_recorded" "decode_usage payload = Inr u" "insert_ledger ev u (d1\<lparr>db_audit := rows\<rparr>) = Inr d2" "d' = d2"
  using assms unfolding apply_event_def
  by (elim stmt_cases)
    (auto split: if_splits sum.splits elim!: stmt_cases commit_cases dest!: insert_audit_effect intro: that)

lemma process_effect:
  assumes "process_kafka_event f consumer ev d = (res, d')"
  obtains "d' = d"
  | rows where "ev_type ev \<noteq> usage_recorded"
      "d' = d\<lparr>db_processed := db_processed d @ [processed_mark consumer ev], db_audit := rows\<rparr>"
  | rows payload u where "ev_type ev = usage_recorded" "ev_payload ev = Some payload" "decode_usage payload = Inr u"
      "insert_ledger ev u (d\<lparr>db_processed := db_processed d @ [processed_mark consumer ev], db_audit := rows\<rparr>) = Inr d'"
proof -
  obtain n d1 where mark: "insert_processed consumer ev d = (n, d1)" by fastforce
  have d1: "d1 = (if n = 0 then d else d\<lparr>db_processed := db_processed d @ [processed_mark consumer ev]\<rparr>)"
    using mark by (auto simp: insert_processed_def processed_mark_def split: if_splits)
  show thesis
  proof (cases "n = 0")
    case True
    from assms have "d' = d"
      unfolding process_kafka_event_def mark d1
      by (auto simp: True split: option.splits elim!: stmt_cases commit_cases)
    then show thesis by (rule that(1))
  next
    case False
    from assms have "d' = d \<or> (\<exists>payload x. ev_payload ev = Some payload \<and> apply_event f ev payload d d1 = (x, d'))"
      unfolding process_kafka_event_def mark
      by (auto simp: False split: option.splits elim!: stmt_cases)
    with False d1 that show thesis by (auto elim!: apply_event_effect)
  qed
qed

end
