(* ===== verification/Outbox.thy ===== *)
theory Outbox
  imports Database
begin

text \<open>
  The transactional outbox (\<open>internal/outbox\<close>): claiming a batch of unpublished rows, marking them published
  or failed, and the relay that publishes a batch to Kafka. Times of the database are nanoseconds; \<open>now\<close> is
  its \<open>now()\<close>.
\<close>

text \<open>What \<open>Claim\<close> returns of a row.\<close>

definition row_event :: "outbox_row \<Rightarrow> envelope" where
  "row_event row =
     \<lparr>ev_id = ob_id row, ev_type = ob_type row, ev_version = ob_version row, ev_aggregate = ob_aggregate row,
      ev_tenant = ob_tenant row, ev_timestamp = ob_occurred_at row, ev_correlation = ob_correlation row,
      ev_causation = (case ob_causation row of None \<Rightarrow> '''' | Some c \<Rightarrow> c), ev_payload = Some (ob_payload row)\<rparr>"

text \<open>\<open>int64(d.Seconds())\<close> of a duration, in seconds.\<close>

definition interval_seconds :: "duration \<Rightarrow> int" where
  "interval_seconds d = go_quo d second"

definition claimable :: "go_time \<Rightarrow> duration \<Rightarrow> outbox_row \<Rightarrow> bool" where
  "claimable now ttl row \<longleftrightarrow>
     ob_published_at row = None \<and> ob_available_at row \<le> now
     \<and> (case ob_claimed_at row of None \<Rightarrow> True | Some t \<Rightarrow> t < now - interval_seconds ttl * second)"

text \<open>
  The rows that a claim takes: the oldest claimable ones that no other transaction has locked, at most
  \<open>limit\<close> of them.
\<close>

definition candidates :: "go_time \<Rightarrow> duration \<Rightarrow> string set \<Rightarrow> nat \<Rightarrow> outbox_row list \<Rightarrow> outbox_row list" where
  "candidates now ttl locked limit rows =
     take limit (sort_key ob_created_at (filter (\<lambda>row. claimable now ttl row \<and> ob_id row \<notin> locked) rows))"

definition claimed :: "go_time \<Rightarrow> string \<Rightarrow> outbox_row \<Rightarrow> outbox_row" where
  "claimed now worker row = row\<lparr>ob_claimed_at := Some now, ob_claimed_by := Some worker, ob_attempts := ob_attempts row + 1\<rparr>"

definition claim_rows ::
  "fault \<Rightarrow> go_time \<Rightarrow> string set \<Rightarrow> string \<Rightarrow> nat \<Rightarrow> duration \<Rightarrow> db \<Rightarrow> (go_error + outbox_row list) \<times> db" where
  "claim_rows f now locked worker limit ttl d =
     (let taken = candidates now ttl locked limit (db_outbox d);
          d1 = d\<lparr>db_outbox := update_rows (\<lambda>row. ob_id row \<in> ob_id ` set taken) (claimed now worker) (db_outbox d)\<rparr>
      in commit f 0 (ErrWrap ''claim outbox rows'') d taken d1)"

text \<open>An update of the row of an event that the worker still has claimed and that is not published.\<close>

definition update_claimed :: "string \<Rightarrow> string \<Rightarrow> (outbox_row \<Rightarrow> outbox_row) \<Rightarrow> db \<Rightarrow> db" where
  "update_claimed event worker change d =
     d\<lparr>db_outbox := update_rows (\<lambda>row. ob_id row = event \<and> ob_claimed_by row = Some worker \<and> ob_published_at row = None)
         change (db_outbox d)\<rparr>"

definition as_exec :: "(go_error + unit) \<times> db \<Rightarrow> go_error option \<times> db" where
  "as_exec res = (case res of (Inl e, d) \<Rightarrow> (Some e, d) | (Inr u, d) \<Rightarrow> (None, d))"

definition mark_published :: "fault \<Rightarrow> go_time \<Rightarrow> string \<Rightarrow> string \<Rightarrow> db \<Rightarrow> go_error option \<times> db" where
  "mark_published f now event worker d =
     as_exec (commit f 0 (ErrWrap ''mark outbox event published'') d ()
       (update_claimed event worker
          (\<lambda>row. row\<lparr>ob_published_at := Some now, ob_claimed_at := None, ob_claimed_by := None, ob_last_error := None\<rparr>) d))"

definition mark_failed ::
  "fault \<Rightarrow> go_time \<Rightarrow> string \<Rightarrow> string \<Rightarrow> string \<Rightarrow> duration \<Rightarrow> db \<Rightarrow> go_error option \<times> db" where
  "mark_failed f now event worker category delay d =
     as_exec (commit f 0 (ErrWrap ''release failed outbox event'') d ()
       (update_claimed event worker
          (\<lambda>row. row\<lparr>ob_claimed_at := None, ob_claimed_by := None, ob_last_error := Some category,
                 ob_available_at := now + interval_seconds delay * second\<rparr>) d))"

subsection \<open>The relay\<close>

record relay =
  re_worker :: string
  re_batch_size :: int
  re_poll :: duration

definition new_relay :: "string \<Rightarrow> int \<Rightarrow> duration \<Rightarrow> relay" where
  "new_relay worker batch_size poll =
     \<lparr>re_worker = worker, re_batch_size = (if batch_size \<le> 0 then 100 else batch_size),
      re_poll = (if poll \<le> 0 then 500 * millisecond else poll)\<rparr>"

text \<open>
  What one turn over a row meets: whether Kafka stored the message and what its writer reported, and the
  fault and the time of the statement that follows. A writer that reports success has stored the message.
\<close>

record publish_turn =
  pt_stored :: bool
  pt_error :: "go_error option"
  pt_fault :: fault
  pt_now :: go_time

definition turn_ok :: "publish_turn \<Rightarrow> bool" where
  "turn_ok t \<longleftrightarrow> (pt_error t = None \<longrightarrow> pt_stored t)"

text \<open>One publication: the error and the messages of the topic afterwards.\<close>

definition publish_row ::
  "(envelope \<Rightarrow> go_error + string) \<Rightarrow> publish_turn \<Rightarrow> outbox_row \<Rightarrow> kafka_msg list \<Rightarrow> go_error option \<times> kafka_msg list" where
  "publish_row marshal t row topic =
     (case kafka_publish marshal (\<lambda>m. pt_error t) (row_event row) of
        (e, None) \<Rightarrow> (e, topic)
      | (e, Some m) \<Rightarrow> (e, if pt_stored t then topic @ [m] else topic))"

fun run_rows ::
  "(envelope \<Rightarrow> go_error + string) \<Rightarrow> string \<Rightarrow> (publish_turn \<times> outbox_row) list \<Rightarrow> db \<Rightarrow> kafka_msg list
     \<Rightarrow> go_error option \<times> db \<times> kafka_msg list" where
  "run_rows marshal worker [] d topic = (None, d, topic)"
| "run_rows marshal worker ((t, row) # rows) d topic =
     (case publish_row marshal t row topic of
        (Some e, topic1) \<Rightarrow>
          run_rows marshal worker rows
            (snd (mark_failed (pt_fault t) (pt_now t) (ob_id row) worker ''kafka_publish'' second d)) topic1
      | (None, topic1) \<Rightarrow>
          (case mark_published (pt_fault t) (pt_now t) (ob_id row) worker d of
             (Some e, d1) \<Rightarrow> (Some e, d1, topic1)
           | (None, d1) \<Rightarrow> run_rows marshal worker rows d1 topic1))"

definition run_batch ::
  "(envelope \<Rightarrow> go_error + string) \<Rightarrow> relay \<Rightarrow> fault \<Rightarrow> go_time \<Rightarrow> string set \<Rightarrow> (nat \<Rightarrow> publish_turn) \<Rightarrow> db \<Rightarrow> kafka_msg list
     \<Rightarrow> go_error option \<times> db \<times> kafka_msg list" where
  "run_batch marshal r f now locked turns d topic =
     (case claim_rows f now locked (re_worker r) (nat (re_batch_size r)) minute d of
        (Inl e, d1) \<Rightarrow> (Some e, d1, topic)
      | (Inr rows, d1) \<Rightarrow> run_rows marshal (re_worker r) (zip (map turns [0..<length rows]) rows) d1 topic)"

text \<open>
  The polling loop: it ends with the error of a batch unless its context was cancelled by then, or without
  one when the \<open>select\<close> after a batch sees that the context is done. A list of turns is what one observation
  of the loop meets; the result is \<^const>\<open>None\<close> when the loop still runs at its end.
\<close>

record relay_turn =
  rt_fault :: fault
  rt_now :: go_time
  rt_locked :: "string set"
  rt_turns :: "nat \<Rightarrow> publish_turn"
  rt_cancelled :: bool
  rt_done :: bool

fun relay_run ::
  "(envelope \<Rightarrow> go_error + string) \<Rightarrow> relay \<Rightarrow> relay_turn list \<Rightarrow> db \<Rightarrow> kafka_msg list
     \<Rightarrow> go_error option option \<times> db \<times> kafka_msg list" where
  "relay_run marshal r [] d topic = (None, d, topic)"
| "relay_run marshal r (t # ts) d topic =
     (case run_batch marshal r (rt_fault t) (rt_now t) (rt_locked t) (rt_turns t) d topic of
        (err, d1, topic1) \<Rightarrow>
          if err \<noteq> None \<and> \<not> rt_cancelled t then (Some err, d1, topic1)
          else if rt_done t then (Some None, d1, topic1)
          else relay_run marshal r ts d1 topic1)"

end
