(* ===== verification/Evaluation_Store.thy ===== *)
theory Evaluation_Store
  imports Postgres_Store Evaluation
begin

text \<open>
  Evaluation jobs in PostgreSQL (\<open>internal/persistence/evaluation.go\<close>): creation under an idempotency key,
  the status updates, loading what a job evaluates, and the transactions that store a result or a failure
  together with their events. \<open>CreateOrGetEvaluation\<close> runs its statements one by one; \<open>other k\<close> is what other
  clients do to the database after its \<open>k\<close>-th statement. The encoding of results is an argument.
\<close>

record evaluation_job =
  jb_id :: string
  jb_tenant :: string
  jb_request :: string
  jb_idempotency_key :: string
  jb_hash :: string
  jb_type :: string
  jb_status :: eval_status
  jb_attempts :: int
  jb_correlation :: string
  jb_parameters :: json
  jb_requested_at :: go_time
  jb_started_at :: "go_time option"
  jb_completed_at :: "go_time option"
  jb_last_error :: string
  jb_result :: raw_message

record create_evaluation_params =
  cep_tenant :: string
  cep_request :: string
  cep_idempotency_key :: string
  cep_hash :: string
  cep_type :: string
  cep_correlation :: string
  cep_parameters :: json

subsection \<open>Creating and reading jobs\<close>

definition new_job_row :: "string \<Rightarrow> go_time \<Rightarrow> create_evaluation_params \<Rightarrow> job_row" where
  "new_job_row uuid now params =
     \<lparr>ej_id = uuid, ej_tenant = cep_tenant params, ej_request = cep_request params,
      ej_idempotency_key = cep_idempotency_key params, ej_hash = cep_hash params, ej_type = cep_type params,
      ej_status = Pending, ej_attempts = 0, ej_correlation = cep_correlation params,
      ej_parameters = cep_parameters params, ej_requested_at = now, ej_started_at = None, ej_completed_at = None,
      ej_last_error = None\<rparr>"

text \<open>\<open>INSERT ... SELECT ... ON CONFLICT DO NOTHING RETURNING id\<close>: no row without a completed request.\<close>

definition insert_job :: "job_row \<Rightarrow> db \<Rightarrow> go_error + string option \<times> db" where
  "insert_job row d =
     (if \<not> (\<exists>r \<in> set (db_requests d). rq_id r = ej_request row \<and> rq_tenant r = ej_tenant row \<and> rq_status r = Completed)
         \<or> (\<exists>j \<in> set (db_jobs d). ej_tenant j = ej_tenant row \<and> ej_idempotency_key j = ej_idempotency_key row)
      then Inr (None, d)
      else map_sum id (\<lambda>rows. (Some (ej_id row), d\<lparr>db_jobs := rows\<rparr>))
        (insert_row
           [(ej_id row \<notin> ej_id ` set (db_jobs d), ''evaluation_jobs_pkey''),
            (ej_tenant row \<in> tn_id ` set (db_tenants d), ''evaluation_jobs_tenant_id_fkey'')]
           (db_jobs d) row))"

definition row_job :: "job_row \<Rightarrow> raw_message \<Rightarrow> evaluation_job" where
  "row_job row result =
     \<lparr>jb_id = ej_id row, jb_tenant = ej_tenant row, jb_request = ej_request row,
      jb_idempotency_key = ej_idempotency_key row, jb_hash = ej_hash row, jb_type = ej_type row,
      jb_status = ej_status row, jb_attempts = ej_attempts row, jb_correlation = ej_correlation row,
      jb_parameters = ej_parameters row, jb_requested_at = ej_requested_at row, jb_started_at = ej_started_at row,
      jb_completed_at = ej_completed_at row,
      jb_last_error = (case ej_last_error row of None \<Rightarrow> '''' | Some c \<Rightarrow> c), jb_result = result\<rparr>"

text \<open>The payload of the result of a job, the empty object without one.\<close>

definition job_result :: "string \<Rightarrow> db \<Rightarrow> json" where
  "job_result i d = (case find (\<lambda>r. rr_job r = i) (db_results d) of None \<Rightarrow> JObject [] | Some r \<Rightarrow> rr_payload r)"

definition get_evaluation :: "fault \<Rightarrow> nat \<Rightarrow> string \<Rightarrow> string \<Rightarrow> db \<Rightarrow> go_error + evaluation_job" where
  "get_evaluation f k tenant i d =
     (case broken f k of
        Some e \<Rightarrow> Inl (ErrWrap ''get evaluation job'' e)
      | None \<Rightarrow>
          (case find (\<lambda>j. ej_tenant j = tenant \<and> ej_id j = i) (db_jobs d) of
             None \<Rightarrow> Inl ErrNotFound
           | Some j \<Rightarrow> Inr (row_job j (Some (job_result i d)))))"

text \<open>The job with the identifier that the insert or the lookup gave.\<close>

definition finish_create_evaluation ::
  "fault \<Rightarrow> create_evaluation_params \<Rightarrow> string \<Rightarrow> bool \<Rightarrow> db \<Rightarrow> go_error + evaluation_job \<times> bool" where
  "finish_create_evaluation f params i created d =
     (case get_evaluation f 2 (cep_tenant params) i d of
        Inl e \<Rightarrow> Inl e
      | Inr job \<Rightarrow> if \<not> created \<and> jb_hash job \<noteq> cep_hash params then Inl ErrConflict else Inr (job, created))"

definition create_or_get_evaluation ::
  "pg_env \<Rightarrow> (nat \<Rightarrow> db \<Rightarrow> db) \<Rightarrow> create_evaluation_params \<Rightarrow> db \<Rightarrow> (go_error + evaluation_job \<times> bool) \<times> db" where
  "create_or_get_evaluation env other params d =
     (case stmt (pe_fault env) 0 (ErrWrap ''create evaluation job'') d
             (insert_job (new_job_row (pe_ids env 0) (pe_now env) params) d)
             (\<lambda>(inserted, d1). commit (pe_fault env) 0 (ErrWrap ''create evaluation job'') d inserted d1) of
        (Inl e, d1) \<Rightarrow> (Inl e, d1)
      | (Inr (Some i), d1) \<Rightarrow>
          (let d2 = other 0 d1 in (finish_create_evaluation (pe_fault env) params i True d2, d2))
      | (Inr None, d1) \<Rightarrow>
          (let d2 = other 0 d1
           in case broken (pe_fault env) 1 of
                Some e \<Rightarrow> (Inl (ErrWrap ''load existing evaluation job'' e), d2)
              | None \<Rightarrow>
                  (case find (\<lambda>j. ej_tenant j = cep_tenant params \<and> ej_idempotency_key j = cep_idempotency_key params) (db_jobs d2) of
                     None \<Rightarrow> (Inl ErrNotFound, d2)
                   | Some j \<Rightarrow>
                       (let d3 = other 1 d2
                        in (finish_create_evaluation (pe_fault env) params (ej_id j) False d3, d3)))))"

definition list_limit :: "int \<Rightarrow> int" where
  "list_limit limit = (if limit \<le> 0 \<or> 100 < limit then 50 else limit)"

definition list_evaluations :: "fault \<Rightarrow> string \<Rightarrow> int \<Rightarrow> int \<Rightarrow> db \<Rightarrow> go_error + evaluation_job list" where
  "list_evaluations f tenant limit offset d =
     (case broken f 0 of
        Some e \<Rightarrow> Inl (ErrWrap ''list evaluation jobs'' e)
      | None \<Rightarrow>
          if offset < 0 then Inl (ErrWrap ''list evaluation jobs'' (ErrMsg ''OFFSET must not be negative''))
          else Inr (map (\<lambda>j. row_job j None) (take (nat (list_limit limit)) (drop (nat offset)
            (sort_key (\<lambda>j. - ej_requested_at j) (filter (\<lambda>j. ej_tenant j = tenant) (db_jobs d)))))))"

subsection \<open>Status updates\<close>

definition update_job :: "string \<Rightarrow> string \<Rightarrow> eval_status list \<Rightarrow> (job_row \<Rightarrow> job_row) \<Rightarrow> db \<Rightarrow> db" where
  "update_job tenant i from change d =
     d\<lparr>db_jobs := update_rows (\<lambda>j. ej_tenant j = tenant \<and> ej_id j = i \<and> ej_status j \<in> set from) change (db_jobs d)\<rparr>"

definition mark_queued :: "fault \<Rightarrow> string \<Rightarrow> string \<Rightarrow> db \<Rightarrow> go_error option \<times> db" where
  "mark_queued f tenant i d =
     as_error (commit f 0 (\<lambda>e. e) d () (update_job tenant i [Pending, EvalFailed] (\<lambda>j. j\<lparr>ej_status := Queued\<rparr>) d))"

definition running_row :: "go_time \<Rightarrow> job_row \<Rightarrow> job_row" where
  "running_row now j =
     j\<lparr>ej_status := Running, ej_started_at := (case ej_started_at j of None \<Rightarrow> Some now | Some t \<Rightarrow> Some t),
       ej_attempts := ej_attempts j + 1\<rparr>"

definition mark_running :: "fault \<Rightarrow> go_time \<Rightarrow> string \<Rightarrow> string \<Rightarrow> db \<Rightarrow> go_error option \<times> db" where
  "mark_running f now tenant i d =
     as_error (commit f 0 (\<lambda>e. e) d () (update_job tenant i [Pending, Queued, Running, EvalFailed] (running_row now) d))"

subsection \<open>What a job evaluates\<close>

text \<open>
  \<open>json.Unmarshal\<close> of a stored response into the contents of its choices. A slice is set from \<open>null\<close> and from an
  array, whose elements start from the zero value; other kinds are errors.
\<close>

definition set_message :: "json \<Rightarrow> string \<Rightarrow> go_error + string" where
  "set_message v old =
     (case members_of v of
        Inl e \<Rightarrow> Inl e
      | Inr ms \<Rightarrow> (case set_field set_string ''content'' ms old of (s, None) \<Rightarrow> Inr s | (_, Some e) \<Rightarrow> Inl e))"

definition decode_choice :: "json \<Rightarrow> go_error + string" where
  "decode_choice v =
     (case members_of v of
        Inl e \<Rightarrow> Inl e
      | Inr ms \<Rightarrow> (case set_field set_message ''message'' ms '''' of (s, None) \<Rightarrow> Inr s | (_, Some e) \<Rightarrow> Inl e))"

fun decode_choices :: "json list \<Rightarrow> go_error + string list" where
  "decode_choices [] = Inr []"
| "decode_choices (v # vs) =
     (case (decode_choice v, decode_choices vs) of
        (Inr s, Inr ss) \<Rightarrow> Inr (s # ss)
      | (Inl e, _) \<Rightarrow> Inl e
      | (_, Inl e) \<Rightarrow> Inl e)"

definition set_choices :: "json \<Rightarrow> string list \<Rightarrow> go_error + string list" where
  "set_choices v old =
     (case v of
        JNull \<Rightarrow> Inr []
      | JArray vs \<Rightarrow> decode_choices vs
      | _ \<Rightarrow> Inl (ErrMsg ''json: cannot unmarshal into slice''))"

text \<open>The content of the first choice of a response.\<close>

definition stored_content :: "json option \<Rightarrow> string option" where
  "stored_content body =
     (case body of
        None \<Rightarrow> None
      | Some v \<Rightarrow>
          (case members_of v of
             Inl e \<Rightarrow> None
           | Inr ms \<Rightarrow> (case set_field set_choices ''choices'' ms [] of (c # cs, None) \<Rightarrow> Some c | _ \<Rightarrow> None)))"

text \<open>The parameters of a job; the error of their decoding is ignored, an ill-typed term of a list is empty.\<close>

definition set_terms :: "json \<Rightarrow> string list \<Rightarrow> go_error + string list" where
  "set_terms v old =
     (case v of
        JNull \<Rightarrow> Inr []
      | JArray vs \<Rightarrow> Inr (map (\<lambda>t. case set_string t '''' of Inr s \<Rightarrow> s | Inl e \<Rightarrow> '''') vs)
      | _ \<Rightarrow> Inl (ErrMsg ''json: cannot unmarshal into slice''))"

definition apply_parameters :: "json \<Rightarrow> eval_input \<Rightarrow> eval_input" where
  "apply_parameters parameters inp =
     (let ms = (case members_of parameters of Inl e \<Rightarrow> [] | Inr ms \<Rightarrow> ms);
          int_of = (\<lambda>name. fst (set_field set_int name ms 0))
      in inp\<lparr>ei_requested_format := fst (set_field set_string ''requested_format'' ms ''''),
             ei_blocked_terms := fst (set_field set_terms ''blocked_terms'' ms []),
             ei_max_provider_latency := i64 (int_of ''max_provider_latency_ms'' * millisecond),
             ei_max_total_latency := i64 (int_of ''max_total_latency_ms'' * millisecond),
             ei_max_tokens := int_of ''max_tokens'', ei_max_cost := int_of ''max_cost_micro_usd''\<rparr>)"

text \<open>\<open>EXTRACT(EPOCH FROM d) * 1000\<close> cast to \<open>bigint\<close>, which rounds to the nearest integer, halves away from zero.\<close>

definition epoch_milliseconds :: "duration \<Rightarrow> int" where
  "epoch_milliseconds d = sgn d * ((2 * \<bar>d\<bar> + millisecond) div (2 * millisecond))"

definition provider_latency :: "string \<Rightarrow> db \<Rightarrow> int" where
  "provider_latency i d =
     foldr max (List.map_filter at_latency (filter (\<lambda>a. at_request a = i \<and> at_status a = AttemptSucceeded) (db_attempts d))) 0"

definition source_input :: "string \<Rightarrow> int \<Rightarrow> request_row \<Rightarrow> db \<Rightarrow> eval_input" where
  "source_input content elapsed row d =
     \<lparr>ei_response = content, ei_requested_format = '''',
      ei_provider_latency = i64 (provider_latency (rq_id row) d * millisecond),
      ei_total_latency = i64 (elapsed * millisecond),
      ei_prompt_tokens = (case rq_prompt_tokens row of None \<Rightarrow> 0 | Some n \<Rightarrow> n),
      ei_completion_tokens = (case rq_completion_tokens row of None \<Rightarrow> 0 | Some n \<Rightarrow> n),
      ei_cost = (case rq_cost row of None \<Rightarrow> 0 | Some n \<Rightarrow> n), ei_max_provider_latency = 0, ei_max_total_latency = 0,
      ei_max_tokens = 0, ei_max_cost = 0, ei_blocked_terms = []\<rparr>"

definition load_evaluation_input :: "fault \<Rightarrow> string \<Rightarrow> string \<Rightarrow> db \<Rightarrow> go_error + eval_input \<times> evaluation_job" where
  "load_evaluation_input f tenant i d =
     (case get_evaluation f 0 tenant i d of
        Inl e \<Rightarrow> Inl e
      | Inr job \<Rightarrow>
          (case (broken f 1, find (\<lambda>r. rq_tenant r = tenant \<and> rq_id r = jb_request job \<and> rq_status r = Completed) (db_requests d)) of
             (Some e, _) \<Rightarrow> Inl (ErrWrap ''load evaluation source'' e)
           | (None, None) \<Rightarrow> Inl (ErrWrap ''load evaluation source'' (ErrMsg ''no rows in result set''))
           | (None, Some row) \<Rightarrow>
               (case rq_completed_at row of
                  None \<Rightarrow> Inl (ErrWrap ''load evaluation source'' (ErrMsg ''cannot scan NULL into int64''))
                | Some t \<Rightarrow>
                    (case stored_content (rq_response row) of
                       None \<Rightarrow> Inl (ErrMsg ''stored response is malformed'')
                     | Some content \<Rightarrow>
                         Inr (apply_parameters (jb_parameters job)
                                (source_input content (epoch_milliseconds (t - rq_created_at row)) row d), job)))))"

definition load_input :: "fault \<Rightarrow> string \<Rightarrow> string \<Rightarrow> db \<Rightarrow> go_error + eval_input" where
  "load_input f tenant i d = map_sum id fst (load_evaluation_input f tenant i d)"

subsection \<open>Results and failures\<close>

definition total_score :: "eval_result list \<Rightarrow> int" where
  "total_score results =
     (let score = foldl (\<lambda>s r. i64 (s + er_score r)) 0 results
      in if results = [] then score else go_quo score (int (length results)))"

definition total_duration :: "eval_result list \<Rightarrow> int" where
  "total_duration results = foldl (\<lambda>s r. i64 (s + duration_milliseconds (er_duration r))) 0 results"

definition total_status :: "eval_result list \<Rightarrow> string" where
  "total_status results = (if \<exists>r \<in> set results. er_status r = ''fail'' then ''fail'' else ''pass'')"

definition new_result_row :: "string \<Rightarrow> string \<Rightarrow> string \<Rightarrow> eval_result list \<Rightarrow> json \<Rightarrow> result_row" where
  "new_result_row tenant i execution results encoded =
     \<lparr>rr_job = i, rr_tenant = tenant, rr_execution = execution, rr_version = ''suite-1.0.0'',
      rr_score = total_score results, rr_outcome = total_status results, rr_duration = total_duration results,
      rr_payload = encoded\<rparr>"

text \<open>\<open>INSERT ... ON CONFLICT (evaluation_job_id) DO NOTHING\<close>.\<close>

definition insert_result :: "result_row \<Rightarrow> db \<Rightarrow> go_error + db" where
  "insert_result row d =
     (if rr_job row \<in> rr_job ` set (db_results d) then Inr d
      else map_sum id (\<lambda>rows. d\<lparr>db_results := rows\<rparr>)
        (insert_row
           [(0 \<le> rr_score row \<and> rr_score row \<le> 1000, ''evaluation_results_score_milli_check''),
            (0 \<le> rr_duration row, ''evaluation_results_duration_ms_check''),
            (rr_execution row \<notin> rr_execution ` set (db_results d), ''evaluation_results_execution_id_key''),
            (rr_job row \<in> ej_id ` set (db_jobs d), ''evaluation_results_evaluation_job_id_fkey''),
            (rr_tenant row \<in> tn_id ` set (db_tenants d), ''evaluation_results_tenant_id_fkey'')]
           (db_results d) row))"

definition completed_job :: "go_time \<Rightarrow> job_row \<Rightarrow> job_row" where
  "completed_job now j = j\<lparr>ej_status := EvalCompleted, ej_completed_at := Some now, ej_last_error := None\<rparr>"

definition evaluation_payload :: "string \<Rightarrow> eval_result list \<Rightarrow> json" where
  "evaluation_payload i results =
     JObject [(''evaluation_id'', JString i), (''status'', JString (total_status results)),
       (''score_milli'', JInt (total_score results))]"

definition any_status :: "eval_status list" where
  "any_status = [Pending, Queued, Running, EvalCompleted, EvalFailed, DeadLettered]"

definition complete_evaluation ::
  "(eval_result list \<Rightarrow> go_error + json) \<Rightarrow> pg_env \<Rightarrow> string \<Rightarrow> string \<Rightarrow> string \<Rightarrow> eval_result list \<Rightarrow> db \<Rightarrow> go_error option \<times> db" where
  "complete_evaluation encode env tenant i execution results d = as_error (
     case encode results of
       Inl e \<Rightarrow> (Inl (ErrWrap ''marshal evaluation results'' e), d)
     | Inr encoded \<Rightarrow>
         stmt (pe_fault env) 0 (\<lambda>e. e) d (Inr ()) (\<lambda>_.
         stmt (pe_fault env) 1 (ErrWrap ''persist evaluation result'') d
           (insert_result (new_result_row tenant i execution results encoded) d) (\<lambda>d1.
         stmt (pe_fault env) 2 (ErrWrap ''complete evaluation job'') d
           (Inr (update_job tenant i any_status (completed_job (pe_now env)) d1)) (\<lambda>d2.
         stmt (pe_fault env) 3 (ErrWrap ''insert outbox event'') d
           (insert_outbox (pe_ids env 0) (pe_now env) evaluation_complete i tenant i (evaluation_payload i results) d2)
           (commit (pe_fault env) 4 (\<lambda>e. e) d ())))))"

definition failed_job :: "go_time \<Rightarrow> string \<Rightarrow> bool \<Rightarrow> job_row \<Rightarrow> job_row" where
  "failed_job now category permanent j =
     j\<lparr>ej_status := (if permanent then DeadLettered else EvalFailed), ej_last_error := Some category,
       ej_completed_at := (if permanent then Some now else ej_completed_at j)\<rparr>"

definition failure_payload :: "string \<Rightarrow> string \<Rightarrow> json" where
  "failure_payload i category = JObject [(''evaluation_id'', JString i), (''error_category'', JString category)]"

definition fail_evaluation :: "pg_env \<Rightarrow> string \<Rightarrow> string \<Rightarrow> string \<Rightarrow> bool \<Rightarrow> db \<Rightarrow> go_error option \<times> db" where
  "fail_evaluation env tenant i category permanent d = as_error (
     stmt (pe_fault env) 0 (\<lambda>e. e) d (Inr ()) (\<lambda>_.
     stmt (pe_fault env) 1 (\<lambda>e. e) d
       (case find (\<lambda>j. ej_tenant j = tenant \<and> ej_id j = i) (db_jobs d) of
          None \<Rightarrow> Inl (ErrMsg ''no rows in result set'')
        | Some j \<Rightarrow> Inr (ej_correlation j, update_job tenant i any_status (failed_job (pe_now env) category permanent) d)) (\<lambda>(correlation, d1).
     if permanent
     then stmt (pe_fault env) 2 (ErrWrap ''insert outbox event'') d
       (insert_outbox (pe_ids env 0) (pe_now env) evaluation_failed i tenant correlation (failure_payload i category) d1)
       (commit (pe_fault env) 3 (\<lambda>e. e) d ())
     else commit (pe_fault env) 3 (\<lambda>e. e) d () d1)))"

subsection \<open>What evaluation leaves alone\<close>

lemma evaluation_types: "evaluation_complete \<notin> {request_completed, usage_recorded}" "evaluation_failed \<notin> {request_completed, usage_recorded}"
  by (simp_all add: event_types)

context db_frame
begin

lemma update_job_same: "R d (update_job tenant i from change d)"
  by (rule frame_same) (simp_all add: update_job_def)

lemma insert_result_same: "insert_result row d = Inr d' \<Longrightarrow> R d d'"
  by (auto simp: insert_result_def split: if_splits intro!: frame_same)

lemma insert_job_same: "insert_job row d = Inr (x, d') \<Longrightarrow> R d d'"
  by (auto simp: insert_job_def split: if_splits intro!: frame_same)

lemma mark_queued_same: "R d (snd (mark_queued f t i d))"
  unfolding mark_queued_def as_error_snd by (intro commit_safe update_job_same)

lemma mark_running_same: "R d (snd (mark_running f now t i d))"
  unfolding mark_running_def as_error_snd by (intro commit_safe update_job_same)

lemma complete_evaluation_same: "R d (snd (complete_evaluation encode env t i x rs d))"
proof (cases "encode rs")
  case (Inr encoded)
  show ?thesis
    unfolding complete_evaluation_def as_error_snd Inr sum.case
  proof (rule stmt_safe, rule stmt_safe, rule stmt_safe)
    fix u :: unit and d1 d2
    assume "insert_result (new_result_row t i x rs encoded) d = Inr d1"
      and "Inr (update_job t i any_status (completed_job (pe_now env)) d1) = Inr d2"
    then have "R d d2" using insert_result_same update_job_same frame_trans by blast
    then show "R d (snd (stmt (pe_fault env) 3 (ErrWrap ''insert outbox event'') d
        (insert_outbox (pe_ids env 0) (pe_now env) evaluation_complete i t i (evaluation_payload i rs) d2)
        (commit (pe_fault env) 4 (\<lambda>e. e) d ())))"
      by (intro stmt_outbox_safe [OF evaluation_types(1)] commit_safe)
  qed
qed (simp add: complete_evaluation_def)

lemma fail_evaluation_same: "R d (snd (fail_evaluation env t i c p d))"
proof -
  have finish: "R d (snd (if p then stmt (pe_fault env) 2 (ErrWrap ''insert outbox event'') d
       (insert_outbox (pe_ids env 0) (pe_now env) evaluation_failed i t correlation (failure_payload i c) d1)
       (commit (pe_fault env) 3 (\<lambda>e. e) d ())
     else commit (pe_fault env) 3 (\<lambda>e. e) d () d1))" if "R d d1" for correlation d1
    using that by (intro if_safe stmt_outbox_safe [OF evaluation_types(2)] commit_safe)
  show ?thesis
    unfolding fail_evaluation_def as_error_snd
    by (intro stmt_safe) (auto split: option.splits intro!: finish update_job_same)
qed

end

end
