(* ===== verification/Event_Pipeline.thy ===== *)
theory Event_Pipeline
  imports Postgres_Completion Evaluation_Store Event_Projection Outbox
begin

text \<open>
  From a completed request to the usage ledger: the transactions of the store write their events into the
  outbox, relays publish them to Kafka, consumers project them into the ledger. Every part may fail or repeat
  its work at any point; a request is still charged at most once, and exactly what its record says.
\<close>

subsection \<open>The events of the database\<close>

definition events :: "db \<Rightarrow> envelope list" where
  "events d = map row_event (db_outbox d)"

definition usage_events :: "db \<Rightarrow> envelope list" where
  "usage_events d = filter (\<lambda>ev. ev_type ev = usage_recorded) (events d)"

text \<open>The event says what the row of the request says.\<close>

definition records :: "envelope \<Rightarrow> request_row \<Rightarrow> bool" where
  "records ev row \<longleftrightarrow>
     ev_aggregate ev = rq_id row \<and> ev_tenant ev = rq_tenant row \<and> rq_status row = Completed
     \<and> (\<exists>payload u. ev_payload ev = Some payload \<and> decode_usage payload = Inr u \<and> ue_request u = rq_id row
          \<and> rq_cost row = Some (ue_cost u) \<and> rq_prompt_tokens row = Some (ue_prompt_tokens u)
          \<and> rq_completion_tokens row = Some (ue_completion_tokens u))"

text \<open>
  Every completed request has exactly one usage event, which records it, and there are no other usage events.
\<close>

definition usage_ok :: "db \<Rightarrow> bool" where
  "usage_ok d \<longleftrightarrow>
     request_keys d \<and> distinct (map ev_id (events d))
     \<and> distinct (map ev_aggregate (usage_events d))
     \<and> (\<forall>ev \<in> set (usage_events d). \<exists>row \<in> set (db_requests d). records ev row)
     \<and> (\<forall>row \<in> set (db_requests d). rq_status row = Completed \<longrightarrow> (\<exists>ev \<in> set (usage_events d). records ev row))"

definition new_rows :: "db \<Rightarrow> db \<Rightarrow> bool" where
  "new_rows d d' \<longleftrightarrow>
     (\<exists>new. db_outbox d' = db_outbox d @ new \<and> (\<forall>row \<in> set new. ob_published_at row = None))
     \<and> db_ledger d' = db_ledger d \<and> db_processed d' = db_processed d"

definition usage_change :: "db \<Rightarrow> db \<Rightarrow> bool" where
  "usage_change d d' \<longleftrightarrow> (usage_ok d \<longrightarrow> usage_ok d' \<and> new_rows d d')"

lemma new_rows_same:
  "db_outbox d' = db_outbox d \<Longrightarrow> db_ledger d' = db_ledger d \<Longrightarrow> db_processed d' = db_processed d \<Longrightarrow> new_rows d d'"
  by (simp add: new_rows_def)

lemma new_rows_trans: "new_rows a b \<Longrightarrow> new_rows b c \<Longrightarrow> new_rows a c"
  by (auto simp: new_rows_def)

lemma usage_change_refl: "usage_change d d"
  by (simp add: usage_change_def new_rows_same)

lemma usage_change_trans: "usage_change a b \<Longrightarrow> usage_change b c \<Longrightarrow> usage_change a c"
  using new_rows_trans by (auto simp: usage_change_def)

lemma usage_change_same:
  "db_requests d' = db_requests d \<Longrightarrow> db_outbox d' = db_outbox d \<Longrightarrow> db_ledger d' = db_ledger d \<Longrightarrow>
     db_processed d' = db_processed d \<Longrightarrow> usage_change d d'"
  by (simp add: usage_change_def usage_ok_def usage_events_def events_def request_keys_def new_rows_same)

lemma insert_outbox_events:
  assumes "insert_outbox uuid now type aggregate tenant correlation payload d = Inr d'"
  obtains ev where "events d' = events d @ [ev]" "ev_type ev = type" "ev_id ev \<notin> ev_id ` set (events d)"
    "ev_aggregate ev = aggregate" "ev_tenant ev = tenant" "ev_payload ev = Some payload"
    "db_requests d' = db_requests d" "new_rows d d'"
  using assms by (auto simp: insert_outbox_def new_outbox_row_def insert_row_Inr events_def row_event_def image_iff new_rows_def)

lemma usage_change_outbox:
  assumes "insert_outbox uuid now type aggregate tenant correlation payload d = Inr d'" "type \<noteq> usage_recorded"
  shows "usage_change d d'"
proof -
  obtain ev where ev: "events d' = events d @ [ev]" "ev_type ev = type" "ev_id ev \<notin> ev_id ` set (events d)"
    "db_requests d' = db_requests d" "new_rows d d'"
    using insert_outbox_events [OF assms(1)] by metis
  then have "usage_events d' = usage_events d" using assms(2) by (simp add: usage_events_def)
  with ev show ?thesis by (auto simp: usage_change_def usage_ok_def request_keys_def)
qed

lemma usage_change_update:
  assumes step: "\<And>row. row \<in> set (db_requests d) \<Longrightarrow> row_step row (g row) \<and> (g row = row \<or> rq_status (g row) \<noteq> Completed)"
  shows "usage_change d (d\<lparr>db_requests := map g (db_requests d)\<rparr>)"
proof -
  let ?d = "d\<lparr>db_requests := map g (db_requests d)\<rparr>"
  have same: "g row = row" if "row \<in> set (db_requests d)" "rq_status row = Completed" for row
    using step [OF that(1)] that(2) by (auto simp: row_step_def terminal_def)
  have ev: "events ?d = events d" "usage_events ?d = usage_events d" by (simp_all add: events_def usage_events_def)
  have keys: "request_keys ?d" if "request_keys d"
    using safe_change_update [of d g] step that by (simp add: safe_change_def)
  have unchanged: "g row = row" if "row \<in> set (db_requests d)" "rq_status (g row) = Completed" for row
    using step [OF that(1)] that(2) by auto
  have "usage_ok ?d" if ok: "usage_ok d"
    unfolding usage_ok_def ev
  proof (intro conjI ballI impI)
    fix e assume "e \<in> set (usage_events d)"
    then obtain row where "row \<in> set (db_requests d)" "records e row" using ok by (auto simp: usage_ok_def)
    with same show "\<exists>row \<in> set (db_requests ?d). records e row" by (force simp: records_def)
  next
    fix row' assume "row' \<in> set (db_requests ?d)" "rq_status row' = Completed"
    then obtain row where "row \<in> set (db_requests d)" "row' = row" "rq_status row = Completed" using unchanged by auto
    with ok show "\<exists>e \<in> set (usage_events d). records e row'" by (auto simp: usage_ok_def)
  qed (use ok keys in \<open>simp_all add: usage_ok_def\<close>)
  then show ?thesis by (simp add: usage_change_def new_rows_same)
qed

lemma usage_change_insert:
  assumes "rq_id row \<notin> rq_id ` set (db_requests d)" "rq_status row \<noteq> Completed"
    and "\<forall>r \<in> set (db_requests d). \<not> (rq_tenant r = rq_tenant row \<and> rq_idempotency_key r = rq_idempotency_key row)"
  shows "usage_change d (d\<lparr>db_requests := db_requests d @ [row]\<rparr>)"
  using safe_change_insert [OF assms(1,3)] assms(2)
  by (auto simp: usage_change_def usage_ok_def usage_events_def events_def safe_change_def new_rows_same)

interpretation usage: db_frame usage_change
  by unfold_locales (auto intro: usage_change_refl usage_change_trans usage_change_same usage_change_update
      usage_change_insert usage_change_outbox)

text \<open>Completing a request adds its usage event. The values are \<open>int64\<close> in the code.\<close>

definition int64_params :: "completion_params \<Rightarrow> bool" where
  "int64_params params \<longleftrightarrow>
     in_i64 (prompt_tokens (cr_usage (cmp_response params))) \<and> in_i64 (completion_tokens (cr_usage (cmp_response params)))
     \<and> in_i64 (cmp_cost params)"

lemma completion_event_records:
  assumes "int64_params params" "in_progress params row"
  shows "records (row_event (completion_event env n usage_recorded params)) (completed_row env body params row)"
  using assms
  by (simp add: records_def completion_event_def new_outbox_row_def row_event_def completed_row_def in_progress_def
      completed_payload_def decode_usage_object int64_params_def)

lemma completed_usage_ok:
  assumes ok: "usage_ok d" and one: "affected (in_progress params) (db_requests d) = 1"
    and fresh: "fresh_events env d" and i64: "int64_params params"
  shows "usage_ok (completed_db env body params attempts d)"
proof -
  let ?d = "completed_db env body params attempts d"
  let ?g = "\<lambda>row. if in_progress params row then completed_row env body params row else row"
  let ?ev = "row_event (completion_event env 1 usage_recorded params)"
  obtain row0 where row0: "row0 \<in> set (db_requests d)" "in_progress params row0"
    using one affected_nonzero by (metis one_neq_zero)
  have requests: "db_requests ?d = map ?g (db_requests d)" by (simp add: completed_db_def update_rows_def)
  have keys: "request_keys ?d"
    using safe_change_update [of d ?g] ok
    by (auto simp: requests usage_ok_def safe_change_def request_keys_def row_step_def completed_row_def in_progress_def terminal_def)
  have events: "events ?d = events d @ [row_event (completion_event env 0 request_completed params), ?ev]"
    by (simp add: events_def completed_db_def)
  then have usage: "usage_events ?d = usage_events d @ [?ev]"
    by (simp add: usage_events_def completion_event_def new_outbox_row_def row_event_def event_types)
  have ids: "distinct (map ev_id (events ?d))"
    using ok fresh unfolding events
    by (auto simp: usage_ok_def fresh_events_def completion_event_def new_outbox_row_def row_event_def events_def)
  have old: "\<exists>row \<in> set (db_requests d). records ev row \<and> \<not> in_progress params row" if "ev \<in> set (usage_events d)" for ev
    using ok that by (fastforce simp: usage_ok_def records_def in_progress_def)
  have new: "ev_aggregate ev \<noteq> ev_aggregate ?ev" if ev: "ev \<in> set (usage_events d)" for ev
  proof
    assume "ev_aggregate ev = ev_aggregate ?ev"
    then have "ev_aggregate ev = rq_id row0"
      using row0(2) by (simp add: completion_event_def new_outbox_row_def row_event_def in_progress_def)
    moreover obtain row where "row \<in> set (db_requests d)" "records ev row" "\<not> in_progress params row" using old [OF ev] by blast
    moreover have "inj_on rq_id (set (db_requests d))" using ok by (simp add: usage_ok_def request_keys_def distinct_map)
    ultimately show False using row0 by (metis inj_onD records_def)
  qed
  have rec0: "records ?ev (?g row0)" using completion_event_records [OF i64 row0(2)] row0(2) by simp
  have aggregates: "distinct (map ev_aggregate (usage_events d @ [?ev]))" using ok new by (fastforce simp: usage_ok_def)
  show ?thesis
    unfolding usage_ok_def usage requests
  proof (intro conjI ballI impI)
    fix ev
    assume "ev \<in> set (usage_events d @ [?ev])"
    then have "\<exists>row \<in> set (db_requests d). records ev (?g row)"
    proof (cases "ev = ?ev")
      case False
      then have "ev \<in> set (usage_events d)" using \<open>ev \<in> _\<close> by simp
      from old [OF this] show ?thesis by (elim bexE conjE) (rule bexI, simp_all)
    qed (use rec0 row0(1) in blast)
    then show "\<exists>row \<in> set (map ?g (db_requests d)). records ev row" by (simp only: set_map bex_simps)
  next
    fix row
    assume "row \<in> set (map ?g (db_requests d))" "rq_status row = Completed"
    then obtain r where r: "r \<in> set (db_requests d)" "row = ?g r" "rq_status row = Completed" by auto
    show "\<exists>ev \<in> set (usage_events d @ [?ev]). records ev row"
    proof (cases "in_progress params r")
      case True
      then have "records ?ev row" using r completion_event_records [OF i64 True] by simp
      then show ?thesis by simp
    next
      case False
      with ok r show ?thesis by (auto simp: usage_ok_def)
    qed
  qed (use keys ids aggregates in blast)+
qed

lemma complete_usage_change:
  assumes "int64_params params"
  shows "usage_change d (snd (pg_complete_request cd env params d))"
proof -
  obtain e d' where run: "pg_complete_request cd env params d = (e, d')" by fastforce
  then show ?thesis
  proof (cases rule: complete_effect)
    case (2 body attempts)
    have "new_rows d (completed_db env body params attempts d)"
      by (simp add: new_rows_def completed_db_def completion_event_def new_outbox_row_def)
    with 2 run assms completed_usage_ok show ?thesis by (simp add: usage_change_def)
  qed (simp add: run usage_change_refl)
qed

subsection \<open>The pipeline\<close>

text \<open>
  Where a relay is in its batch: waiting, about to publish the next of its rows, or about to mark the row it
  published, with the error of the publication.
\<close>

datatype relay_pc = Waiting | Sending "outbox_row list" | Marking outbox_row "go_error option" "outbox_row list"

record pipeline =
  pl_db :: db
  pl_topic :: "kafka_msg list"
  pl_relays :: "nat \<Rightarrow> relay_pc"

text \<open>
  A transaction of the gateway or of the evaluation service. The gateway completes requests by \<open>CompleteRequest\<close>
  only, and what the state machine calls a transition never ends in \<open>COMPLETED\<close>.
\<close>

inductive store_step :: "codec \<Rightarrow> db \<Rightarrow> db \<Rightarrow> bool" for cd where
  create: "store_step cd d (snd (pg_create_or_get_request cd env cparams d))"
| transition: "b \<noteq> Completed \<Longrightarrow> store_step cd d (snd (pg_transition_request env t i a b d))"
| start: "store_step cd d (snd (pg_start_attempt env aparams d))"
| complete: "int64_params params \<Longrightarrow> store_step cd d (snd (pg_complete_request cd env params d))"
| fail: "store_step cd d (snd (pg_fail_attempt env fparams d))"
| cancel: "store_step cd d (snd (pg_cancel_request env t i d))"
| reserve: "store_step cd d (snd (pg_reserve_budget env t i n now d))"
| reject: "store_step cd d (snd (pg_reject_budget env t i c n d))"
| reconcile: "store_step cd d (snd (pg_reconcile_budget env i n d))"
| evaluated: "store_step cd d (snd (complete_evaluation encode env t i x rs d))"
| not_evaluated: "store_step cd d (snd (fail_evaluation env t i c p d))"
| queued: "store_step cd d (snd (mark_queued f t i d))"
| running: "store_step cd d (snd (mark_running f now t i d))"
| submitted: "insert_job row d = Inr (x, d') \<Longrightarrow> store_step cd d d'"

lemma store_step_usage: "store_step cd d d' \<Longrightarrow> usage_change d d'"
  by (induction rule: store_step.induct)
    (simp_all add: usage.create_safe usage.transition_safe usage.start_attempt_safe complete_usage_change
      usage.fail_attempt_safe usage.cancel_safe usage.reserve_safe usage.reject_safe usage.reconcile_safe
      usage.complete_evaluation_same usage.fail_evaluation_same usage.mark_queued_same usage.mark_running_same usage.insert_job_same)

text \<open>
  One step of the pipeline. Each call of a relay and each event of a consumer is one step; a relay can stop at
  any point and start again, and a consumer may process any message of the topic again and again. \<open>worker\<close>
  names the relays, \<open>marshal\<close> and \<open>decode\<close> encode events.
\<close>

inductive pipeline_step ::
  "codec \<Rightarrow> (envelope \<Rightarrow> go_error + string) \<Rightarrow> (string \<Rightarrow> go_error + envelope) \<Rightarrow> (nat \<Rightarrow> string) \<Rightarrow> pipeline \<Rightarrow> pipeline \<Rightarrow> bool"
  for cd marshal decode worker where
  store: "store_step cd (pl_db s) d \<Longrightarrow> pipeline_step cd marshal decode worker s (s\<lparr>pl_db := d\<rparr>)"
| claim: "pl_relays s g = Waiting \<Longrightarrow> claim_rows f now locked (worker g) limit ttl (pl_db s) = (res, d) \<Longrightarrow>
     pipeline_step cd marshal decode worker s
       (s\<lparr>pl_db := d, pl_relays := (pl_relays s)(g := (case res of Inl e \<Rightarrow> Waiting | Inr rows \<Rightarrow> Sending rows))\<rparr>)"
| publish: "pl_relays s g = Sending (row # rows) \<Longrightarrow> turn_ok t \<Longrightarrow> publish_row marshal t row (pl_topic s) = (e, topic) \<Longrightarrow>
     pipeline_step cd marshal decode worker s (s\<lparr>pl_topic := topic, pl_relays := (pl_relays s)(g := Marking row e rows)\<rparr>)"
| published: "pl_relays s g = Marking row None rows \<Longrightarrow> mark_published f now (ob_id row) (worker g) (pl_db s) = (e, d) \<Longrightarrow>
     pipeline_step cd marshal decode worker s
       (s\<lparr>pl_db := d, pl_relays := (pl_relays s)(g := (if e = None then Sending rows else Waiting))\<rparr>)"
| failed: "pl_relays s g = Marking row (Some e) rows \<Longrightarrow>
     mark_failed f now (ob_id row) (worker g) category delay (pl_db s) = (e', d) \<Longrightarrow>
     pipeline_step cd marshal decode worker s (s\<lparr>pl_db := d, pl_relays := (pl_relays s)(g := Sending rows)\<rparr>)"
| stop: "pipeline_step cd marshal decode worker s (s\<lparr>pl_relays := (pl_relays s)(g := Waiting)\<rparr>)"
| consume: "m \<in> set (pl_topic s) \<Longrightarrow> decode (km_value m) = Inr ev \<Longrightarrow> process_kafka_event f consumer ev (pl_db s) = (res, d) \<Longrightarrow>
     pipeline_step cd marshal decode worker s (s\<lparr>pl_db := d\<rparr>)"

subsection \<open>The invariant\<close>

text \<open>The ledger row of a usage event.\<close>

definition charges :: "envelope \<Rightarrow> ledger_row \<Rightarrow> bool" where
  "charges ev l \<longleftrightarrow>
     (\<exists>payload u. ev_payload ev = Some payload \<and> decode_usage payload = Inr u \<and> l = new_ledger_row ev u)"

definition in_topic :: "(envelope \<Rightarrow> go_error + string) \<Rightarrow> kafka_msg list \<Rightarrow> envelope \<Rightarrow> bool" where
  "in_topic marshal topic ev \<longleftrightarrow> (\<exists>encoded. marshal ev = Inr encoded \<and> kafka_message ev encoded \<in> set topic)"

definition ledger_ok :: "db \<Rightarrow> bool" where
  "ledger_ok d \<longleftrightarrow>
     distinct (map lg_event (db_ledger d)) \<and> (\<forall>l \<in> set (db_ledger d). \<exists>ev \<in> set (usage_events d). charges ev l)
     \<and> (\<forall>p \<in> set (db_processed d). \<exists>ev \<in> set (events d). ev_id ev = pk_event p
          \<and> (ev_type ev = usage_recorded \<longrightarrow> (\<exists>l \<in> set (db_ledger d). charges ev l)))"

text \<open>The rows that a relay still has to publish or to mark, and what it knows of the one it published.\<close>

fun held :: "relay_pc \<Rightarrow> outbox_row list" where
  "held Waiting = []"
| "held (Sending rows) = rows"
| "held (Marking row e rows) = row # rows"

fun acked :: "relay_pc \<Rightarrow> outbox_row list" where
  "acked (Marking row None rows) = [row]"
| "acked pc = []"

definition topic_ok :: "(envelope \<Rightarrow> go_error + string) \<Rightarrow> db \<Rightarrow> kafka_msg list \<Rightarrow> bool" where
  "topic_ok marshal d topic \<longleftrightarrow>
     (\<forall>m \<in> set topic. \<exists>ev \<in> set (events d). event_validate ev = None \<and> marshal ev = Inr (km_value m))
     \<and> (\<forall>row \<in> set (db_outbox d). ob_published_at row \<noteq> None \<longrightarrow> in_topic marshal topic (row_event row))"

definition relays_ok :: "(envelope \<Rightarrow> go_error + string) \<Rightarrow> db \<Rightarrow> kafka_msg list \<Rightarrow> (nat \<Rightarrow> relay_pc) \<Rightarrow> bool" where
  "relays_ok marshal d topic relays \<longleftrightarrow>
     (\<forall>g. \<forall>row \<in> set (held (relays g)). row_event row \<in> set (events d))
     \<and> (\<forall>g. \<forall>row \<in> set (acked (relays g)). in_topic marshal topic (row_event row))"

definition pipeline_ok :: "(envelope \<Rightarrow> go_error + string) \<Rightarrow> pipeline \<Rightarrow> bool" where
  "pipeline_ok marshal s \<longleftrightarrow>
     usage_ok (pl_db s) \<and> ledger_ok (pl_db s) \<and> topic_ok marshal (pl_db s) (pl_topic s)
     \<and> relays_ok marshal (pl_db s) (pl_topic s) (pl_relays s)"

text \<open>Transactions of the store.\<close>

lemma new_rows_events: "new_rows d d' \<Longrightarrow> set (events d) \<subseteq> set (events d') \<and> set (usage_events d) \<subseteq> set (usage_events d')"
  by (auto simp: new_rows_def events_def usage_events_def)

lemma store_step_ok:
  assumes "store_step cd (pl_db s) d" "pipeline_ok marshal s"
  shows "pipeline_ok marshal (s\<lparr>pl_db := d\<rparr>)"
proof -
  from store_step_usage [OF assms(1)] assms(2) have ok: "usage_ok d" and new: "new_rows (pl_db s) d"
    by (auto simp: usage_change_def pipeline_ok_def)
  have ledger: "ledger_ok d"
    using assms(2) new new_rows_events [OF new] unfolding pipeline_ok_def ledger_ok_def
    by (auto simp: new_rows_def) (meson subsetD)+
  have topic: "topic_ok marshal d (pl_topic s)"
    using assms(2) new new_rows_events [OF new] unfolding pipeline_ok_def topic_ok_def
    by (auto simp: new_rows_def) (meson subsetD)+
  have "relays_ok marshal d (pl_topic s) (pl_relays s)"
    using assms(2) new_rows_events [OF new] unfolding pipeline_ok_def relays_ok_def by blast
  with ok ledger topic show ?thesis by (simp add: pipeline_ok_def)
qed

text \<open>Book-keeping of relays: the events stay as they are.\<close>

lemma marks_events:
  assumes "\<forall>row. row_event (h row) = row_event row"
  shows "events (d\<lparr>db_outbox := map h (db_outbox d)\<rparr>) = events d"
  using assms by (simp add: events_def)

lemma marks_ok:
  assumes "pipeline_ok marshal s" "\<forall>row. row_event (h row) = row_event row"
    and "\<forall>row \<in> set (db_outbox (pl_db s)). ob_published_at (h row) \<noteq> None \<longrightarrow>
      ob_published_at row \<noteq> None \<or> in_topic marshal (pl_topic s) (row_event row)"
  shows "pipeline_ok marshal (s\<lparr>pl_db := (pl_db s)\<lparr>db_outbox := map h (db_outbox (pl_db s))\<rparr>\<rparr>)"
proof -
  note same = marks_events [OF assms(2), of "pl_db s"]
  have usage: "usage_events ((pl_db s)\<lparr>db_outbox := map h (db_outbox (pl_db s))\<rparr>) = usage_events (pl_db s)"
    by (simp add: usage_events_def same)
  have "topic_ok marshal ((pl_db s)\<lparr>db_outbox := map h (db_outbox (pl_db s))\<rparr>) (pl_topic s)"
    using assms unfolding pipeline_ok_def topic_ok_def same by auto
  with assms(1) show ?thesis
    by (simp add: pipeline_ok_def usage_ok_def ledger_ok_def relays_ok_def same usage request_keys_def)
qed

lemma relay_moves:
  assumes "pipeline_ok marshal s"
    and "\<forall>row \<in> set (held pc). row_event row \<in> set (events (pl_db s))"
    and "\<forall>row \<in> set (acked pc). in_topic marshal (pl_topic s) (row_event row)"
  shows "pipeline_ok marshal (s\<lparr>pl_relays := (pl_relays s)(g := pc)\<rparr>)"
  using assms by (simp add: pipeline_ok_def relays_ok_def)

lemma claimed_event: "row_event (claimed now worker row) = row_event row"
  by (simp add: row_event_def claimed_def)

lemma candidates_subset: "set (candidates now ttl locked limit rows) \<subseteq> set rows"
  by (auto simp: candidates_def dest: in_set_takeD)

lemma claim_ok:
  assumes "claim_rows f now locked w limit ttl (pl_db s) = (res, d)" "pipeline_ok marshal s"
  shows "pipeline_ok marshal (s\<lparr>pl_db := d, pl_relays := (pl_relays s)(g := (case res of Inl e \<Rightarrow> Waiting | Inr rows \<Rightarrow> Sending rows))\<rparr>)"
proof -
  let ?taken = "candidates now ttl locked limit (db_outbox (pl_db s))"
  let ?h = "\<lambda>row. if ob_id row \<in> ob_id ` set ?taken then claimed now w row else row"
  have d: "d = pl_db s \<or> d = (pl_db s)\<lparr>db_outbox := map ?h (db_outbox (pl_db s))\<rparr>" and res: "\<forall>rows. res = Inr rows \<longrightarrow> rows = ?taken"
    using assms(1) by (auto simp: claim_rows_def Let_def update_rows_def elim!: commit_cases)
  have db: "pipeline_ok marshal (s\<lparr>pl_db := (pl_db s)\<lparr>db_outbox := map ?h (db_outbox (pl_db s))\<rparr>\<rparr>)"
    by (rule marks_ok [OF assms(2)]) (auto simp: row_event_def claimed_def)
  then have "pipeline_ok marshal (s\<lparr>pl_db := d\<rparr>)" using d assms(2) by (elim disjE) simp_all
  moreover have "events d = events (pl_db s)"
    using d marks_events [of ?h "pl_db s"] by (auto simp: claimed_event)
  moreover have "\<forall>row \<in> set ?taken. row_event row \<in> set (events (pl_db s))"
    using candidates_subset by (force simp: events_def)
  ultimately show ?thesis
    using res relay_moves [of marshal "s\<lparr>pl_db := d\<rparr>" "case res of Inl e \<Rightarrow> Waiting | Inr rows \<Rightarrow> Sending rows" g]
    by (auto split: sum.splits)
qed

lemma update_claimed_ok:
  assumes "pipeline_ok marshal s" "\<forall>row. row_event (change row) = row_event row"
    and "\<forall>row \<in> set (db_outbox (pl_db s)). ob_id row = event \<longrightarrow> ob_published_at (change row) \<noteq> None \<longrightarrow>
      ob_published_at row \<noteq> None \<or> in_topic marshal (pl_topic s) (row_event row)"
  shows "pipeline_ok marshal (s\<lparr>pl_db := update_claimed event w change (pl_db s)\<rparr>)
    \<and> events (update_claimed event w change (pl_db s)) = events (pl_db s)"
proof -
  let ?h = "\<lambda>row. if ob_id row = event \<and> ob_claimed_by row = Some w \<and> ob_published_at row = None then change row else row"
  have d: "update_claimed event w change (pl_db s) = (pl_db s)\<lparr>db_outbox := map ?h (db_outbox (pl_db s))\<rparr>"
    by (simp add: update_claimed_def update_rows_def)
  have h: "\<forall>row. row_event (?h row) = row_event row" using assms(2) by simp
  have "pipeline_ok marshal (s\<lparr>pl_db := (pl_db s)\<lparr>db_outbox := map ?h (db_outbox (pl_db s))\<rparr>\<rparr>)"
    by (rule marks_ok [OF assms(1) h]) (use assms(3) in auto)
  with marks_events [OF h, of "pl_db s"] show ?thesis unfolding d by blast
qed

lemma as_exec_commit:
  assumes "as_exec (commit f k wrap d () d1) = (e, d')"
  shows "d' = d \<or> d' = d1"
  using assms by (auto simp: as_exec_def split: prod.splits sum.splits elim!: commit_cases)

lemma mark_published_ok:
  assumes "mark_published f now (ob_id row) w (pl_db s) = (e, d)" "pipeline_ok marshal s" "pl_relays s g = Marking row None rows"
  shows "pipeline_ok marshal (s\<lparr>pl_db := d\<rparr>) \<and> events d = events (pl_db s)"
proof -
  have row: "row_event row \<in> set (events (pl_db s))" "in_topic marshal (pl_topic s) (row_event row)"
    using assms(2,3) unfolding pipeline_ok_def relays_ok_def by (metis acked.simps(1) held.simps(3) list.set_intros(1))+
  have ids: "inj_on ev_id (set (events (pl_db s)))" using assms(2) by (simp add: pipeline_ok_def usage_ok_def distinct_map)
  have same: "in_topic marshal (pl_topic s) (row_event r)" if "r \<in> set (db_outbox (pl_db s))" "ob_id r = ob_id row" for r
  proof -
    have "row_event r \<in> set (events (pl_db s))" using that(1) by (simp add: events_def)
    moreover have "ev_id (row_event r) = ev_id (row_event row)" using that(2) by (simp add: row_event_def)
    ultimately have "row_event r = row_event row" using ids row(1) by (simp add: inj_on_def)
    with row(2) show ?thesis by simp
  qed
  from as_exec_commit [OF assms(1) [unfolded mark_published_def]] show ?thesis
    using assms(2) update_claimed_ok [OF assms(2), of
        "\<lambda>row. row\<lparr>ob_published_at := Some now, ob_claimed_at := None, ob_claimed_by := None, ob_last_error := None\<rparr>" "ob_id row" w] same
    by (elim disjE) (simp_all add: row_event_def)
qed

lemma mark_failed_ok:
  assumes "mark_failed f now event w category delay (pl_db s) = (e, d)" "pipeline_ok marshal s"
  shows "pipeline_ok marshal (s\<lparr>pl_db := d\<rparr>) \<and> events d = events (pl_db s)"
  using as_exec_commit [OF assms(1) [unfolded mark_failed_def]] assms(2) update_claimed_ok [OF assms(2), of
        "\<lambda>row. row\<lparr>ob_claimed_at := None, ob_claimed_by := None, ob_last_error := Some category,
                 ob_available_at := now + interval_seconds delay * second\<rparr>" event w]
  by (elim disjE) (simp_all add: row_event_def)

text \<open>Publication.\<close>

lemma publish_row_effect:
  assumes "publish_row marshal t row topic = (e, topic')" "turn_ok t"
  shows "(topic' = topic \<or> (\<exists>encoded. event_validate (row_event row) = None \<and> marshal (row_event row) = Inr encoded
            \<and> topic' = topic @ [kafka_message (row_event row) encoded]))
    \<and> (e = None \<longrightarrow> in_topic marshal topic' (row_event row))"
  using assms
  by (auto simp: publish_row_def kafka_publish_def Let_def turn_ok_def in_topic_def split: option.splits sum.splits if_splits)

lemma topic_extends:
  assumes "pipeline_ok marshal s" "set (pl_topic s) \<subseteq> set topic"
    and "\<forall>m \<in> set topic - set (pl_topic s). \<exists>ev \<in> set (events (pl_db s)). event_validate ev = None \<and> marshal ev = Inr (km_value m)"
  shows "pipeline_ok marshal (s\<lparr>pl_topic := topic\<rparr>)"
proof -
  have mono: "in_topic marshal (pl_topic s) ev \<Longrightarrow> in_topic marshal topic ev" for ev using assms(2) by (auto simp: in_topic_def)
  have "topic_ok marshal (pl_db s) topic"
    using assms mono unfolding pipeline_ok_def topic_ok_def by (meson DiffI)
  moreover have "relays_ok marshal (pl_db s) topic (pl_relays s)"
    using assms(1) mono unfolding pipeline_ok_def relays_ok_def by blast
  ultimately show ?thesis using assms(1) by (simp add: pipeline_ok_def)
qed

lemma publish_ok:
  assumes "publish_row marshal t row (pl_topic s) = (e, topic)" "turn_ok t" "pl_relays s g = Sending (row # rows)" "pipeline_ok marshal s"
  shows "pipeline_ok marshal (s\<lparr>pl_topic := topic, pl_relays := (pl_relays s)(g := Marking row e rows)\<rparr>)"
proof -
  note effect = publish_row_effect [OF assms(1,2)]
  have rows: "\<forall>r \<in> set (row # rows). row_event r \<in> set (events (pl_db s))"
    using assms(3,4) unfolding pipeline_ok_def relays_ok_def by (metis held.simps(2))
  have "pipeline_ok marshal (s\<lparr>pl_topic := topic\<rparr>)"
    by (rule topic_extends [OF assms(4)]) (use effect rows in \<open>auto simp: kafka_message_def\<close>)
  from relay_moves [OF this, of "Marking row e rows" g] show ?thesis
    using rows effect by (cases e) simp_all
qed

text \<open>
  Consumption. What the code relies on: decoding an encoded valid event gives it back.
\<close>

definition codec_ok :: "(envelope \<Rightarrow> go_error + string) \<Rightarrow> (string \<Rightarrow> go_error + envelope) \<Rightarrow> bool" where
  "codec_ok marshal decode \<longleftrightarrow> (\<forall>ev encoded. event_validate ev = None \<longrightarrow> marshal ev = Inr encoded \<longrightarrow> decode encoded = Inr ev)"

lemma charges_fields: "charges ev l \<Longrightarrow> lg_event l = ev_id ev \<and> lg_tenant l = ev_tenant ev"
  by (auto simp: charges_def new_ledger_row_def)

lemma ledger_event:
  assumes "usage_ok d" "ledger_ok d" "l \<in> set (db_ledger d)" "ev \<in> set (events d)" "lg_event l = ev_id ev"
  shows "charges ev l"
proof -
  obtain ev' where ev': "ev' \<in> set (usage_events d)" "charges ev' l" using assms(2,3) by (auto simp: ledger_ok_def)
  then have "ev' \<in> set (events d)" "ev_id ev' = ev_id ev" using assms(5) charges_fields by (auto simp: usage_events_def)
  then have "ev' = ev" using assms(1,4) by (auto simp: usage_ok_def distinct_map inj_on_def)
  with ev'(2) show ?thesis by simp
qed

lemma ledger_ok_mark:
  assumes "ledger_ok d" "ev \<in> set (events d)" "ev_type ev = usage_recorded \<longrightarrow> (\<exists>l \<in> set (db_ledger d). charges ev l)"
  shows "ledger_ok (d\<lparr>db_processed := db_processed d @ [processed_mark consumer ev], db_audit := rows\<rparr>)"
  using assms by (auto simp: ledger_ok_def events_def usage_events_def processed_mark_def)

lemma ledger_ok_charge:
  assumes "ledger_ok d" "ev \<in> set (usage_events d)" "charges ev l" "\<forall>l' \<in> set (db_ledger d). lg_event l' \<noteq> lg_event l"
  shows "ledger_ok (d\<lparr>db_ledger := db_ledger d @ [l]\<rparr>)"
proof -
  have same: "events (d\<lparr>db_ledger := db_ledger d @ [l]\<rparr>) = events d" "usage_events (d\<lparr>db_ledger := db_ledger d @ [l]\<rparr>) = usage_events d"
    by (simp_all add: events_def usage_events_def)
  have "distinct (map lg_event (db_ledger d @ [l]))" using assms(1,4) by (auto simp: ledger_ok_def)
  moreover have "\<forall>l' \<in> set (db_ledger d @ [l]). \<exists>ev \<in> set (usage_events d). charges ev l'"
    using assms(1-3) unfolding ledger_ok_def by auto
  moreover have "\<forall>p \<in> set (db_processed d). \<exists>ev \<in> set (events d). ev_id ev = pk_event p
      \<and> (ev_type ev = usage_recorded \<longrightarrow> (\<exists>l' \<in> set (db_ledger d @ [l]). charges ev l'))"
    using assms(1) unfolding ledger_ok_def by (metis Un_iff set_append)
  ultimately show ?thesis by (simp only: ledger_ok_def same) simp
qed

lemma process_frame:
  assumes "process_kafka_event f consumer ev d = (res, d')"
  shows "db_requests d' = db_requests d \<and> db_outbox d' = db_outbox d"
  using assms
proof (cases rule: process_effect)
  case (3 rows payload u)
  from insert_ledger_effect [OF 3(4)] show ?thesis by (elim disjE conjE) simp_all
qed simp_all

lemma insert_ledger_ok:
  assumes "insert_ledger ev u (d\<lparr>db_processed := db_processed d @ [processed_mark consumer ev], db_audit := rows\<rparr>) = Inr d'"
    and "ev \<in> set (usage_events d)" "charges ev (new_ledger_row ev u)" "usage_ok d" "ledger_ok d"
  shows "ledger_ok d'"
proof -
  have ev: "ev \<in> set (events d)" using assms(2) by (simp add: usage_events_def)
  have old: "ledger_ok (d\<lparr>db_processed := db_processed d @ [processed_mark consumer ev], db_audit := rows\<rparr>)"
    if "\<exists>l \<in> set (db_ledger d). lg_tenant l = ev_tenant ev \<and> lg_event l = ev_id ev"
  proof -
    have "\<exists>l \<in> set (db_ledger d). charges ev l" using that ledger_event [OF assms(4,5) _ ev] by blast
    then show ?thesis by (intro ledger_ok_mark [OF assms(5) ev] impI)
  qed
  let ?d = "d\<lparr>db_ledger := db_ledger d @ [new_ledger_row ev u]\<rparr>"
  have new: "ledger_ok (?d\<lparr>db_processed := db_processed ?d @ [processed_mark consumer ev], db_audit := rows\<rparr>)"
    if "\<not> (\<exists>l \<in> set (db_ledger d). lg_tenant l = ev_tenant ev \<and> lg_event l = ev_id ev)"
  proof -
    have "\<forall>l \<in> set (db_ledger d). lg_event l \<noteq> lg_event (new_ledger_row ev u)"
    proof (intro ballI notI)
      fix l
      assume l: "l \<in> set (db_ledger d)" "lg_event l = lg_event (new_ledger_row ev u)"
      then have "lg_event l = ev_id ev" by (simp add: new_ledger_row_def)
      from charges_fields [OF ledger_event [OF assms(4,5) l(1) ev this]] l(1) that show False by blast
    qed
    from ledger_ok_charge [OF assms(5,2,3) this] have "ledger_ok ?d" .
    moreover have "ev \<in> set (events ?d)" using ev by (simp add: events_def)
    ultimately show ?thesis by (rule ledger_ok_mark) (use assms(3) in simp)
  qed
  let ?m = "d\<lparr>db_processed := db_processed d @ [processed_mark consumer ev], db_audit := rows\<rparr>"
  have swap: "?m\<lparr>db_ledger := db_ledger ?m @ [new_ledger_row ev u]\<rparr>
      = ?d\<lparr>db_processed := db_processed ?d @ [processed_mark consumer ev], db_audit := rows\<rparr>" by simp
  have same: "db_ledger ?m = db_ledger d" by simp
  from insert_ledger_effect [OF assms(1), unfolded swap] show ?thesis
    unfolding same using old new by (elim disjE conjE) (simp_all only: simp_thms)
qed

lemma process_ledger_ok:
  assumes "process_kafka_event f consumer ev d = (res, d')" "ev \<in> set (events d)" "usage_ok d" "ledger_ok d"
  shows "ledger_ok d'"
  using assms(1)
proof (cases rule: process_effect)
  case (2 rows)
  then show ?thesis using ledger_ok_mark [OF assms(4,2)] by simp
next
  case (3 rows payload u)
  have "ev \<in> set (usage_events d)" using 3(1) assms(2) by (simp add: usage_events_def)
  moreover have "charges ev (new_ledger_row ev u)" using 3(2,3) by (simp add: charges_def)
  ultimately show ?thesis using insert_ledger_ok 3(4) assms(3,4) by blast
qed (use assms(4) in simp)

lemma consume_ok:
  assumes "process_kafka_event f consumer ev (pl_db s) = (res, d)" "m \<in> set (pl_topic s)" "decode (km_value m) = Inr ev"
    and "codec_ok marshal decode" "pipeline_ok marshal s"
  shows "pipeline_ok marshal (s\<lparr>pl_db := d\<rparr>)"
proof -
  obtain ev' where "ev' \<in> set (events (pl_db s))" "event_validate ev' = None" "marshal ev' = Inr (km_value m)"
    using assms(2,5) by (auto simp: pipeline_ok_def topic_ok_def)
  with assms(3,4) have ev: "ev \<in> set (events (pl_db s))" by (auto simp: codec_ok_def)
  have "usage_ok (pl_db s)" "ledger_ok (pl_db s)" using assms(5) by (simp_all add: pipeline_ok_def)
  from process_ledger_ok [OF assms(1) ev this] process_frame [OF assms(1)] assms(5) show ?thesis
    by (simp add: pipeline_ok_def usage_ok_def topic_ok_def relays_ok_def events_def usage_events_def request_keys_def)
qed

lemma pipeline_step_ok:
  assumes "pipeline_step cd marshal decode worker s s'" "codec_ok marshal decode" "pipeline_ok marshal s"
  shows "pipeline_ok marshal s'"
  using assms(1)
proof (cases rule: pipeline_step.cases)
  case (published g row rows f now e d)
  from mark_published_ok [OF published(3) assms(3) published(2)]
  have ok: "pipeline_ok marshal (s\<lparr>pl_db := d\<rparr>)" and same: "events d = events (pl_db s)" by simp_all
  have "\<forall>r \<in> set rows. row_event r \<in> set (events (pl_db s))"
    using assms(3) published(2) unfolding pipeline_ok_def relays_ok_def by (metis held.simps(3) list.set_intros(2))
  with relay_moves [OF ok, of "if e = None then Sending rows else Waiting" g] same published(1) show ?thesis
    by (cases e) simp_all
next
  case (failed g row e rows f now category delay e' d)
  from mark_failed_ok [OF failed(3) assms(3)]
  have ok: "pipeline_ok marshal (s\<lparr>pl_db := d\<rparr>)" and same: "events d = events (pl_db s)" by simp_all
  have "\<forall>r \<in> set rows. row_event r \<in> set (events (pl_db s))"
    using assms(3) failed(2) unfolding pipeline_ok_def relays_ok_def by (metis held.simps(3) list.set_intros(2))
  with relay_moves [OF ok, of "Sending rows" g] same failed(1) show ?thesis by simp
qed (use assms(2,3) in \<open>auto intro: store_step_ok claim_ok publish_ok consume_ok relay_moves\<close>)

lemma pipeline_run_ok:
  assumes "(pipeline_step cd marshal decode worker)\<^sup>*\<^sup>* s s'" "codec_ok marshal decode" "pipeline_ok marshal s"
  shows "pipeline_ok marshal s'"
  using assms(1,3) by (induction rule: rtranclp_induct) (auto intro: pipeline_step_ok [OF _ assms(2)])

subsection \<open>Exact accounting\<close>

text \<open>The ledger row says what the row of the request says.\<close>

definition charged_as_recorded :: "ledger_row \<Rightarrow> request_row \<Rightarrow> bool" where
  "charged_as_recorded l row \<longleftrightarrow>
     rq_status row = Completed \<and> lg_request l = rq_id row \<and> lg_tenant l = rq_tenant row \<and> rq_cost row = Some (lg_cost l)
     \<and> rq_prompt_tokens row = Some (lg_prompt_tokens l) \<and> rq_completion_tokens row = Some (lg_completion_tokens l)"

lemma charges_records: "charges ev l \<Longrightarrow> records ev row \<Longrightarrow> charged_as_recorded l row \<and> lg_request l = ev_aggregate ev"
  by (auto simp: charges_def records_def charged_as_recorded_def new_ledger_row_def)

lemma ledger_requests_distinct:
  assumes "usage_ok d" "ledger_ok d"
  shows "distinct (map lg_request (db_ledger d))"
proof -
  have "inj_on lg_request (set (db_ledger d))"
  proof (rule inj_onI)
    fix l l'
    assume l: "l \<in> set (db_ledger d)" "l' \<in> set (db_ledger d)" "lg_request l = lg_request l'"
    then obtain ev ev' where ev: "ev \<in> set (usage_events d)" "charges ev l" "ev' \<in> set (usage_events d)" "charges ev' l'"
      using assms(2) unfolding ledger_ok_def by blast
    obtain row row' where "records ev row" "records ev' row'" using assms(1) ev(1,3) unfolding usage_ok_def by blast
    with ev l(3) charges_records have "ev_aggregate ev = ev_aggregate ev'" by metis
    then have "ev = ev'" using assms(1) ev(1,3) by (auto simp: usage_ok_def distinct_map inj_on_def)
    with ev charges_fields have "lg_event l = lg_event l'" by metis
    with l assms(2) show "l = l'" by (auto simp: ledger_ok_def distinct_map inj_on_def)
  qed
  with assms(2) show ?thesis by (auto simp: ledger_ok_def distinct_map)
qed

text \<open>How a completed request is represented along the pipeline.\<close>

definition usage_pending :: "(envelope \<Rightarrow> go_error + string) \<Rightarrow> pipeline \<Rightarrow> request_row \<Rightarrow> outbox_row \<Rightarrow> bool" where
  "usage_pending marshal s row ob \<longleftrightarrow>
     ob_type ob = usage_recorded \<and> ob_aggregate ob = rq_id row \<and> ob_tenant ob = rq_tenant row
     \<and> (ob_published_at ob \<noteq> None \<longrightarrow> in_topic marshal (pl_topic s) (row_event ob))
     \<and> ((\<exists>p \<in> set (db_processed (pl_db s)). pk_event p = ob_id ob) \<longrightarrow>
          (\<exists>l \<in> set (db_ledger (pl_db s)). charged_as_recorded l row))"

lemma completed_is_pending:
  assumes "pipeline_ok marshal s" "row \<in> set (db_requests (pl_db s))" "rq_status row = Completed"
  shows "\<exists>ob \<in> set (db_outbox (pl_db s)). usage_pending marshal s row ob"
proof -
  have ok: "usage_ok (pl_db s)" "ledger_ok (pl_db s)" "topic_ok marshal (pl_db s) (pl_topic s)"
    using assms(1) by (simp_all add: pipeline_ok_def)
  obtain ev where ev: "ev \<in> set (usage_events (pl_db s))" "records ev row" using ok(1) assms(2,3) unfolding usage_ok_def by blast
  then obtain ob where ob: "ob \<in> set (db_outbox (pl_db s))" "ev = row_event ob" "ev_type ev = usage_recorded"
    by (auto simp: usage_events_def events_def)
  have charged: "\<exists>l \<in> set (db_ledger (pl_db s)). charged_as_recorded l row"
    if p: "p \<in> set (db_processed (pl_db s))" "pk_event p = ob_id ob" for p
  proof -
    obtain ev' where ev': "ev' \<in> set (events (pl_db s))" "ev_id ev' = pk_event p"
        "ev_type ev' = usage_recorded \<longrightarrow> (\<exists>l \<in> set (db_ledger (pl_db s)). charges ev' l)"
      using ok(2) p(1) unfolding ledger_ok_def by blast
    have "ev_id ev' = ev_id ev" using ev'(2) p(2) ob(2) by (simp add: row_event_def)
    moreover have "ev \<in> set (events (pl_db s))" using ev(1) by (simp add: usage_events_def)
    ultimately have "ev' = ev" using ok(1) ev'(1) by (auto simp: usage_ok_def distinct_map inj_on_def)
    with ev'(3) ob(3) charges_records [OF _ ev(2)] show ?thesis by blast
  qed
  have "ob_type ob = usage_recorded" "ob_aggregate ob = rq_id row" "ob_tenant ob = rq_tenant row"
    using ob ev(2) by (simp_all add: records_def row_event_def)
  moreover have "ob_published_at ob \<noteq> None \<longrightarrow> in_topic marshal (pl_topic s) (row_event ob)"
    using ok(3) ob(1) unfolding topic_ok_def by blast
  ultimately have "usage_pending marshal s row ob" using charged unfolding usage_pending_def by blast
  with ob(1) show ?thesis by blast
qed

text \<open>
  C9. Usage is charged at most once and exactly. Take any run of gateways, evaluation services, relays and
  consumers on one database and one topic, in which every statement may fail, every acknowledgement may be
  lost, relays may stop at any point, claims may expire and be taken over, and any message of the topic may be
  consumed any number of times by any consumer. Then no request has two entries in the usage ledger; every
  entry belongs to a completed request and has its tenant, its tokens and its cost. Every completed request
  has its usage event in the outbox; an outbox row that is marked as published has its message in the topic;
  and a usage event that a consumer has marked as processed is in the ledger.
\<close>

theorem usage_is_charged_exactly:
  assumes "codec_ok marshal decode" "(pipeline_step cd marshal decode worker)\<^sup>*\<^sup>* s s'"
    and "usage_ok (pl_db s)" "db_ledger (pl_db s) = []" "db_processed (pl_db s) = []" "pl_topic s = []"
    and "\<forall>ob \<in> set (db_outbox (pl_db s)). ob_published_at ob = None" "pl_relays s = (\<lambda>g. Waiting)"
  shows "distinct (map lg_request (db_ledger (pl_db s')))
    \<and> (\<forall>l \<in> set (db_ledger (pl_db s')). \<exists>row \<in> set (db_requests (pl_db s')). charged_as_recorded l row)
    \<and> (\<forall>row \<in> set (db_requests (pl_db s')). rq_status row = Completed \<longrightarrow>
         (\<exists>ob \<in> set (db_outbox (pl_db s')). usage_pending marshal s' row ob))"
proof -
  have "pipeline_ok marshal s" using assms(3-8) by (simp add: pipeline_ok_def ledger_ok_def topic_ok_def relays_ok_def)
  then have ok: "pipeline_ok marshal s'" by (rule pipeline_run_ok [OF assms(2,1)])
  then have d: "usage_ok (pl_db s')" "ledger_ok (pl_db s')" by (simp_all add: pipeline_ok_def)
  have "\<exists>row \<in> set (db_requests (pl_db s')). charged_as_recorded l row" if "l \<in> set (db_ledger (pl_db s'))" for l
    using d that charges_records unfolding ledger_ok_def usage_ok_def by blast
  with ledger_requests_distinct [OF d] completed_is_pending [OF ok] show ?thesis by blast
qed

text \<open>A run on the sample database: a completion, a claim of its usage event, a publication and a consumption.\<close>

definition sample_row :: outbox_row where
  "sample_row = completion_event sample_env 1 usage_recorded sample_completion"

definition sample_marshal :: "envelope \<Rightarrow> go_error + string" where
  "sample_marshal ev = (if ev = row_event sample_row then Inr ''u'' else Inl (ErrMsg ''unknown''))"

definition sample_decode :: "string \<Rightarrow> go_error + envelope" where
  "sample_decode v = (if v = ''u'' then Inr (row_event sample_row) else Inl (ErrMsg ''unknown''))"

definition sample_turn :: publish_turn where
  "sample_turn = \<lparr>pt_stored = True, pt_error = None, pt_fault = NoFault, pt_now = 3\<rparr>"

definition sample_start :: pipeline where
  "sample_start = \<lparr>pl_db = sample_db, pl_topic = [], pl_relays = (\<lambda>g. Waiting)\<rparr>"

lemma sample_codec_ok: "codec_ok sample_marshal sample_decode"
  by (simp add: codec_ok_def sample_marshal_def sample_decode_def)

lemma sample_usage_ok: "usage_ok sample_db"
  by (simp add: usage_ok_def request_keys_def events_def usage_events_def sample_defs)

lemma sample_completed:
  obtains attempts where "snd (pg_complete_request sample_codec sample_env sample_completion sample_db)
    = completed_db sample_env (JString ''x'') sample_completion attempts sample_db"
proof -
  obtain e d' where run: "pg_complete_request sample_codec sample_env sample_completion sample_db = (e, d')" by fastforce
  have "e = None"
    using completion_succeeds [of sample_env sample_codec sample_completion "JString ''x''" sample_db] run
    by (simp add: sample_defs affected_def in_progress_def completion_checks_def fresh_events_def attempt_latency_def
        duration_milliseconds_def time_sub_def go_quo_def)
  from run show thesis
    by (rule complete_effect) (use that run \<open>e = None\<close> in \<open>auto simp: sample_codec_def sample_completion_def\<close>)
qed

lemma completed_db_fields [simp]:
  "db_outbox (completed_db env body params attempts d) =
     db_outbox d @ [completion_event env 0 request_completed params, completion_event env 1 usage_recorded params]"
  "db_ledger (completed_db env body params attempts d) = db_ledger d"
  "db_processed (completed_db env body params attempts d) = db_processed d"
  "db_audit (completed_db env body params attempts d) = db_audit d"
  "db_tenants (completed_db env body params attempts d) = db_tenants d"
  "map rq_id (db_requests (completed_db env body params attempts d)) = map rq_id (db_requests d)"
  by (simp_all add: completed_db_def update_rows_def completed_row_def)

lemma sample_claim:
  "0 < limit \<Longrightarrow> claim_rows NoFault 3 {''e''} ''w'' limit minute (completed_db sample_env (JString ''x'') sample_completion attempts sample_db)
     = (Inr [sample_row], (completed_db sample_env (JString ''x'') sample_completion attempts sample_db)\<lparr>db_outbox :=
          [completion_event sample_env 0 request_completed sample_completion, claimed 3 ''w'' sample_row]\<rparr>)"
  by (simp add: claim_rows_def candidates_def claimable_def commit_def update_rows_def completion_event_def new_outbox_row_def
      sample_row_def sample_env_def sample_db_def empty_db_def take_Cons')

lemma sample_event_valid: "event_validate (row_event sample_row) = None"
  by (simp add: event_validate_def row_event_def sample_row_def completion_event_def new_outbox_row_def sample_env_def
      sample_completion_def supported_def time_is_zero_def)

lemma sample_publish: "publish_row sample_marshal sample_turn sample_row [] = (None, [kafka_message (row_event sample_row) ''u''])"
  by (simp add: publish_row_def kafka_publish_def sample_event_valid sample_marshal_def sample_turn_def)

lemma sample_process:
  assumes "db_processed d = []" "db_audit d = []" "db_ledger d = []" "''t1'' \<in> tn_id ` set (db_tenants d)" "''r1'' \<in> rq_id ` set (db_requests d)"
  obtains d' l where "process_kafka_event NoFault ''audit'' (row_event sample_row) d = (Inr True, d')" "db_ledger d' = [l]"
    "lg_request l = ''r1''" "lg_cost l = 5"
proof -
  let ?payload = "completed_payload (attempt_latency sample_env 1) sample_completion"
  let ?u = "\<lparr>ue_request = ''r1'', ue_prompt_tokens = 3, ue_completion_tokens = 4, ue_cost = 5\<rparr>"
  have ev: "ev_type (row_event sample_row) = usage_recorded" "ev_tenant (row_event sample_row) = ''t1''"
      "ev_payload (row_event sample_row) = Some ?payload"
    by (simp_all add: row_event_def sample_row_def completion_event_def new_outbox_row_def sample_completion_def)
  have u: "decode_usage ?payload = Inr ?u"
    by (simp add: completed_payload_def sample_completion_def decode_usage_object in_i64_def)
  have "\<exists>d'. process_kafka_event NoFault ''audit'' (row_event sample_row) d = (Inr True, d')
      \<and> db_ledger d' = [new_ledger_row (row_event sample_row) ?u]"
    using assms by (simp add: process_kafka_event_def sample_event_valid ev u stmt_def broken_def commit_def insert_processed_def
         apply_event_def insert_audit_def insert_ledger_def insert_row_def new_ledger_row_def)
  then show thesis by (elim exE conjE) (rule that, assumption+, simp_all add: new_ledger_row_def)
qed

text \<open>The database after the claim.\<close>

definition sample_claimed :: "attempt_row list \<Rightarrow> db" where
  "sample_claimed attempts = (completed_db sample_env (JString ''x'') sample_completion attempts sample_db)\<lparr>db_outbox :=
     [completion_event sample_env 0 request_completed sample_completion, claimed 3 ''w'' sample_row]\<rparr>"

lemma sample_claimed_fields:
  "db_processed (sample_claimed attempts) = []" "db_audit (sample_claimed attempts) = []" "db_ledger (sample_claimed attempts) = []"
  "''t1'' \<in> tn_id ` set (db_tenants (sample_claimed attempts))" "''r1'' \<in> rq_id ` set (db_requests (sample_claimed attempts))"
proof -
  have "map rq_id (db_requests (sample_claimed attempts)) = map rq_id (db_requests sample_db)"
    by (simp add: sample_claimed_def)
  also have "\<dots> = [''r1'']" by (simp add: sample_defs)
  finally show "''r1'' \<in> rq_id ` set (db_requests (sample_claimed attempts))" by (metis image_set list.set_intros(1))
qed (simp_all add: sample_claimed_def sample_db_def empty_db_def)

lemma sample_turn_ok: "turn_ok sample_turn"
  by (simp add: turn_ok_def sample_turn_def)

lemma sample_int64: "int64_params sample_completion"
  by (simp add: int64_params_def sample_completion_def in_i64_def)

lemma sample_run:
  obtains s l where "(pipeline_step sample_codec sample_marshal sample_decode (\<lambda>g. ''w''))\<^sup>*\<^sup>* sample_start s"
    "db_ledger (pl_db s) = [l]" "lg_request l = ''r1''" "lg_cost l = 5"
proof -
  let ?step = "pipeline_step sample_codec sample_marshal sample_decode (\<lambda>g. ''w'')"
  let ?msg = "kafka_message (row_event sample_row) ''u''"
  obtain attempts where d1: "snd (pg_complete_request sample_codec sample_env sample_completion sample_db)
      = completed_db sample_env (JString ''x'') sample_completion attempts sample_db" by (rule sample_completed)
  let ?s1 = "sample_start\<lparr>pl_db := completed_db sample_env (JString ''x'') sample_completion attempts sample_db\<rparr>"
  let ?s2 = "?s1\<lparr>pl_db := sample_claimed attempts, pl_relays := (pl_relays ?s1)(0 := Sending [sample_row])\<rparr>"
  let ?s3 = "?s2\<lparr>pl_topic := [?msg], pl_relays := (pl_relays ?s2)(0 := Marking sample_row None [])\<rparr>"
  obtain d' l where p: "process_kafka_event NoFault ''audit'' (row_event sample_row) (sample_claimed attempts) = (Inr True, d')"
      and l: "db_ledger d' = [l]" "lg_request l = ''r1''" "lg_cost l = 5"
    by (rule sample_process [OF sample_claimed_fields])
  have "?step sample_start ?s1"
    using pipeline_step.store [of sample_codec sample_start, OF store_step.complete [OF sample_int64]] d1
    by (metis pipeline.select_convs(1) sample_start_def)
  moreover have "?step ?s1 ?s2"
    using pipeline_step.claim [of ?s1 0 NoFault 3 "{''e''}" "\<lambda>g. ''w''" 10 minute "Inr [sample_row]" "sample_claimed attempts"
        sample_codec sample_marshal sample_decode]
    by (simp add: sample_claim sample_claimed_def sample_start_def)
  moreover have "?step ?s2 ?s3"
    using pipeline_step.publish [of ?s2 0 sample_row "[]" sample_turn sample_marshal None "[?msg]" sample_codec sample_decode "\<lambda>g. ''w''"]
    by (simp add: sample_publish sample_start_def sample_turn_ok)
  moreover have "?step ?s3 (?s3\<lparr>pl_db := d'\<rparr>)"
    using pipeline_step.consume [of ?msg ?s3 sample_decode "row_event sample_row" NoFault "''audit''" "Inr True" d'
        sample_codec sample_marshal "\<lambda>g. ''w''"] p
    by (simp add: sample_decode_def kafka_message_def)
  ultimately have "?step\<^sup>*\<^sup>* sample_start (?s3\<lparr>pl_db := d'\<rparr>)"
    by (meson converse_rtranclp_into_rtranclp rtranclp.rtrancl_refl)
  then show thesis by (rule that) (use l in simp_all)
qed

theorem usage_is_charged_exactly_witness:
  "\<exists>s l. (pipeline_step sample_codec sample_marshal sample_decode (\<lambda>g. ''w''))\<^sup>*\<^sup>* sample_start s
     \<and> db_ledger (pl_db s) = [l] \<and> lg_cost l = 5 \<and> (\<exists>row \<in> set (db_requests (pl_db s)). charged_as_recorded l row)"
proof -
  obtain s l where run: "(pipeline_step sample_codec sample_marshal sample_decode (\<lambda>g. ''w''))\<^sup>*\<^sup>* sample_start s"
    and l: "db_ledger (pl_db s) = [l]" "lg_request l = ''r1''" "lg_cost l = 5" by (rule sample_run)
  have "\<forall>l \<in> set (db_ledger (pl_db s)). \<exists>row \<in> set (db_requests (pl_db s)). charged_as_recorded l row"
    using usage_is_charged_exactly [OF sample_codec_ok run] sample_usage_ok
    by (simp add: sample_start_def sample_db_def empty_db_def)
  with run l show ?thesis by (intro exI conjI) simp_all
qed

end
