(* ===== verification/Event_Loops.thy ===== *)
theory Event_Loops
  imports Event_Pipeline
begin

text \<open>
  The loops of the relay and of the consumer as runs of the pipeline: what \<open>Relay.Run\<close> and \<open>Consumer.Run\<close> do
  without interruption is a sequence of pipeline steps, so what is proved of all runs holds of them.
\<close>

lemma pipeline_order [simp]:
  "s\<lparr>pl_topic := a, pl_db := b\<rparr> = s\<lparr>pl_db := b, pl_topic := a\<rparr>"
  "s\<lparr>pl_relays := c, pl_db := b\<rparr> = s\<lparr>pl_db := b, pl_relays := c\<rparr>"
  "s\<lparr>pl_relays := c, pl_topic := a\<rparr> = s\<lparr>pl_topic := a, pl_relays := c\<rparr>"
  by simp_all

lemma two_steps: "R a b \<Longrightarrow> R b c \<Longrightarrow> R\<^sup>*\<^sup>* c e \<Longrightarrow> R\<^sup>*\<^sup>* a e"
  by (meson converse_rtranclp_into_rtranclp)

lemma run_rows_runs:
  assumes "run_rows marshal (worker g) rows (pl_db s) (pl_topic s) = (e, d, topic)"
    and "pl_relays s g = Sending (map snd rows)" "\<forall>(t, row) \<in> set rows. turn_ok t"
  shows "(pipeline_step cd marshal decode worker)\<^sup>*\<^sup>* s (s\<lparr>pl_db := d, pl_topic := topic, pl_relays := (pl_relays s)(g := Waiting)\<rparr>)"
  using assms
proof (induction rows arbitrary: s)
  case Nil
  then have "s\<lparr>pl_db := d, pl_topic := topic, pl_relays := (pl_relays s)(g := Waiting)\<rparr> = s\<lparr>pl_relays := (pl_relays s)(g := Waiting)\<rparr>" by simp
  with pipeline_step.stop [of cd marshal decode worker s g] show ?case by (metis r_into_rtranclp)
next
  case (Cons tr rows)
  let ?step = "pipeline_step cd marshal decode worker"
  obtain t row where tr: "tr = (t, row)" by fastforce
  obtain err topic1 where p: "publish_row marshal t row (pl_topic s) = (err, topic1)" by fastforce
  let ?s1 = "s\<lparr>pl_topic := topic1, pl_relays := (pl_relays s)(g := Marking row err (map snd rows))\<rparr>"
  have first: "?step s ?s1"
    using pipeline_step.publish [OF _ _ p, of g "map snd rows" cd decode worker] Cons.prems tr by simp
  show ?case
  proof (cases err)
    case None
    obtain e1 d1 where m: "mark_published (pt_fault t) (pt_now t) (ob_id row) (worker g) (pl_db s) = (e1, d1)" by fastforce
    let ?s2 = "s\<lparr>pl_db := d1, pl_topic := topic1, pl_relays := (pl_relays s)(g := (if e1 = None then Sending (map snd rows) else Waiting))\<rparr>"
    have second: "?step ?s1 ?s2"
      using pipeline_step.published [of ?s1 g row "map snd rows" "pt_fault t" "pt_now t" worker e1 d1 cd marshal decode] m None by simp
    show ?thesis
    proof (cases e1)
      case e1: None
      have "?step\<^sup>*\<^sup>* ?s2 (?s2\<lparr>pl_db := d, pl_topic := topic, pl_relays := (pl_relays ?s2)(g := Waiting)\<rparr>)"
        using Cons.prems tr p None m e1 by (intro Cons.IH) simp_all
      then have "?step\<^sup>*\<^sup>* ?s2 (s\<lparr>pl_db := d, pl_topic := topic, pl_relays := (pl_relays s)(g := Waiting)\<rparr>)" by simp
      with first second show ?thesis by (rule two_steps)
    next
      case (Some x)
      then have "d = d1" "topic = topic1" using Cons.prems(1) tr p None m by auto
      with Some have "?s2 = s\<lparr>pl_db := d, pl_topic := topic, pl_relays := (pl_relays s)(g := Waiting)\<rparr>" by simp
      with first second show ?thesis by (metis two_steps rtranclp.rtrancl_refl)
    qed
  next
    case (Some x)
    obtain e1 d1 where m: "mark_failed (pt_fault t) (pt_now t) (ob_id row) (worker g) ''kafka_publish'' second (pl_db s) = (e1, d1)" by fastforce
    let ?s2 = "s\<lparr>pl_db := d1, pl_topic := topic1, pl_relays := (pl_relays s)(g := Sending (map snd rows))\<rparr>"
    have second: "?step ?s1 ?s2"
      using pipeline_step.failed [of ?s1 g row x "map snd rows" "pt_fault t" "pt_now t" worker "''kafka_publish''" Aegis_Prelude.second e1 d1
          cd marshal decode] m Some by simp
    have "?step\<^sup>*\<^sup>* ?s2 (?s2\<lparr>pl_db := d, pl_topic := topic, pl_relays := (pl_relays ?s2)(g := Waiting)\<rparr>)"
      using Cons.prems tr p Some m by (intro Cons.IH) simp_all
    then have "?step\<^sup>*\<^sup>* ?s2 (s\<lparr>pl_db := d, pl_topic := topic, pl_relays := (pl_relays s)(g := Waiting)\<rparr>)" by simp
    with first second show ?thesis by (rule two_steps)
  qed
qed

lemma run_batch_runs:
  assumes "run_batch marshal r f now locked turns (pl_db s) (pl_topic s) = (e, d, topic)"
    and "pl_relays s g = Waiting" "worker g = re_worker r" "\<forall>k. turn_ok (turns k)"
  shows "(pipeline_step cd marshal decode worker)\<^sup>*\<^sup>* s (s\<lparr>pl_db := d, pl_topic := topic\<rparr>)"
proof -
  let ?step = "pipeline_step cd marshal decode worker"
  obtain res d1 where c: "claim_rows f now locked (worker g) (nat (re_batch_size r)) minute (pl_db s) = (res, d1)" by fastforce
  note claim = pipeline_step.claim [where worker = worker and s = s and g = g, OF assms(2) c, of cd marshal decode]
  have same: "(pl_relays s)(g := Waiting) = pl_relays s" using assms(2) by (auto simp: fun_eq_iff)
  show ?thesis
  proof (cases res)
    case (Inl x)
    with assms(1,3) c have "d = d1" "topic = pl_topic s" by (simp_all add: run_batch_def)
    with claim Inl same show ?thesis by auto
  next
    case (Inr rows)
    let ?rows = "zip (map turns [0..<length rows]) rows"
    let ?s1 = "s\<lparr>pl_db := d1, pl_relays := (pl_relays s)(g := Sending rows)\<rparr>"
    have "run_rows marshal (worker g) ?rows (pl_db ?s1) (pl_topic ?s1) = (e, d, topic)"
      using assms(1,3) c Inr by (simp add: run_batch_def)
    moreover have "pl_relays ?s1 g = Sending (map snd ?rows)" by simp
    moreover have "\<forall>(t, row) \<in> set ?rows. turn_ok t" using assms(4) by (auto dest!: set_zip_leftD)
    ultimately have "?step\<^sup>*\<^sup>* ?s1 (?s1\<lparr>pl_db := d, pl_topic := topic, pl_relays := (pl_relays ?s1)(g := Waiting)\<rparr>)"
      by (rule run_rows_runs)
    then have "?step\<^sup>*\<^sup>* ?s1 (s\<lparr>pl_db := d, pl_topic := topic\<rparr>)" by (simp add: same)
    moreover have "?step s ?s1" using claim Inr by simp
    ultimately show ?thesis by (rule converse_rtranclp_into_rtranclp [rotated])
  qed
qed

lemma relay_run_runs:
  assumes "relay_run marshal r ts (pl_db s) (pl_topic s) = (e, d, topic)"
    and "pl_relays s g = Waiting" "worker g = re_worker r" "\<forall>t \<in> set ts. \<forall>k. turn_ok (rt_turns t k)"
  shows "(pipeline_step cd marshal decode worker)\<^sup>*\<^sup>* s (s\<lparr>pl_db := d, pl_topic := topic\<rparr>)"
  using assms(1,2,4)
proof (induction ts arbitrary: s)
  case Nil
  then show ?case by (auto simp: pipeline.defs)
next
  case (Cons t ts)
  obtain err d1 topic1 where b: "run_batch marshal r (rt_fault t) (rt_now t) (rt_locked t) (rt_turns t) (pl_db s) (pl_topic s) = (err, d1, topic1)"
    by (metis prod_cases3)
  let ?s1 = "s\<lparr>pl_db := d1, pl_topic := topic1\<rparr>"
  have first: "(pipeline_step cd marshal decode worker)\<^sup>*\<^sup>* s ?s1"
    using run_batch_runs [where worker = worker and g = g, OF b Cons.prems(2) assms(3)] Cons.prems(3) by simp
  show ?case
  proof (cases "err \<noteq> None \<and> \<not> rt_cancelled t \<or> rt_done t")
    case True
    then have "d = d1" "topic = topic1" using Cons.prems(1) b by (auto split: if_splits)
    with first show ?thesis by simp
  next
    case False
    then have "relay_run marshal r ts (pl_db ?s1) (pl_topic ?s1) = (e, d, topic)" using Cons.prems(1) b by (auto split: if_splits)
    from Cons.IH [OF this] Cons.prems(2,3) first show ?thesis by (simp add: rtranclp_trans)
  qed
qed

subsection \<open>The consumer\<close>

text \<open>A marker of a processed event, and that it stays.\<close>

definition marked :: "string \<Rightarrow> envelope \<Rightarrow> db \<Rightarrow> bool" where
  "marked name ev d \<longleftrightarrow> (\<exists>p \<in> set (db_processed d). pk_consumer p = name \<and> pk_event p = ev_id ev)"

lemma insert_processed_marked: "marked name ev (snd (insert_processed name ev d))"
  by (auto simp: insert_processed_def marked_def)

lemma process_keeps_markers:
  assumes "process_kafka_event f name ev d = (res, d')"
  shows "set (db_processed d) \<subseteq> set (db_processed d')"
  using assms
proof (cases rule: process_effect)
  case (3 rows payload u)
  from insert_ledger_effect [OF 3(4)] show ?thesis by (elim disjE conjE) auto
qed auto

lemma apply_keeps_markers:
  assumes "apply_event f ev payload d d1 = (Inr b, d')"
  shows "db_processed d' = db_processed d1"
  using assms
proof (cases rule: apply_event_effect)
  case (3 rows u d2)
  from insert_ledger_effect [OF 3(3)] 3(4) show ?thesis by (elim disjE conjE) auto
qed (use assms in auto)

text \<open>An event that was processed without an error is marked.\<close>

lemma processed_is_marked:
  assumes "process_kafka_event f name ev d = (Inr b, d')"
  shows "marked name ev d'"
proof -
  obtain n d1 where i: "insert_processed name ev d = (n, d1)" by fastforce
  then have m: "marked name ev d1" using insert_processed_marked [of name ev d] by simp
  from assms i have "d' = d1 \<or> (\<exists>payload. apply_event f ev payload d d1 = (Inr b, d'))"
    by (auto simp: process_kafka_event_def split: option.splits if_splits elim!: stmt_cases commit_cases)
  with m apply_keeps_markers show ?thesis unfolding marked_def by metis
qed

text \<open>One turn of the consumer: it ends before or after processing a message, or commits its offset and goes on.\<close>

lemma consumer_turn_cases:
  assumes "consumer_run decode name (t # ts) committed d = (res, committed', d')"
  obtains (idle) "committed' = committed" "d' = d"
  | (ended) k v ev r where "ct_fetch t = Fetched k v" "decode v = Inr ev" "process_kafka_event (ct_fault t) name ev d = (r, d')"
      "committed' = committed"
  | (committed) k v ev processed d1 where "ct_fetch t = Fetched k v" "decode v = Inr ev"
      "process_kafka_event (ct_fault t) name ev d = (Inr processed, d1)"
      "consumer_run decode name ts (committed @ [k]) d1 = (res, committed', d')"
  using assms by (auto split: fetch.splits sum.splits prod.splits option.splits intro: that)

lemma consumer_markers:
  "consumer_run decode name ts committed d = (res, committed', d') \<Longrightarrow> set (db_processed d) \<subseteq> set (db_processed d')"
proof (induction ts arbitrary: committed d)
  case (Cons t ts)
  from Cons.prems show ?case
    by (cases rule: consumer_turn_cases) (use process_keeps_markers Cons.IH in fastforce)+
qed simp

text \<open>What was delivered at the offset of a turn.\<close>

definition delivered :: "(string \<Rightarrow> go_error + envelope) \<Rightarrow> consumer_turn \<Rightarrow> nat \<Rightarrow> envelope \<Rightarrow> bool" where
  "delivered decode t offset ev \<longleftrightarrow> (\<exists>v. ct_fetch t = Fetched offset v \<and> decode v = Inr ev)"

lemma consumer_commits:
  assumes "consumer_run decode name ts committed d = (res, committed', d')" "offset \<in> set committed'"
  shows "offset \<in> set committed \<or> (\<exists>t \<in> set ts. \<exists>ev. delivered decode t offset ev \<and> marked name ev d')"
  using assms
proof (induction ts arbitrary: committed d)
  case (Cons t ts)
  from Cons.prems(1) show ?case
  proof (cases rule: consumer_turn_cases)
    case (committed k v ev processed d1)
    have "marked name ev d'"
      using processed_is_marked [OF committed(3)] consumer_markers [OF committed(4)] unfolding marked_def by blast
    moreover have "delivered decode t k ev" using committed(1,2) by (simp add: delivered_def)
    ultimately show ?thesis using Cons.IH [OF committed(4) Cons.prems(2)] by auto
  qed (use Cons.prems(2) in simp_all)
qed simp

lemma consumer_run_runs:
  assumes "consumer_run decode name ts committed (pl_db s) = (res, committed', d)"
    and "\<forall>t \<in> set ts. \<forall>offset v. ct_fetch t = Fetched offset v \<longrightarrow> v \<in> km_value ` set (pl_topic s)"
  shows "(pipeline_step cd marshal decode worker)\<^sup>*\<^sup>* s (s\<lparr>pl_db := d\<rparr>)"
  using assms
proof (induction ts arbitrary: s committed)
  case (Cons t ts)
  let ?step = "pipeline_step cd marshal decode worker"
  have first: "?step s (s\<lparr>pl_db := d1\<rparr>)"
    if f: "ct_fetch t = Fetched k v" and dec: "decode v = Inr ev"
      and p: "process_kafka_event (ct_fault t) name ev (pl_db s) = (r, d1)" for k v ev r d1
  proof -
    obtain m where "m \<in> set (pl_topic s)" "km_value m = v" using Cons.prems(2) f by auto
    with pipeline_step.consume [OF _ _ p, of m decode cd marshal worker] dec show ?thesis by simp
  qed
  from Cons.prems(1) show ?case
  proof (cases rule: consumer_turn_cases)
    case idle
    then show ?thesis by simp
  next
    case ended
    from first [OF ended(1-3)] show ?thesis by blast
  next
    case (committed k v ev processed d1)
    have "consumer_run decode name ts (committed @ [k]) (pl_db (s\<lparr>pl_db := d1\<rparr>)) = (res, committed', d)" using committed(4) by simp
    then have "?step\<^sup>*\<^sup>* (s\<lparr>pl_db := d1\<rparr>) (s\<lparr>pl_db := d1, pl_db := d\<rparr>)" using Cons.prems(2) by (intro Cons.IH) auto
    then have "?step\<^sup>*\<^sup>* (s\<lparr>pl_db := d1\<rparr>) (s\<lparr>pl_db := d\<rparr>)" by simp
    with first [OF committed(1-3)] show ?thesis by (rule converse_rtranclp_into_rtranclp)
  qed
qed auto

text \<open>
  C14. The loops of the code are runs of the pipeline, so everything that holds of all runs holds of them. For any
  list of what the turns of \<open>Relay.Run\<close> meet, in which Kafka has stored what it acknowledged, and for any
  list of what \<open>Consumer.Run\<close> fetches from the topic, the database and the topic after the loop are reached by
  steps of the pipeline. Moreover the consumer commits an offset only after the event delivered there is
  durably marked as processed.
\<close>

theorem loops_are_pipeline_runs:
  assumes "pl_relays s g = Waiting" "worker g = re_worker r" "\<forall>t \<in> set ts. \<forall>k. turn_ok (rt_turns t k)"
    and "relay_run marshal r ts (pl_db s) (pl_topic s) = (e, d, topic)"
    and "\<forall>t \<in> set cts. \<forall>offset v. ct_fetch t = Fetched offset v \<longrightarrow> v \<in> km_value ` set topic"
    and "consumer_run decode name cts [] d = (res, committed, d')"
  shows "(pipeline_step cd marshal decode worker)\<^sup>*\<^sup>* s (s\<lparr>pl_db := d, pl_topic := topic\<rparr>)
    \<and> (pipeline_step cd marshal decode worker)\<^sup>*\<^sup>* s (s\<lparr>pl_db := d', pl_topic := topic\<rparr>)
    \<and> (\<forall>offset \<in> set committed. \<exists>t \<in> set cts. \<exists>ev. delivered decode t offset ev \<and> marked name ev d')"
proof -
  let ?s1 = "s\<lparr>pl_db := d, pl_topic := topic\<rparr>"
  have relay: "(pipeline_step cd marshal decode worker)\<^sup>*\<^sup>* s ?s1"
    by (rule relay_run_runs [where worker = worker and g = g, OF assms(4,1,2,3)])
  have "consumer_run decode name cts [] (pl_db ?s1) = (res, committed, d')" using assms(6) by simp
  then have "(pipeline_step cd marshal decode worker)\<^sup>*\<^sup>* ?s1 (?s1\<lparr>pl_db := d'\<rparr>)"
    by (rule consumer_run_runs) (use assms(5) in simp)
  then have "(pipeline_step cd marshal decode worker)\<^sup>*\<^sup>* ?s1 (s\<lparr>pl_db := d', pl_topic := topic\<rparr>)" by simp
  with relay consumer_commits [OF assms(6)] show ?thesis by (auto intro: rtranclp_trans)
qed

text \<open>The relay publishes the usage event of the sample run, and a consumer processes it.\<close>

definition sample_relay :: relay where
  "sample_relay = new_relay ''w'' 0 0"

definition sample_relay_turn :: relay_turn where
  "sample_relay_turn = \<lparr>rt_fault = NoFault, rt_now = 3, rt_locked = {''e''}, rt_turns = (\<lambda>k. sample_turn), rt_cancelled = False, rt_done = True\<rparr>"

definition sample_consumer_turn :: consumer_turn where
  "sample_consumer_turn = \<lparr>ct_fetch = Fetched 7 ''u'', ct_fault = NoFault, ct_commit = None\<rparr>"

lemma sample_relay_run:
  assumes "claim_rows NoFault 3 {''e''} ''w'' 100 minute d = (Inr [sample_row], d1)"
  obtains d2 where "relay_run sample_marshal sample_relay [sample_relay_turn] d [] = (Some None, d2, [kafka_message (row_event sample_row) ''u''])"
    "db_processed d2 = db_processed d1" "db_audit d2 = db_audit d1" "db_ledger d2 = db_ledger d1" "db_tenants d2 = db_tenants d1"
    "db_requests d2 = db_requests d1"
  using assms
  by (simp add: sample_relay_def new_relay_def sample_relay_turn_def run_batch_def sample_publish sample_turn_def [symmetric]
      mark_published_def as_exec_def commit_def update_claimed_def) (simp add: sample_turn_def)

theorem loops_are_pipeline_runs_witness:
  "\<exists>s d topic d'. (pipeline_step sample_codec sample_marshal sample_decode (\<lambda>g. ''w''))\<^sup>*\<^sup>* s (s\<lparr>pl_db := d', pl_topic := topic\<rparr>)
     \<and> relay_run sample_marshal sample_relay [sample_relay_turn] (pl_db s) (pl_topic s) = (Some None, d, topic) \<and> topic \<noteq> []
     \<and> consumer_run sample_decode ''audit'' [sample_consumer_turn] [] d = (None, [7], d')
     \<and> marked ''audit'' (row_event sample_row) d' \<and> db_ledger d' \<noteq> []"
proof -
  let ?s = "sample_start\<lparr>pl_db := completed_db sample_env (JString ''x'') sample_completion [] sample_db\<rparr>"
  have claim: "claim_rows NoFault 3 {''e''} ''w'' 100 minute (pl_db ?s) = (Inr [sample_row], sample_claimed [])"
    by (simp add: sample_claim sample_claimed_def)
  obtain d2 where relay: "relay_run sample_marshal sample_relay [sample_relay_turn] (pl_db ?s) []
        = (Some None, d2, [kafka_message (row_event sample_row) ''u''])"
      and same: "db_processed d2 = []" "db_audit d2 = []" "db_ledger d2 = []" "''t1'' \<in> tn_id ` set (db_tenants d2)"
        "''r1'' \<in> rq_id ` set (db_requests d2)"
    using sample_relay_run [OF claim] sample_claimed_fields by metis
  obtain d' l where p: "process_kafka_event NoFault ''audit'' (row_event sample_row) d2 = (Inr True, d')" and l: "db_ledger d' = [l]"
    by (rule sample_process [OF same])
  have consumer: "consumer_run sample_decode ''audit'' [sample_consumer_turn] [] d2 = (None, [7], d')"
    by (simp add: sample_consumer_turn_def sample_decode_def p)
  have topic: "pl_topic ?s = []" "pl_relays ?s 0 = Waiting" by (simp_all add: sample_start_def)
  have fetched: "\<forall>t \<in> set [sample_consumer_turn]. \<forall>offset v. ct_fetch t = Fetched offset v \<longrightarrow>
      v \<in> km_value ` set [kafka_message (row_event sample_row) ''u'']"
    by (simp add: sample_consumer_turn_def kafka_message_def)
  have relay': "relay_run sample_marshal sample_relay [sample_relay_turn] (pl_db ?s) (pl_topic ?s)
      = (Some None, d2, [kafka_message (row_event sample_row) ''u''])" using relay topic(1) by simp
  have "\<forall>t \<in> set [sample_relay_turn]. \<forall>k. turn_ok (rt_turns t k)" by (simp add: sample_relay_turn_def sample_turn_ok)
  note ok = loops_are_pipeline_runs [where worker = "\<lambda>g. ''w''" and g = 0 and s = ?s and r = sample_relay and cd = sample_codec,
      OF topic(2) _ this relay' fetched consumer]
  have w: "''w'' = re_worker sample_relay" by (simp add: sample_relay_def new_relay_def)
  have "marked ''audit'' (row_event sample_row) d'"
    using ok [OF w] by (auto simp: delivered_def sample_consumer_turn_def sample_decode_def)
  with ok [OF w] relay' consumer l show ?thesis by (intro exI [of _ ?s]) auto
qed

end
