(* ===== verification/Evaluation_Jobs.thy ===== *)
theory Evaluation_Jobs
  imports Evaluation_Store
begin

text \<open>
  Evaluation commands over RabbitMQ (\<open>internal/rabbitmq\<close>) and the service that submits and retries jobs
  (\<open>internal/evaluationjob\<close>). The body of a message is the JSON value it denotes, the strings in it are valid
  UTF-8. A worker is modelled by the calls it makes, one action each, so that other clients and crashes can
  come between any two of them.
\<close>

subsection \<open>Commands\<close>

record mq_job =
  mj_job :: string
  mj_tenant :: string
  mj_execution :: string
  mj_type :: string
  mj_correlation :: string
  mj_attempt :: int

definition encode_job :: "mq_job \<Rightarrow> json" where
  "encode_job j =
     JObject [(''job_id'', JString (mj_job j)), (''tenant_id'', JString (mj_tenant j)),
       (''execution_id'', JString (mj_execution j)), (''job_type'', JString (mj_type j)),
       (''correlation_id'', JString (mj_correlation j)), (''attempt'', JInt (mj_attempt j))]"

text \<open>\<open>json.Unmarshal\<close> into a \<open>Job\<close> and the check of its identifiers.\<close>

definition decode_job :: "raw_message \<Rightarrow> mq_job option" where
  "decode_job body =
     (case map_option members_of body of
        Some (Inr ms) \<Rightarrow>
          (case (set_field set_string ''job_id'' ms '''', set_field set_string ''tenant_id'' ms '''',
                 set_field set_string ''execution_id'' ms '''', set_field set_string ''job_type'' ms '''',
                 set_field set_string ''correlation_id'' ms '''', set_field set_int ''attempt'' ms 0) of
             ((i, None), (tenant, None), (execution, None), (type, None), (correlation, None), (attempt, None)) \<Rightarrow>
               if i = '''' \<or> tenant = '''' \<or> execution = '''' then None
               else Some \<lparr>mj_job = i, mj_tenant = tenant, mj_execution = execution, mj_type = type,
                          mj_correlation = correlation, mj_attempt = attempt\<rparr>
           | _ \<Rightarrow> None)
      | _ \<Rightarrow> None)"

subsection \<open>Publication\<close>

text \<open>
  The durable queues. The exchange of a command and that of a retry are each bound to one queue.
\<close>

record queues =
  qu_work :: "raw_message list"
  qu_retry :: "raw_message list"
  qu_dead :: "raw_message list"

definition enqueue :: "bool \<Rightarrow> raw_message \<Rightarrow> queues \<Rightarrow> queues" where
  "enqueue retry body q =
     (if retry then q\<lparr>qu_retry := qu_retry q @ [body]\<rparr> else q\<lparr>qu_work := qu_work q @ [body]\<rparr>)"

text \<open>
  What a publication meets: the error of the send, whether the broker stored the message and which
  confirmation it sends (none when the channel closes), and whether the context ends while \<open>Publish\<close> waits.
  A broker confirms only what it has stored.
\<close>

record publish_env =
  pu_error :: "go_error option"
  pu_stored :: bool
  pu_confirm :: "bool option"
  pu_cancelled :: "go_error option"

definition broker_ok :: "publish_env \<Rightarrow> bool" where
  "broker_ok env \<longleftrightarrow> (pu_confirm env = Some True \<longrightarrow> pu_stored env)"

text \<open>
  \<open>Publish\<close> with the confirmations that nobody has received yet: it takes the oldest one. The mutex of the
  manager is held throughout.
\<close>

definition mq_publish ::
  "publish_env \<Rightarrow> mq_job \<Rightarrow> bool \<Rightarrow> bool list \<Rightarrow> queues \<Rightarrow> go_error option \<times> bool list \<times> queues" where
  "mq_publish env job retry confirms q =
     (let q1 = (if pu_stored env then enqueue retry (Some (encode_job job)) q else q)
      in case pu_error env of
           Some e \<Rightarrow> (Some (ErrWrap ''publish evaluation job'' e), confirms, q1)
         | None \<Rightarrow>
             (let confirms1 = confirms @ (case pu_confirm env of None \<Rightarrow> [] | Some a \<Rightarrow> [a])
              in case pu_cancelled env of
                   Some e \<Rightarrow> (Some e, confirms1, q1)
                 | None \<Rightarrow>
                     (case confirms1 of
                        True # rest \<Rightarrow> (None, rest, q1)
                      | False # rest \<Rightarrow> (Some (ErrMsg ''RabbitMQ did not acknowledge publication''), rest, q1)
                      | [] \<Rightarrow> (Some (ErrMsg ''RabbitMQ did not acknowledge publication''), [], q1))))"

subsection \<open>The worker\<close>

record worker =
  wo_evaluators :: "(eval_input \<Rightarrow> eval_result) list"
  wo_concurrency :: int
  wo_max_attempts :: int

definition new_worker :: "(eval_input \<Rightarrow> eval_result) list \<Rightarrow> int \<Rightarrow> int \<Rightarrow> worker" where
  "new_worker evaluators concurrency max_attempts =
     \<lparr>wo_evaluators = evaluators, wo_concurrency = (if concurrency \<le> 0 then 4 else concurrency),
      wo_max_attempts = (if max_attempts \<le> 0 then 3 else max_attempts)\<rparr>"

text \<open>
  How a delivery is settled, and where in \<open>process\<close> and \<open>retry\<close> a goroutine is: before decoding the body,
  before loading the input, before storing the results, at \<open>retry\<close>, before \<open>FailEvaluation\<close>, before settling.
\<close>

datatype settlement = Ack | Requeue | DeadLetter

datatype worker_pc =
    AtBody raw_message
  | AtLoad mq_job
  | AtComplete mq_job eval_input
  | AtRetry mq_job string
  | AtFail mq_job string bool settlement
  | AtSettle settlement

definition retry_job :: "mq_job \<Rightarrow> mq_job" where
  "retry_job job = job\<lparr>mj_attempt := i64 (mj_attempt job + 1)\<rparr>"

text \<open>The next call of \<open>process\<close> or \<open>retry\<close>.\<close>

fun worker_next ::
  "(eval_result list \<Rightarrow> go_error + json) \<Rightarrow> worker \<Rightarrow> pg_env \<Rightarrow> publish_env \<Rightarrow> worker_pc \<Rightarrow> db \<times> bool list \<times> queues
     \<Rightarrow> worker_pc \<times> db \<times> bool list \<times> queues" where
  "worker_next encode w env pub (AtBody body) (d, confirms, q) =
     (case decode_job body of
        None \<Rightarrow> (AtSettle DeadLetter, d, confirms, q)
      | Some job \<Rightarrow>
          (case mark_running (pe_fault env) (pe_now env) (mj_tenant job) (mj_job job) d of
             (Some e, d1) \<Rightarrow> (AtRetry job ''database_transient'', d1, confirms, q)
           | (None, d1) \<Rightarrow> (AtLoad job, d1, confirms, q)))"
| "worker_next encode w env pub (AtLoad job) (d, confirms, q) =
     (case load_input (pe_fault env) (mj_tenant job) (mj_job job) d of
        Inl e \<Rightarrow> (AtRetry job ''evaluation_source'', d, confirms, q)
      | Inr inp \<Rightarrow> (AtComplete job inp, d, confirms, q))"
| "worker_next encode w env pub (AtComplete job inp) (d, confirms, q) =
     (case complete_evaluation encode env (mj_tenant job) (mj_job job) (mj_execution job)
             (map (\<lambda>evaluator. evaluator inp) (wo_evaluators w)) d of
        (Some e, d1) \<Rightarrow> (AtRetry job ''database_transient'', d1, confirms, q)
      | (None, d1) \<Rightarrow> (AtSettle Ack, d1, confirms, q))"
| "worker_next encode w env pub (AtRetry job category) (d, confirms, q) =
     (let job1 = retry_job job
      in if wo_max_attempts w \<le> mj_attempt job1 then (AtFail job1 category True DeadLetter, d, confirms, q)
         else case mq_publish pub job1 True confirms q of
           (Some e, confirms1, q1) \<Rightarrow> (AtSettle Requeue, d, confirms1, q1)
         | (None, confirms1, q1) \<Rightarrow> (AtFail job1 category False Ack, d, confirms1, q1))"
| "worker_next encode w env pub (AtFail job category permanent s) (d, confirms, q) =
     (AtSettle s, snd (fail_evaluation env (mj_tenant job) (mj_job job) category permanent d), confirms, q)"
| "worker_next encode w env pub (AtSettle s) st = (AtSettle s, st)"

text \<open>What RabbitMQ does with a settled delivery: the work queue is dead-lettered to the dead queue.\<close>

fun settle :: "settlement \<Rightarrow> raw_message \<Rightarrow> queues \<Rightarrow> queues" where
  "settle Ack body q = q"
| "settle Requeue body q = q\<lparr>qu_work := body # qu_work q\<rparr>"
| "settle DeadLetter body q = q\<lparr>qu_dead := qu_dead q @ [body]\<rparr>"

text \<open>\<open>process\<close> without interruption: at most five calls to the end of a delivery.\<close>

fun worker_calls ::
  "(eval_result list \<Rightarrow> go_error + json) \<Rightarrow> worker \<Rightarrow> (pg_env \<times> publish_env) list \<Rightarrow> worker_pc \<Rightarrow> db \<times> bool list \<times> queues
     \<Rightarrow> worker_pc \<times> db \<times> bool list \<times> queues" where
  "worker_calls encode w [] pc st = (pc, st)"
| "worker_calls encode w ((env, pub) # envs) pc st =
     (case worker_next encode w env pub pc st of (pc1, st1) \<Rightarrow> worker_calls encode w envs pc1 st1)"

subsection \<open>The service\<close>

record submit_input =
  su_request :: string
  su_type :: string
  su_parameters :: "(string \<times> json) list option"

definition parameters_json :: "submit_input \<Rightarrow> json" where
  "parameters_json inp = (case su_parameters inp of None \<Rightarrow> JNull | Some ms \<Rightarrow> JObject ms)"

definition submit_command :: "evaluation_job \<Rightarrow> string \<Rightarrow> string \<Rightarrow> string \<Rightarrow> mq_job" where
  "submit_command job tenant execution correlation =
     \<lparr>mj_job = jb_id job, mj_tenant = tenant, mj_execution = execution, mj_type = jb_type job,
      mj_correlation = correlation, mj_attempt = 0\<rparr>"

text \<open>
  What \<open>Submit\<close> and \<open>Retry\<close> meet: the environments of their calls, the changes of others between them, and
  sixteen random bytes in hexadecimal. \<open>hash\<close> is the SHA-256 digest of the encoded input.
\<close>

record submit_env =
  se_create :: pg_env
  se_other :: "nat \<Rightarrow> db \<Rightarrow> db"
  se_execution :: string
  se_publish :: publish_env
  se_queued :: fault

definition eval_submit ::
  "(submit_input \<Rightarrow> string) \<Rightarrow> submit_env \<Rightarrow> string \<Rightarrow> string \<Rightarrow> string \<Rightarrow> submit_input \<Rightarrow> db \<times> bool list \<times> queues
     \<Rightarrow> (evaluation_job option \<times> bool \<times> go_error option) \<times> db \<times> bool list \<times> queues" where
  "eval_submit hash env tenant key correlation inp = (\<lambda>(d, confirms, q).
     if su_request inp = '''' \<or> su_type inp = ''''
     then ((None, False, Some (ErrMsg ''request_id and job_type are required'')), d, confirms, q)
     else case create_or_get_evaluation (se_create env) (se_other env)
            \<lparr>cep_tenant = tenant, cep_request = su_request inp, cep_idempotency_key = key, cep_hash = hash inp,
             cep_type = su_type inp, cep_correlation = correlation, cep_parameters = parameters_json inp\<rparr> d of
       (Inl e, d1) \<Rightarrow> ((None, False, Some e), d1, confirms, q)
     | (Inr (job, False), d1) \<Rightarrow> ((Some job, False, None), d1, confirms, q)
     | (Inr (job, True), d1) \<Rightarrow>
         (case mq_publish (se_publish env) (submit_command job tenant (se_execution env) correlation) False confirms q of
            (Some e, confirms1, q1) \<Rightarrow> ((Some job, True, Some (ErrWrap ''publish evaluation command'' e)), d1, confirms1, q1)
          | (None, confirms1, q1) \<Rightarrow>
              (case mark_queued (se_queued env) tenant (jb_id job) (se_other env 2 d1) of
                 (Some e, d2) \<Rightarrow> ((Some job, True, Some (ErrWrap ''mark evaluation queued'' e)), d2, confirms1, q1)
               | (None, d2) \<Rightarrow> ((Some (job\<lparr>jb_status := Queued\<rparr>), True, None), d2, confirms1, q1))))"

definition eval_retry ::
  "submit_env \<Rightarrow> string \<Rightarrow> string \<Rightarrow> string \<Rightarrow> db \<times> bool list \<times> queues \<Rightarrow> (go_error + evaluation_job) \<times> db \<times> bool list \<times> queues" where
  "eval_retry env tenant i correlation = (\<lambda>(d, confirms, q).
     case get_evaluation (pe_fault (se_create env)) 0 tenant i d of
       Inl e \<Rightarrow> (Inl e, d, confirms, q)
     | Inr job \<Rightarrow>
         if jb_status job \<notin> set [EvalFailed, DeadLettered, Pending]
         then (Inl ErrNotRetryable, d, confirms, q)
         else case mq_publish (se_publish env) (submit_command job tenant (se_execution env) correlation) False confirms q of
           (Some e, confirms1, q1) \<Rightarrow> (Inl e, d, confirms1, q1)
         | (None, confirms1, q1) \<Rightarrow>
             (case mark_queued (se_queued env) tenant i (se_other env 0 d) of
                (Some e, d1) \<Rightarrow> (Inl e, d1, confirms1, q1)
              | (None, d1) \<Rightarrow> (Inr (job\<lparr>jb_status := Queued\<rparr>), d1, confirms1, q1)))"

definition eval_get :: "fault \<Rightarrow> string \<Rightarrow> string \<Rightarrow> db \<Rightarrow> go_error + evaluation_job" where
  "eval_get f tenant i d = get_evaluation f 0 tenant i d"

definition eval_list :: "fault \<Rightarrow> string \<Rightarrow> int \<Rightarrow> int \<Rightarrow> db \<Rightarrow> go_error + evaluation_job list" where
  "eval_list f tenant limit offset d = list_evaluations f tenant limit offset d"

end
