(* ===== verification/Evaluation_System.thy ===== *)
theory Evaluation_System
  imports Evaluation_Jobs
begin

text \<open>
  Evaluation jobs as a distributed system: worker goroutines that may stop at any call, a broker that redelivers
  what was not settled, and other clients of the database. A command is never lost before its result is
  stored, a job never gets a second result, and retries of a command end.
\<close>

subsection \<open>Results are written once\<close>

definition results_grow :: "db \<Rightarrow> db \<Rightarrow> bool" where
  "results_grow d d' \<longleftrightarrow>
     (\<exists>new. db_results d' = db_results d @ new)
     \<and> (distinct (map rr_job (db_results d)) \<longrightarrow> distinct (map rr_job (db_results d')))"

lemma results_grow_same: "db_results d' = db_results d \<Longrightarrow> results_grow d d'"
  by (simp add: results_grow_def)

lemma results_grow_trans: "results_grow a b \<Longrightarrow> results_grow b c \<Longrightarrow> results_grow a c"
  by (auto simp: results_grow_def)

lemma results_grow_in: "results_grow d d' \<Longrightarrow> i \<in> rr_job ` set (db_results d) \<Longrightarrow> i \<in> rr_job ` set (db_results d')"
  by (auto simp: results_grow_def)

lemma insert_outbox_results: "insert_outbox uuid now type a t c p d = Inr d' \<Longrightarrow> db_results d' = db_results d"
  by (auto simp: insert_outbox_def)

lemma update_job_results [simp]: "db_results (update_job t i from change d) = db_results d"
  by (simp add: update_job_def)

lemma commit_results: "results_grow d d' \<Longrightarrow> results_grow d (snd (commit f k wrap d x d'))"
  by (rule commit_keeps) (simp_all add: results_grow_same)

lemma mark_running_results: "results_grow d (snd (mark_running f now t i d))"
  unfolding mark_running_def as_error_snd by (intro commit_results results_grow_same update_job_results)

lemma insert_result_effect:
  assumes "insert_result row d = Inr d'"
  shows "results_grow d d' \<and> rr_job row \<in> rr_job ` set (db_results d')"
  using assms by (auto simp: insert_result_def results_grow_def insert_row_Inr split: if_splits)

lemma complete_cases:
  assumes "complete_evaluation encode env t i x rs d = (e, d')"
  obtains "e \<noteq> None" "d' = d" | "results_grow d d'" "i \<in> rr_job ` set (db_results d')"
proof (cases "encode rs")
  case (Inr encoded)
  have step: "results_grow d d3 \<and> i \<in> rr_job ` set (db_results d3)"
    if "insert_result (new_result_row t i x rs encoded) d = Inr d1" "Inr (update_job t i any_status g d1) = Inr d2"
      "insert_outbox uuid now type a t c p d2 = Inr d3" for d1 d2 d3 g uuid now type a c p
  proof -
    have "db_results d3 = db_results d1" using that(2,3) insert_outbox_results by fastforce
    with insert_result_effect [OF that(1)] show ?thesis by (simp add: results_grow_def new_result_row_def)
  qed
  from assms show thesis
    unfolding complete_evaluation_def Inr sum.case
    by (elim as_errorE stmt_cases commit_cases; clarsimp) (use that step in blast)+
qed (use assms that in \<open>auto simp: complete_evaluation_def as_error_def\<close>)

lemma complete_results: "results_grow d (snd (complete_evaluation encode env t i x rs d))"
  by (cases "complete_evaluation encode env t i x rs d") (auto elim!: complete_cases simp: results_grow_same)

lemma fail_results: "results_grow d (snd (fail_evaluation env t i c p d))"
proof -
  obtain y d' where run: "fail_evaluation env t i c p d = (y, d')" by fastforce
  then have "db_results d' = db_results d"
    by (auto simp: fail_evaluation_def as_error_def split: prod.splits sum.splits option.splits if_splits
        elim!: stmt_cases commit_cases dest!: insert_outbox_results)
  with run show ?thesis by (simp add: results_grow_same)
qed

lemma worker_next_results: "results_grow d (fst (snd (worker_next encode w env pub pc (d, confirms, q))))"
proof (cases pc)
  case (AtBody body)
  then show ?thesis using mark_running_results [of d "pe_fault env" "pe_now env"]
    by (auto simp: results_grow_same split: option.splits prod.splits) (metis snd_conv)+
next
  case (AtComplete job inp)
  then show ?thesis
    using complete_results [of d encode env "mj_tenant job" "mj_job job" "mj_execution job" "map (\<lambda>evaluator. evaluator inp) (wo_evaluators w)"]
    by (auto split: option.splits prod.splits)
qed (auto simp: results_grow_same Let_def fail_results split: sum.splits prod.splits option.splits)

subsection \<open>The system\<close>

text \<open>
  The goroutines of the workers by number, each with the body it was delivered and its place in \<open>process\<close>, and
  the confirmations that the managers of the processes have not received. \<open>proc\<close> is the process of a
  goroutine.
\<close>

record eval_sys =
  es_db :: db
  es_confirms :: "nat \<Rightarrow> bool list"
  es_queues :: queues
  es_tasks :: "nat \<Rightarrow> (raw_message \<times> worker_pc) option"

definition at_settle :: "worker_pc \<Rightarrow> bool" where
  "at_settle pc \<longleftrightarrow> (case pc of AtSettle s \<Rightarrow> True | _ \<Rightarrow> False)"

text \<open>
  One step: RabbitMQ delivers a message of the work queue to an idle goroutine; a goroutine makes its next
  call, in which the broker confirms only what it stored and no wait for a confirmation is given up; a
  settlement reaches the broker; a delivery is lost, by a crash or a closed channel, and goes back to the
  queue; a message leaves the retry queue when its time is over; a service publishes a command; another client
  changes the database but no results.
\<close>

inductive eval_step ::
  "(eval_result list \<Rightarrow> go_error + json) \<Rightarrow> worker \<Rightarrow> (nat \<Rightarrow> nat) \<Rightarrow> eval_sys \<Rightarrow> eval_sys \<Rightarrow> bool" for encode w proc where
  deliver: "es_tasks s g = None \<Longrightarrow> qu_work (es_queues s) = ms @ body # ms' \<Longrightarrow>
     eval_step encode w proc s (s\<lparr>es_queues := (es_queues s)\<lparr>qu_work := ms @ ms'\<rparr>,
       es_tasks := (es_tasks s)(g \<mapsto> (body, AtBody body))\<rparr>)"
| act: "es_tasks s g = Some (body, pc) \<Longrightarrow> \<not> at_settle pc \<Longrightarrow> broker_ok pub \<Longrightarrow> pu_cancelled pub = None \<Longrightarrow>
     worker_next encode w env pub pc (es_db s, es_confirms s (proc g), es_queues s) = (pc1, d1, confirms1, q1) \<Longrightarrow>
     eval_step encode w proc s (s\<lparr>es_db := d1, es_confirms := (es_confirms s)(proc g := confirms1), es_queues := q1,
       es_tasks := (es_tasks s)(g \<mapsto> (body, pc1))\<rparr>)"
| settle: "es_tasks s g = Some (body, AtSettle how) \<Longrightarrow>
     eval_step encode w proc s (s\<lparr>es_queues := settle how body (es_queues s), es_tasks := (es_tasks s)(g := None)\<rparr>)"
| lost: "es_tasks s g = Some (body, pc) \<Longrightarrow>
     eval_step encode w proc s (s\<lparr>es_queues := settle Requeue body (es_queues s), es_tasks := (es_tasks s)(g := None)\<rparr>)"
| expire: "qu_retry (es_queues s) = body # rest \<Longrightarrow>
     eval_step encode w proc s (s\<lparr>es_queues := enqueue False body ((es_queues s)\<lparr>qu_retry := rest\<rparr>)\<rparr>)"
| command: "broker_ok pub \<Longrightarrow> pu_cancelled pub = None \<Longrightarrow> mq_publish pub job False (es_confirms s p) (es_queues s) = (e, confirms1, q1) \<Longrightarrow>
     eval_step encode w proc s (s\<lparr>es_confirms := (es_confirms s)(p := confirms1), es_queues := q1\<rparr>)"
| other: "db_results d = db_results (es_db s) \<Longrightarrow> eval_step encode w proc s (s\<lparr>es_db := d\<rparr>)"

text \<open>
  A job is live while its result is stored or a message for it is in a queue or with a goroutine that has
  neither stored a result nor passed the job on.
\<close>

definition carries :: "string \<Rightarrow> raw_message \<Rightarrow> bool" where
  "carries i body \<longleftrightarrow> (\<exists>job. decode_job body = Some job \<and> mj_job job = i)"

definition spent :: "worker_pc \<Rightarrow> bool" where
  "spent pc \<longleftrightarrow> (case pc of AtFail job category permanent s \<Rightarrow> s = Ack | AtSettle s \<Rightarrow> s = Ack | _ \<Rightarrow> False)"

definition queued_for :: "string \<Rightarrow> queues \<Rightarrow> bool" where
  "queued_for i q \<longleftrightarrow> (\<exists>body \<in> set (qu_work q) \<union> set (qu_retry q) \<union> set (qu_dead q). carries i body)"

definition live :: "string \<Rightarrow> eval_sys \<Rightarrow> bool" where
  "live i s \<longleftrightarrow>
     i \<in> rr_job ` set (db_results (es_db s)) \<or> queued_for i (es_queues s)
     \<or> (\<exists>g body pc. es_tasks s g = Some (body, pc) \<and> \<not> spent pc \<and> carries i body)"

text \<open>A goroutine works on the job of its delivery, and no confirmation is left over.\<close>

fun pc_job :: "worker_pc \<Rightarrow> mq_job option" where
  "pc_job (AtBody body) = None"
| "pc_job (AtLoad job) = Some job"
| "pc_job (AtComplete job inp) = Some job"
| "pc_job (AtRetry job category) = Some job"
| "pc_job (AtFail job category permanent s) = Some job"
| "pc_job (AtSettle s) = None"

fun task_ok :: "raw_message \<times> worker_pc \<Rightarrow> bool" where
  "task_ok (body, AtBody b) \<longleftrightarrow> b = body"
| "task_ok (body, pc) \<longleftrightarrow> (\<forall>job. pc_job pc = Some job \<longrightarrow> (\<exists>j. decode_job body = Some j \<and> mj_job job = mj_job j \<and>
       mj_tenant job = mj_tenant j \<and> mj_execution job = mj_execution j))"

definition sys_ok :: "eval_sys \<Rightarrow> bool" where
  "sys_ok s \<longleftrightarrow> (\<forall>p. es_confirms s p = []) \<and> (\<forall>g t. es_tasks s g = Some t \<longrightarrow> task_ok t)"

subsection \<open>Commands survive encoding\<close>

definition job_keys :: "string list" where
  "job_keys = [''job_id'', ''tenant_id'', ''execution_id'', ''job_type'', ''correlation_id'', ''attempt'']"

lemma job_keys_plain: "list_all (list_all plain_char) job_keys"
  by (simp add: job_keys_def plain_char_def)

lemma job_keys_apart: "a \<in> set job_keys \<Longrightarrow> b \<in> set job_keys \<Longrightarrow> same_key a b \<longleftrightarrow> a = b"
  using job_keys_plain by (intro same_key_plain) (auto simp: list_all_iff)

lemma decode_encode_job:
  assumes "mj_job j \<noteq> ''''" "mj_tenant j \<noteq> ''''" "mj_execution j \<noteq> ''''" "in_i64 (mj_attempt j)"
  shows "decode_job (Some (encode_job j)) = Some j"
proof -
  have keys: "same_key ''job_id'' b \<longleftrightarrow> ''job_id'' = b" "same_key ''tenant_id'' b \<longleftrightarrow> ''tenant_id'' = b"
      "same_key ''execution_id'' b \<longleftrightarrow> ''execution_id'' = b" "same_key ''job_type'' b \<longleftrightarrow> ''job_type'' = b"
      "same_key ''correlation_id'' b \<longleftrightarrow> ''correlation_id'' = b" "same_key ''attempt'' b \<longleftrightarrow> ''attempt'' = b"
    if "b \<in> set job_keys" for b
    using that by (intro job_keys_apart; simp add: job_keys_def)+
  have mem: "''job_id'' \<in> set job_keys" "''tenant_id'' \<in> set job_keys" "''execution_id'' \<in> set job_keys"
      "''job_type'' \<in> set job_keys" "''correlation_id'' \<in> set job_keys" "''attempt'' \<in> set job_keys"
    by (simp_all add: job_keys_def)
  show ?thesis
    using assms by (simp add: decode_job_def encode_job_def members_of_def keys mem set_string_def set_int_def)
qed

lemma decode_job_ids: "decode_job body = Some j \<Longrightarrow> mj_job j \<noteq> '''' \<and> mj_tenant j \<noteq> '''' \<and> mj_execution j \<noteq> ''''"
  by (auto simp: decode_job_def split: option.splits sum.splits prod.splits if_splits)

subsection \<open>No job is lost\<close>

lemma mq_publish_clean:
  assumes "mq_publish pub job retry [] q = (e, confirms, q')" "broker_ok pub" "pu_cancelled pub = None"
  shows "confirms = [] \<and> (q' = q \<or> q' = enqueue retry (Some (encode_job job)) q)
    \<and> (e = None \<longrightarrow> q' = enqueue retry (Some (encode_job job)) q)"
  using assms by (auto simp: mq_publish_def broker_ok_def Let_def split: option.splits bool.splits)

lemma queued_for_enqueue: "queued_for i (enqueue retry body q) \<longleftrightarrow> carries i body \<or> queued_for i q"
  by (auto simp: queued_for_def enqueue_def)

lemma queued_for_settle: "how \<noteq> Ack \<Longrightarrow> queued_for i (settle how body q) \<longleftrightarrow> carries i body \<or> queued_for i q"
  by (cases how) (auto simp: queued_for_def)

lemma carries_retry:
  assumes "task_ok (body, AtRetry job category)" "carries i body"
  shows "carries i (Some (encode_job (retry_job job)))"
proof -
  obtain j where j: "decode_job body = Some j" "mj_job job = mj_job j" "mj_tenant job = mj_tenant j" "mj_execution job = mj_execution j"
    using assms(1) by auto
  with decode_job_ids [OF j(1)] have "decode_job (Some (encode_job (retry_job job))) = Some (retry_job job)"
    by (intro decode_encode_job) (simp_all add: retry_job_def)
  with j assms(2) show ?thesis by (auto simp: carries_def retry_job_def)
qed

text \<open>A call of a goroutine keeps the invariant, loses no message, and passes its job on when it ends its work for it.\<close>

lemma worker_next_call:
  assumes "worker_next encode w env pub pc (d, [], q) = (pc', d', confirms, q')"
    and "task_ok (body, pc)" "broker_ok pub" "pu_cancelled pub = None"
  shows "confirms = [] \<and> task_ok (body, pc') \<and> (queued_for i q \<longrightarrow> queued_for i q')
    \<and> (carries i body \<and> \<not> spent pc \<and> spent pc' \<longrightarrow> i \<in> rr_job ` set (db_results d') \<or> queued_for i q')"
proof (cases pc)
  case (AtComplete job inp)
  with assms(1,2) show ?thesis
    by (auto split: prod.splits option.splits elim!: complete_cases simp: carries_def spent_def)
next
  case (AtRetry job category)
  show ?thesis
  proof (cases "wo_max_attempts w \<le> mj_attempt (retry_job job)")
    case True
    with assms(1,2) AtRetry show ?thesis by (auto simp: Let_def retry_job_def spent_def)
  next
    case False
    obtain e c1 q1 where p: "mq_publish pub (retry_job job) True [] q = (e, c1, q1)" by (metis prod_cases3)
    note clean = mq_publish_clean [OF p assms(3,4)]
    have "carries i body \<Longrightarrow> carries i (Some (encode_job (retry_job job)))" using carries_retry assms(2) AtRetry by blast
    then have "c1 = []" "queued_for i q \<longrightarrow> queued_for i q1" "e = None \<longrightarrow> carries i body \<longrightarrow> queued_for i q1"
      using clean by (auto simp: queued_for_enqueue)
    with False p assms(1,2) AtRetry show ?thesis
      by (cases e) (auto simp: Let_def retry_job_def spent_def)
  qed
qed (use assms(1,2) in \<open>auto simp: spent_def split: option.splits prod.splits sum.splits\<close>)

lemma task_ok_start: "task_ok (body, AtBody body)"
  by simp

lemma eval_step_ok: "eval_step encode w proc s s' \<Longrightarrow> sys_ok s \<Longrightarrow> sys_ok s'"
proof (induction rule: eval_step.induct)
  case (act s g body pc pub env pc1 d1 confirms1 q1)
  then have call: "worker_next encode w env pub pc (es_db s, [], es_queues s) = (pc1, d1, confirms1, q1)" and t: "task_ok (body, pc)"
    by (auto simp: sys_ok_def)
  from worker_next_call [OF call t act(3,4)] act(6) show ?case by (auto simp: sys_ok_def)
next
  case (command pub job s p e confirms1 q1)
  then have "mq_publish pub job False [] (es_queues s) = (e, confirms1, q1)" by (simp add: sys_ok_def)
  from mq_publish_clean [OF this command(1,2)] command(4) show ?case by (auto simp: sys_ok_def)
qed (auto simp: sys_ok_def)

lemma eval_step_results: "eval_step encode w proc s s' \<Longrightarrow> results_grow (es_db s) (es_db s')"
proof (induction rule: eval_step.induct)
  case (act s g body pc pub env pc1 d1 confirms1 q1)
  then show ?case using worker_next_results [of "es_db s" encode w env pub pc "es_confirms s (proc g)" "es_queues s"] by simp
qed (simp_all add: results_grow_same)

lemma live_drop:
  assumes "live i s" "es_tasks s g = Some (body, pc)" "spent pc \<or> (carries i body \<longrightarrow> queued_for i q)"
    and "queued_for i (es_queues s) \<Longrightarrow> queued_for i q"
  shows "live i (s\<lparr>es_queues := q, es_tasks := (es_tasks s)(g := None)\<rparr>)"
  using assms(1) unfolding live_def
proof (elim disjE exE conjE)
  fix g' body' pc'
  assume g': "es_tasks s g' = Some (body', pc')" "\<not> spent pc'" "carries i body'"
  then show "i \<in> rr_job ` set (db_results (es_db (s\<lparr>es_queues := q, es_tasks := (es_tasks s)(g := None)\<rparr>)))
      \<or> queued_for i (es_queues (s\<lparr>es_queues := q, es_tasks := (es_tasks s)(g := None)\<rparr>))
      \<or> (\<exists>g' body pc. es_tasks (s\<lparr>es_queues := q, es_tasks := (es_tasks s)(g := None)\<rparr>) g' = Some (body, pc)
           \<and> \<not> spent pc \<and> carries i body)"
    using assms(2,3) by (cases "g' = g") fastforce+
qed (use assms(4) in auto)

lemma live_deliver:
  assumes "live i s" "es_tasks s g = None" "queued_for i (es_queues s) \<Longrightarrow> queued_for i q \<or> carries i body"
  shows "live i (s\<lparr>es_queues := q, es_tasks := (es_tasks s)(g \<mapsto> (body, AtBody body))\<rparr>)"
proof -
  have new: "\<not> spent (AtBody body)" by (simp add: spent_def)
  from assms(1) show ?thesis
    unfolding live_def
  proof (elim disjE exE conjE)
    fix g' body' pc'
    assume "es_tasks s g' = Some (body', pc')" "\<not> spent pc'" "carries i body'"
    moreover from this assms(2) have "g' \<noteq> g" by auto
    ultimately show "i \<in> rr_job ` set (db_results (es_db (s\<lparr>es_queues := q, es_tasks := (es_tasks s)(g \<mapsto> (body, AtBody body))\<rparr>)))
      \<or> queued_for i (es_queues (s\<lparr>es_queues := q, es_tasks := (es_tasks s)(g \<mapsto> (body, AtBody body))\<rparr>))
      \<or> (\<exists>g' b pc. es_tasks (s\<lparr>es_queues := q, es_tasks := (es_tasks s)(g \<mapsto> (body, AtBody body))\<rparr>) g' = Some (b, pc)
           \<and> \<not> spent pc \<and> carries i b)"
      by fastforce
  qed (use assms(3) new in auto)
qed

lemma live_step:
  assumes "eval_step encode w proc s s'" "sys_ok s" "live i s"
  shows "live i s'"
  using assms(1)
proof (cases rule: eval_step.cases)
  case (act g body pc pub env pc1 d1 confirms1 q1)
  then have call: "worker_next encode w env pub pc (es_db s, [], es_queues s) = (pc1, d1, confirms1, q1)" and t: "task_ok (body, pc)"
    using assms(2) by (auto simp: sys_ok_def)
  have "results_grow (es_db s) d1" using worker_next_results call by (metis fst_conv snd_conv)
  note grow = results_grow_in [OF this] and next1 = worker_next_call [OF call t act(4,5)]
  have still: "es_tasks s' = (es_tasks s)(g \<mapsto> (body, pc1))" "es_db s' = d1" "es_queues s' = q1" using act by simp_all
  have spent: "spent pc1" if "spent pc" using that call act(3) by (cases pc) (auto simp: spent_def at_settle_def)
  show ?thesis
    using assms(3) unfolding live_def
  proof (elim disjE exE conjE)
    fix g' body' pc'
    assume g': "es_tasks s g' = Some (body', pc')" "\<not> spent pc'" "carries i body'"
    show "i \<in> rr_job ` set (db_results (es_db s')) \<or> queued_for i (es_queues s')
        \<or> (\<exists>g body pc. es_tasks s' g = Some (body, pc) \<and> \<not> spent pc \<and> carries i body)"
    proof (cases "g' = g \<and> spent pc1")
      case True
      with g' act(2) next1 still show ?thesis by auto
    next
      case False
      with g' act(2) still have "es_tasks s' g' = Some (body', if g' = g then pc1 else pc')" by auto
      with False g' show ?thesis by (metis (full_types))
    qed
  qed (use grow next1 still in auto)
next
  case (settle g body how)
  show ?thesis
    unfolding settle(1)
    by (rule live_drop [OF assms(3) settle(2)]; cases "how = Ack") (simp_all add: queued_for_settle spent_def)
next
  case (lost g body pc)
  show ?thesis
    unfolding lost(1) by (rule live_drop [OF assms(3) lost(2)]) (auto simp: queued_for_def)
next
  case (deliver g ms body ms')
  show ?thesis
    unfolding deliver(1) by (rule live_deliver [OF assms(3) deliver(2)]) (use deliver(3) in \<open>auto simp: queued_for_def\<close>)
next
  case (expire body rest)
  then have "queued_for i (es_queues s) \<Longrightarrow> queued_for i (es_queues s')"
    by (auto simp: queued_for_def enqueue_def)
  with expire(1) assms(3) show ?thesis by (auto simp: live_def)
next
  case (command pub job p e confirms1 q1)
  then have "mq_publish pub job False [] (es_queues s) = (e, confirms1, q1)" using assms(2) by (simp add: sys_ok_def)
  from mq_publish_clean [OF this command(2,3)] command(1) assms(3) show ?thesis
    by (auto simp: live_def queued_for_enqueue)
qed (use assms(3) in \<open>simp add: live_def\<close>)

lemma eval_run:
  assumes "(eval_step encode w proc)\<^sup>*\<^sup>* s s'" "sys_ok s"
  shows "sys_ok s' \<and> results_grow (es_db s) (es_db s') \<and> (live i s \<longrightarrow> live i s')"
  using assms
proof (induction rule: rtranclp_induct)
  case base
  then show ?case by (simp add: results_grow_same)
next
  case (step s1 s2)
  with eval_step_ok eval_step_results live_step results_grow_trans show ?case by blast
qed


definition sample_command :: mq_job where
  "sample_command = \<lparr>mj_job = ''job'', mj_tenant = ''tenant'', mj_execution = ''run'', mj_type = ''all'',
     mj_correlation = ''c'', mj_attempt = 0\<rparr>"

definition sample_sys :: eval_sys where
  "sample_sys = \<lparr>es_db = empty_db, es_confirms = (\<lambda>p. []),
     es_queues = \<lparr>qu_work = [Some (encode_job sample_command)], qu_retry = [], qu_dead = []\<rparr>, es_tasks = (\<lambda>g. None)\<rparr>"

definition sample_taken :: eval_sys where
  "sample_taken = sample_sys\<lparr>es_queues := (es_queues sample_sys)\<lparr>qu_work := []\<rparr>,
     es_tasks := (es_tasks sample_sys)(0 \<mapsto> (Some (encode_job sample_command), AtBody (Some (encode_job sample_command))))\<rparr>"

lemma sample_deliver: "eval_step encode w proc sample_sys sample_taken"
  using eval_step.deliver [of sample_sys 0 "[]" "Some (encode_job sample_command)" "[]" encode w proc]
  by (simp add: sample_taken_def sample_sys_def)

lemma sample_queued: "queued_for ''job'' (es_queues sample_sys)"
  using decode_encode_job [of sample_command]
  by (simp add: queued_for_def carries_def sample_sys_def sample_command_def in_i64_def)


subsection \<open>Retries end\<close>

text \<open>\<open>reissues w job job'\<close>: giving up on a delivery of \<open>job\<close>, the worker publishes \<open>job'\<close> for another attempt.\<close>

definition reissues :: "worker \<Rightarrow> mq_job \<Rightarrow> mq_job \<Rightarrow> bool" where
  "reissues w job job' \<longleftrightarrow>
     (\<exists>encode env pub category d confirms q pc d' confirms' q'.
        worker_next encode w env pub (AtRetry job category) (d, confirms, q) = (pc, d', confirms', q')
        \<and> qu_retry q' = qu_retry q @ [Some (encode_job job')])"

lemma encode_job_inj: "encode_job a = encode_job b \<longleftrightarrow> a = b"
  by (cases a, cases b) (simp add: encode_job_def)

lemma mq_publish_retry:
  "mq_publish pub job retry confirms q = (e, confirms', q') \<Longrightarrow> q' = q \<or> q' = enqueue retry (Some (encode_job job)) q"
  by (auto simp: mq_publish_def Let_def split: option.splits list.splits bool.splits if_splits)

lemma reissues_next:
  assumes "reissues w job job'"
  shows "job' = retry_job job \<and> mj_attempt job' < wo_max_attempts w"
  using assms
  by (auto simp: reissues_def Let_def encode_job_inj enqueue_def split: if_splits prod.splits option.splits
      dest!: mq_publish_retry)

lemma reissues_bound:
  assumes "successively (reissues w) (job # jobs)" "0 \<le> mj_attempt job" "mj_attempt job < wo_max_attempts w" "in_i64 (wo_max_attempts w)"
  shows "int (length jobs) < wo_max_attempts w - mj_attempt job"
  using assms
proof (induction jobs arbitrary: job)
  case (Cons job' jobs)
  then have j: "job' = retry_job job" "mj_attempt job' < wo_max_attempts w" using reissues_next by auto
  from Cons.prems have "in_i64 (mj_attempt job + 1)" by (simp add: in_i64_def)
  then have "mj_attempt job' = mj_attempt job + 1" using j(1) by (simp add: retry_job_def)
  moreover from this Cons.IH [of job'] Cons.prems j(2) have "int (length jobs) < wo_max_attempts w - mj_attempt job'" by simp
  ultimately show ?case by simp
qed simp

lemma at_settle_settled [simp]: "at_settle (AtSettle s)"
  by (simp add: at_settle_def)

lemma worker_calls_settled: "worker_calls encode w envs (AtSettle s) st = (AtSettle s, st)"
  by (induction envs) auto

lemma worker_calls_fail: "1 \<le> length envs \<Longrightarrow> at_settle (fst (worker_calls encode w envs (AtFail job c p s) st))"
  by (cases envs; cases st) (auto simp: worker_calls_settled)

lemma worker_calls_retry: "2 \<le> length envs \<Longrightarrow> at_settle (fst (worker_calls encode w envs (AtRetry job c) st))"
  by (cases envs; cases st)
    (auto simp: worker_calls_settled worker_calls_fail Let_def split: prod.splits option.splits)

lemma worker_calls_complete: "3 \<le> length envs \<Longrightarrow> at_settle (fst (worker_calls encode w envs (AtComplete job inp) st))"
  by (cases envs; cases st)
    (auto simp: worker_calls_settled worker_calls_retry split: prod.splits option.splits)

lemma worker_calls_load: "4 \<le> length envs \<Longrightarrow> at_settle (fst (worker_calls encode w envs (AtLoad job) st))"
  by (cases envs; cases st)
    (auto simp: worker_calls_complete worker_calls_retry split: prod.splits sum.splits)

lemma worker_calls_body: "5 \<le> length envs \<Longrightarrow> at_settle (fst (worker_calls encode w envs (AtBody body) st))"
  by (cases envs; cases st)
    (auto simp: worker_calls_settled worker_calls_load worker_calls_retry split: prod.splits option.splits)

text \<open>
  C27. Every delivery is settled after at most five calls of the worker, whatever the database and the broker
  do. And retries end: the chain of commands in which each is published because the worker gave up on the one
  before, starting with a submitted command, has at most as many members as the configured attempts (three
  by default).
\<close>

theorem deliveries_and_retries_end:
  assumes "in_i64 max_attempts" "mj_attempt job = 0" "w = new_worker evaluators concurrency max_attempts"
    and "successively (reissues w) (job # jobs)" "5 \<le> length envs"
  shows "at_settle (fst (worker_calls encode w envs (AtBody body) st))
    \<and> int (length (job # jobs)) \<le> (if max_attempts \<le> 0 then 3 else max_attempts)"
proof -
  have "in_i64 (wo_max_attempts w)" "0 < wo_max_attempts w" using assms(1,3) by (simp_all add: new_worker_def in_i64_def)
  with reissues_bound [OF assms(4)] assms(2) have "int (length (job # jobs)) \<le> wo_max_attempts w" by simp
  moreover have "wo_max_attempts w = (if max_attempts \<le> 0 then 3 else max_attempts)" using assms(3) by (simp add: new_worker_def)
  ultimately show ?thesis using worker_calls_body [OF assms(5)] by simp
qed

definition good_publish :: publish_env where
  "good_publish = \<lparr>pu_error = None, pu_stored = True, pu_confirm = Some True, pu_cancelled = None\<rparr>"

definition calm_env :: pg_env where
  "calm_env = \<lparr>pe_fault = NoFault, pe_now = 1, pe_clock = 1, pe_ids = (\<lambda>n. replicate n CHR ''x'')\<rparr>"

lemma sample_reissues:
  "0 \<le> n \<Longrightarrow> n < 2 \<Longrightarrow> reissues (new_worker [] 0 0) (sample_command\<lparr>mj_attempt := n\<rparr>) (sample_command\<lparr>mj_attempt := n + 1\<rparr>)"
  unfolding reissues_def
  by (rule exI [of _ "\<lambda>rs. Inr JNull"], rule exI [of _ calm_env], rule exI [of _ good_publish],
      rule exI [of _ "[]"], rule exI [of _ empty_db], rule exI [of _ "[]"])
    (auto simp: Let_def retry_job_def new_worker_def good_publish_def mq_publish_def enqueue_def in_i64_def)

theorem deliveries_and_retries_end_witness:
  "at_settle (fst (worker_calls (\<lambda>rs. Inr JNull) (new_worker [] 0 0) (replicate 5 (calm_env, good_publish))
       (AtBody None) (empty_db, [], es_queues sample_sys)))
   \<and> int (length [sample_command, sample_command\<lparr>mj_attempt := 1\<rparr>, sample_command\<lparr>mj_attempt := 2\<rparr>]) \<le> 3"
proof -
  have c: "sample_command\<lparr>mj_attempt := 0\<rparr> = sample_command" by (simp add: sample_command_def)
  have "reissues (new_worker [] 0 0) sample_command (sample_command\<lparr>mj_attempt := 1\<rparr>)"
    "reissues (new_worker [] 0 0) (sample_command\<lparr>mj_attempt := 1\<rparr>) (sample_command\<lparr>mj_attempt := 2\<rparr>)"
    using sample_reissues [of 0] sample_reissues [of 1] by (simp_all add: c)
  then have chain: "successively (reissues (new_worker [] 0 0))
      [sample_command, sample_command\<lparr>mj_attempt := 1\<rparr>, sample_command\<lparr>mj_attempt := 2\<rparr>]" by simp
  show ?thesis
    using deliveries_and_retries_end [OF _ _ refl chain, of "replicate 5 (calm_env, good_publish)"]
    by (simp add: in_i64_def sample_command_def)
qed

subsection \<open>Left-over confirmations\<close>

text \<open>
  C28. \<open>Publish\<close> can report success for a message that the broker refused. When the context of one publication
  ends before its confirmation arrives, that confirmation stays in the channel, and the next publication takes
  it for its own: it returns no error although its message is in no queue and its own, negative, confirmation
  is still to come.
\<close>

theorem stale_confirmation_hides_refusal:
  "\<exists>pub1 pub2 e q1. broker_ok pub1 \<and> broker_ok pub2
     \<and> mq_publish pub1 job1 retry1 [] q = (Some e, [True], q1)
     \<and> mq_publish pub2 job2 retry2 [True] q1 = (None, [False], q1) \<and> pu_confirm pub2 = Some False"
  by (rule exI [of _ "good_publish\<lparr>pu_cancelled := Some CtxCanceled\<rparr>"],
      rule exI [of _ "good_publish\<lparr>pu_stored := False, pu_confirm := Some False\<rparr>"])
    (simp add: broker_ok_def good_publish_def mq_publish_def Let_def)

end
