(* ===== verification/Spec2Isabelle.thy ===== *)
theory Spec2Isabelle
  imports Aegis_Prelude Budget Request Circuit_Breaker Auth Go_Float Go_Text Go_Regexp Provider Routing Routing_Concurrent
    Rate_Limit Store Memory_Store Memory_Budget Gateway Gateway_Paths
    Gateway_Sample Gateway_Safety Gateway_Retry Gateway_Accounting Gateway_Progress
    Evaluation Go_Json Events Database Postgres Postgres_Store Postgres_Completion
    Postgres_Budget Gateway_Postgres Event_Projection Outbox Event_Pipeline Event_Loops Evaluation_Store Evaluation_Jobs Evaluation_System
begin

text \<open>
  AegisAI, a multi-tenant gateway to AI providers, as a verified library: models of the Go packages under
  \<open>src/\<close> and theorems about them.

  \<^bold>\<open>The program and its parts.\<close> A client sends a chat request with an API key and an idempotency key. The
  gateway (\<open>internal/gateway\<close>) validates it, creates or finds its record in the store
  (\<open>internal/persistence\<close>), takes rate limit permits in Redis (\<open>internal/ratelimit\<close>), reserves the budget
  (\<open>internal/budget\<close>), lets the router (\<open>internal/routing\<close>) lease a provider guarded by a circuit breaker
  (\<open>internal/circuitbreaker\<close>), calls the provider (\<open>internal/provider\<close>) and records the outcome; it retries
  on other providers up to \<open>MaxAttempts\<close>. Completed responses are scored by evaluators
  (\<open>internal/evaluation\<close>).

  \<^bold>\<open>Conventions.\<close> A struct is a \<open>record\<close>, an enumeration a \<open>datatype\<close>, a method a function that takes the
  state and returns its result and the new state. \<open>int\<close> and \<open>int64\<close> are mathematical integers with the
  wrap-around \<open>i64\<close> written where the code can overflow; strings are byte sequences; times are nanoseconds.
  Errors are values of \<open>go_error\<close>, a panic is its constructor \<open>GoPanic\<close>. Cryptography, JSON encoding, the
  clock, the random source, the network and the providers are arguments of the definitions. A method that
  holds its mutex for its whole body is one atomic step.

  \<^bold>\<open>The theories.\<close>
  \<^item> \<open>Aegis_Prelude\<close>, \<open>Go_Text\<close>, \<open>Go_Regexp\<close>, \<open>Go_Float\<close>: Go's integers, times, error chains, UTF-8 and
    string functions, the regular expressions with a proof that the backtracking search finds exactly what
    an expression describes, and binary64 arithmetic.
  \<^item> \<open>Budget\<close>: \<open>CostMicroUSD\<close> is the price rounded up, never a wrapped product; \<open>CanReserve\<close> decides the sum.
  \<^item> \<open>Request\<close>: states and transitions of a request (any run has at most four moves), input validation,
    the request hash.
  \<^item> \<open>Circuit_Breaker\<close>: the breaker trips at the threshold, stays open for its time and bounds its probes.
  \<^item> \<open>Auth\<close>: exactly the stored, unrevoked, unexpired keys verify; generated keys verify unless their
    random prefix contains the separator.
  \<^item> \<open>Provider\<close>: the mock and the OpenAI adapter; a stream is a tree of interactions with the callback, and
    an error after output is not retryable.
  \<^item> \<open>Routing\<close>: selection grants a lease exactly when a provider is admissible, weighted round robin is
    fair, the sorting strategies choose the best rank, \<open>HighestPrices\<close> bounds every lease.
    \<open>Routing_Concurrent\<close>: the same methods as interleaved atomic actions; capacity is never exceeded, leaked
    or invented, and the sequential methods are runs of the interleaved system.
  \<^item> \<open>Rate_Limit\<close>: the Lua scripts on the Redis key space; over every history the limits hold.
  \<^item> \<open>Store\<close>: the interface \<open>persistence.Store\<close> as the record \<open>store_ops\<close>, its contract as the locales
    \<open>request_store\<close>, \<open>idempotent_store\<close> and \<open>reliable_store\<close>, and \<open>shared_ops\<close>, the same store used by other
    clients between any two operations. \<open>Memory_Store\<close>: the in-memory store, which interprets the locales.
    \<open>Memory_Budget\<close>: no interleaving of store calls exceeds a monthly limit.
  \<^item> \<open>Gateway\<close>: \<open>execute\<close> and everything it calls, over any store and any surroundings (\<open>world_ops\<close>).
    \<open>Gateway_Paths\<close>: one case rule per function, a rule for the attempt loop and the locale \<open>store_frame\<close>.
    \<open>Gateway_Safety\<close>: legal moves, returned leases, bounded provider calls, on every path.
    \<open>Gateway_Retry\<close>: a retry is answered from the store. \<open>Gateway_Accounting\<close>: exact charges, no reservation
    left. \<open>Gateway_Progress\<close>: a request in good order is answered. \<open>Gateway_Sample\<close>: a running example.
  \<^item> \<open>Evaluation\<close>: the four evaluators; the PII detector fails exactly the responses with an occurrence of
    its patterns, and findings are masked.

  \<^bold>\<open>Concurrency.\<close> A request is a sequence of operations on the store, the router and Redis. The safety and
  retry theorems let other clients act on the shared store before each operation, by any legal change. The
  settlement theorems are about the calls of one service on a store without interference. The router is
  shared by all goroutines; its interleavings are in \<open>Routing_Concurrent\<close>.

  \<^bold>\<open>Bounds and termination.\<close> No definition has artificial fuel. The attempt loop counts down from
  \<open>MaxAttempts\<close>, the provider streams are finite trees, the loops over lists are structural, the search
  loops have termination proofs on the remaining text. \<open>Star\<close> repeats at most as often as runes are left,
  which is enough because a repetition that consumes nothing is not followed.

  \<^bold>\<open>Not modelled.\<close> Process start-up and shutdown, signal handling and wiring (\<open>cmd/\<close>, \<open>internal/app\<close>),
  logging, metrics and tracing (\<open>internal/observability\<close>), and the administration command line: they only
  call libraries and do not change the modelled state.
\<close>

end
